(* ===== verification/Prelude.thy ===== *)
theory Prelude
  imports Main "HOL-Library.Word"
begin

text \<open>
  What every component shares: undefined behaviour of C as an error value, the result
  type \<open>'a cres\<close> with its sequencing operator, decimal rendering of integers as
  \<^verbatim>\<open>printf\<close> does it, the conversions between C integer types, and generic facts on
  lists that the components use.
\<close>

named_theorems cres_simps \<open>unfolding of the result monad\<close>

section \<open>Undefined behaviour as a value\<close>

text \<open>
  The kinds of misbehaviour the C code can run into. A model of a C function returns
  \<open>Inl u\<close> exactly where the source dereferences a null pointer, touches memory
  outside an object, reads a pointer that was never written, uses an object after
  \<^verbatim>\<open>free\<close>, frees something \<^verbatim>\<open>malloc\<close> did not return, or loops for ever.
\<close>

datatype ub =
    Null_Deref
  | Out_Of_Bounds
  | Uninitialised
  | Use_After_Free
  | Invalid_Free
  | Diverges

type_synonym 'a cres = "ub + 'a"

definition bindU :: "'a cres \<Rightarrow> ('a \<Rightarrow> 'b cres) \<Rightarrow> 'b cres" where
  "bindU m f = (case m of Inl u \<Rightarrow> Inl u | Inr x \<Rightarrow> f x)"

lemma bindU_Inl [simp, cres_simps]: "bindU (Inl u) f = Inl u"
  by (simp add: bindU_def)

lemma bindU_Inr [simp, cres_simps]: "bindU (Inr x) f = f x"
  by (simp add: bindU_def)

lemma bindU_cong [fundef_cong]:
  "m = m' \<Longrightarrow> (\<And>x. m' = Inr x \<Longrightarrow> f x = f' x) \<Longrightarrow> bindU m f = bindU m' f'"
  by (auto simp: bindU_def split: sum.splits)

lemma bindU_eq_Inr: "bindU m f = Inr y \<longleftrightarrow> (\<exists>x. m = Inr x \<and> f x = Inr y)"
  by (auto simp: bindU_def split: sum.splits)

lemma bindU_InrE:
  assumes "bindU m f = Inr y"
  obtains x where "m = Inr x" and "f x = Inr y"
  using assms by (cases m) auto

lemma bindU_assoc: "bindU (bindU m f) g = bindU m (\<lambda>x. bindU (f x) g)"
  by (auto simp: bindU_def split: sum.splits)

text \<open>
  A triple for the result monad: the computation misbehaves in no way outside \<open>U\<close>, and a
  value it returns satisfies \<open>Q\<close>.
\<close>

definition yields :: "ub set \<Rightarrow> 'a cres \<Rightarrow> ('a \<Rightarrow> bool) \<Rightarrow> bool" where
  "yields U m Q \<longleftrightarrow> (case m of Inl u \<Rightarrow> u \<in> U | Inr x \<Rightarrow> Q x)"

lemma yields_simps [simp]: "yields U (Inl u) Q \<longleftrightarrow> u \<in> U" "yields U (Inr x) Q \<longleftrightarrow> Q x"
  by (simp_all add: yields_def)

lemma yields_bind:
  "yields U m R \<Longrightarrow> (\<And>x. m = Inr x \<Longrightarrow> R x \<Longrightarrow> yields U (f x) Q) \<Longrightarrow> yields U (bindU m f) Q"
  by (cases m) simp_all

lemma yields_mono: "yields U m R \<Longrightarrow> (\<And>x. R x \<Longrightarrow> Q x) \<Longrightarrow> yields U m Q"
  by (cases m) simp_all

lemma yields_widen: "yields U m Q \<Longrightarrow> U \<subseteq> V \<Longrightarrow> yields V m Q"
  by (cases m) auto

lemma yields_InrD: "yields U m Q \<Longrightarrow> m = Inr x \<Longrightarrow> Q x"
  by simp

text \<open>For a result that has been evaluated.\<close>

lemma some_resultE:
  assumes "case m of Inr (Some x, st) \<Rightarrow> P x st | _ \<Rightarrow> False"
  obtains x st where "m = Inr (Some x, st)" and "P x st"
  using assms by (auto split: sum.splits option.splits)

text \<open>
  What a group of operations leaves alone is a relation between the state before and the state
  after. Every such relation composes in the same way.
\<close>

locale frame_relation =
  fixes rel :: "'s \<Rightarrow> 's \<Rightarrow> bool"
  assumes same: "rel s s" and chain: "rel s t \<Longrightarrow> rel t u \<Longrightarrow> rel s u"
begin

lemma bind:
  assumes "yields U m (rel s)" and "\<And>t. m = Inr t \<Longrightarrow> rel s t \<Longrightarrow> yields U (f t) (rel t)"
  shows "yields U (bindU m f) (rel s)"
  using assms(1)
proof (rule yields_bind)
  fix t assume "m = Inr t" and "rel s t"
  then show "yields U (f t) (rel s)" using assms(2) chain by (blast intro: yields_mono)
qed

lemma fold: "(\<And>x s. rel s (f x s)) \<Longrightarrow> rel s (fold f xs s)"
  by (induction xs arbitrary: s) (auto intro: same chain)

lemma later: "rel s t \<Longrightarrow> yields U m (rel t) \<Longrightarrow> yields U m (rel s)"
  using chain by (blast intro: yields_mono)

end

text \<open>
  A \<^verbatim>\<open>char *\<close> that some caller frees: what \<^verbatim>\<open>malloc\<close> returned, or a string literal,
  whose release is undefined behaviour.
\<close>

datatype cstr = Heap (cstr_text: string) | Literal (cstr_text: string)

fun c_free :: "cstr \<Rightarrow> unit cres" where
  "c_free (Heap s) = Inr ()"
| "c_free (Literal s) = Inl Invalid_Free"

text \<open>The newline and the tabulator of the format strings.\<close>

abbreviation nl :: string where "nl \<equiv> [CHR 0x0A]"

abbreviation tab :: string where "tab \<equiv> [CHR 0x09]"

section \<open>Integers of C\<close>

text \<open>Conversion to a 32-bit \<^verbatim>\<open>int\<close> keeps the low 32 bits, read as two's complement.\<close>

definition to_int32 :: "int \<Rightarrow> int" where
  "to_int32 x = (x + 2 ^ 31) mod 2 ^ 32 - 2 ^ 31"

lemma to_int32_range: "- (2 ^ 31) \<le> to_int32 x \<and> to_int32 x < 2 ^ 31"
proof -
  have "0 \<le> (x + 2 ^ 31) mod (2 ^ 32 :: int)" and "(x + 2 ^ 31) mod (2 ^ 32 :: int) < 2 ^ 32"
    by simp_all
  then show ?thesis by (simp add: to_int32_def)
qed

lemma to_int32_id: "- (2 ^ 31) \<le> x \<Longrightarrow> x < 2 ^ 31 \<Longrightarrow> to_int32 x = x"
  by (simp add: to_int32_def)

text \<open>Conversion of an \<^verbatim>\<open>intmax_t\<close> to an unsigned 64-bit type, as \<open>%ju\<close> prints it.\<close>

definition to_uint64 :: "int \<Rightarrow> nat" where
  "to_uint64 x = nat (x mod 2 ^ 64)"

section \<open>Decimal rendering\<close>

definition digit_char :: "nat \<Rightarrow> char" where
  "digit_char d = char_of (48 + d)"

definition is_digit :: "char \<Rightarrow> bool" where
  "is_digit c \<longleftrightarrow> 48 \<le> (of_char c :: nat) \<and> (of_char c :: nat) \<le> 57"

definition digit_val :: "char \<Rightarrow> nat" where
  "digit_val c = of_char c - 48"

fun show_nat :: "nat \<Rightarrow> string" where
  "show_nat n = (if n < 10 then [digit_char n] else show_nat (n div 10) @ [digit_char (n mod 10)])"

declare show_nat.simps [simp del]

definition show_int :: "int \<Rightarrow> string" where
  "show_int x = (if x < 0 then CHR ''-'' # show_nat (nat (- x)) else show_nat (nat x))"

text \<open>The value of a digit string, most significant digit first.\<close>

definition digits_val :: "string \<Rightarrow> nat" where
  "digits_val ds = foldl (\<lambda>n c. 10 * n + digit_val c) 0 ds"

lemma is_digit_digit_char [simp]: "d < 10 \<Longrightarrow> is_digit (digit_char d)"
  by (simp add: is_digit_def digit_char_def)

lemma digit_val_digit_char [simp]: "d < 10 \<Longrightarrow> digit_val (digit_char d) = d"
  by (simp add: digit_val_def digit_char_def)

lemma show_nat_digits: "list_all is_digit (show_nat n)"
proof (induction n rule: show_nat.induct)
  case (1 n)
  then show ?case by (subst show_nat.simps) simp
qed

lemma show_nat_not_Nil [simp]: "show_nat n \<noteq> []"
  by (subst show_nat.simps) simp

lemma digits_val_snoc [simp]: "digits_val (ds @ [c]) = 10 * digits_val ds + digit_val c"
  by (simp add: digits_val_def)

lemma digits_val_Nil [simp]: "digits_val [] = 0"
  by (simp add: digits_val_def)

lemma digits_val_show_nat [simp]: "digits_val (show_nat n) = n"
proof (induction n rule: show_nat.induct)
  case (1 n)
  show ?case
  proof (cases "n < 10")
    case True
    then show ?thesis
      using digits_val_snoc [of "[]" "digit_char n"] by (simp add: show_nat.simps [of n])
  next
    case False
    with 1 show ?thesis by (simp add: show_nat.simps [of n])
  qed
qed

lemma length_show_nat_bound: "n < 10 ^ k \<Longrightarrow> 0 < k \<Longrightarrow> length (show_nat n) \<le> k"
proof (induction k arbitrary: n)
  case 0
  then show ?case by simp
next
  case (Suc k)
  show ?case
  proof (cases "n < 10")
    case True
    then show ?thesis by (simp add: show_nat.simps [of n])
  next
    case False
    then have "k \<noteq> 0" using Suc.prems by (cases k) auto
    moreover have "n div 10 < 10 ^ k" using Suc.prems by (simp add: less_mult_imp_div_less)
    ultimately have "length (show_nat (n div 10)) \<le> k" using Suc.IH by simp
    with False show ?thesis by (simp add: show_nat.simps [of n])
  qed
qed

section \<open>Lists\<close>

lemma takeWhile_append_stop:
  "list_all P xs \<Longrightarrow> ys = [] \<or> \<not> P (hd ys) \<Longrightarrow> takeWhile P (xs @ ys) = xs"
  by (induction xs) (cases ys; auto)+

lemma dropWhile_append_stop:
  "list_all P xs \<Longrightarrow> ys = [] \<or> \<not> P (hd ys) \<Longrightarrow> dropWhile P (xs @ ys) = ys"
  by (induction xs) (cases ys; auto)+

lemma list_update_mid: "(xs @ y # ys)[length xs := z] = xs @ z # ys"
  by (induction xs) auto

end
