(* ===== verification/Shell_State.thy ===== *)
theory Shell_State
  imports Prelude
begin

text \<open>
  The data of the shell: the structs of \<^verbatim>\<open>src/command.h\<close> and \<^verbatim>\<open>src/jobs.h\<close>, the global
  variables of \<^verbatim>\<open>src/command.c\<close>, \<^verbatim>\<open>src/jobs.c\<close> and \<^verbatim>\<open>src/internals.c\<close>, and the system calls.

  The kernel and \<^verbatim>\<open>readline\<close> are not part of the program. They are a record \<open>os\<close> of
  functions, a parameter of every definition that makes a call. Each function takes the
  trace of everything the process has done so far, most recent event first, and answers
  the call; a theorem about all \<open>os\<close> is a theorem about every sequence of answers.
\<close>

section \<open>System calls\<close>

type_synonym fd = int
type_synonym pid = int

datatype errno = EACCES | ENOENT | EINVAL | ESRCH | Errno nat

datatype oflag = O_RDONLY | O_WRONLY | O_CREAT | O_EXCL | O_TRUNC | O_APPEND

datatype wait_option = WNOHANG | WUNTRACED | WCONTINUED

datatype sig_handler = SIG_IGN | SIG_DFL

datatype event =
    Ev_Write fd string
  | Ev_Open string "oflag list" fd
  | Ev_Pipe "(fd \<times> fd) option"
  | Ev_Close fd
  | Ev_Dup2 fd fd
  | Ev_Read fd nat "string option"
  | Ev_Read_Int fd "int option"
  | Ev_Write_Int fd int bool
  | Ev_Fork pid
  | Ev_Execvp string "string list"
  | Ev_Exit int
  | Ev_Setpgid pid pid int
  | Ev_Getpgrp pid
  | Ev_Tcsetpgrp fd pid int
  | Ev_Kill pid int int
  | Ev_Waitpid pid "wait_option list" pid "32 word"
  | Ev_Sigaction int sig_handler int
  | Ev_Getcwd "string option"
  | Ev_Chdir string int
  | Ev_Stat string "bool option"
  | Ev_Readline string "string option"
  | Ev_Add_History string

type_synonym history = "event list"

text \<open>
  \<open>os_errno\<close> is the value of \<^verbatim>\<open>errno\<close> after a history. \<open>os_stat\<close> answers \<^const>\<open>None\<close>
  for -1 and otherwise whether the file is a directory. \<open>os_read_int\<close> and
  \<open>os_write_int\<close> are a \<^verbatim>\<open>read\<close> or \<^verbatim>\<open>write\<close> of \<^verbatim>\<open>sizeof(int)\<close> bytes, and fail when the
  count is another one. \<open>os_execvp\<close> answers whether the call replaced the process.
\<close>

record os =
  os_errno :: "history \<Rightarrow> errno"
  os_strerror :: "errno \<Rightarrow> string"
  os_open :: "history \<Rightarrow> string \<Rightarrow> oflag list \<Rightarrow> fd"
  os_pipe :: "history \<Rightarrow> (fd \<times> fd) option"
  os_read :: "history \<Rightarrow> fd \<Rightarrow> nat \<Rightarrow> string option"
  os_read_int :: "history \<Rightarrow> fd \<Rightarrow> int option"
  os_write_int :: "history \<Rightarrow> fd \<Rightarrow> int \<Rightarrow> bool"
  os_fork :: "history \<Rightarrow> pid"
  os_execvp :: "history \<Rightarrow> string \<Rightarrow> string list \<Rightarrow> bool"
  os_setpgid :: "history \<Rightarrow> pid \<Rightarrow> pid \<Rightarrow> int"
  os_getpgrp :: "history \<Rightarrow> pid"
  os_tcsetpgrp :: "history \<Rightarrow> fd \<Rightarrow> pid \<Rightarrow> int"
  os_kill :: "history \<Rightarrow> pid \<Rightarrow> int \<Rightarrow> int"
  os_waitpid :: "history \<Rightarrow> pid \<Rightarrow> wait_option list \<Rightarrow> pid \<times> 32 word"
  os_sigaction :: "history \<Rightarrow> int \<Rightarrow> sig_handler \<Rightarrow> int"
  os_getcwd :: "history \<Rightarrow> string option"
  os_chdir :: "history \<Rightarrow> string \<Rightarrow> int"
  os_stat :: "history \<Rightarrow> string \<Rightarrow> bool option"
  os_getenv :: "string \<Rightarrow> string option"
  os_readline :: "history \<Rightarrow> string \<Rightarrow> string option"

section \<open>Structs\<close>

text \<open>
  A \<^verbatim>\<open>pipe_info\<close> is the array of the indices of the pipes in \<^verbatim>\<open>command->open_pipes\<close>. A
  \<^verbatim>\<open>command_call\<close> lives in the store \<open>call_heap\<close>; its address is its position there.
\<close>

type_synonym pipe_info = "nat list"
type_synonym addr = nat

record command_call =
  cc_name :: string
  cc_argc :: nat
  cc_argv :: "string list"
  cc_command_string :: string
  cc_reading_pipes :: "pipe_info option"
  cc_writing_pipes :: "pipe_info option"
  cc_stdin :: fd
  cc_stdout :: fd
  cc_stderr :: fd

record command =
  cmd_string :: "string option"
  cmd_calls :: "addr list"
  cmd_background :: bool
  cmd_open_pipes :: "(fd \<times> fd) list"

abbreviation command_call_count :: "command \<Rightarrow> nat" where
  "command_call_count cmd \<equiv> length (cmd_calls cmd)"

abbreviation open_pipes_size :: "command \<Rightarrow> nat" where
  "open_pipes_size cmd \<equiv> length (cmd_open_pipes cmd)"

datatype job_status = RUNNING | STOPPED | DETACHED | KILLED | DONE

record subjob =
  sj_command :: string
  sj_pid :: pid
  sj_last_status :: job_status

record job =
  job_id :: nat
  job_status :: job_status
  job_pgid :: pid
  job_command_string :: string
  job_subjobs :: "subjob option list"

abbreviation subjobs_size :: "job \<Rightarrow> nat" where
  "subjobs_size j \<equiv> length (job_subjobs j)"

section \<open>Globals\<close>

text \<open>
  The pointer \<^verbatim>\<open>job_table\<close> is null before the first \<^verbatim>\<open>init_job_table\<close>, points to the table
  afterwards and is left dangling by \<^verbatim>\<open>destroy_job_table\<close>. The table is the list of its
  \<^verbatim>\<open>job_table_capacity\<close> slots. A freed \<^verbatim>\<open>command_call\<close> is \<^const>\<open>None\<close> in the store.
  \<open>lwd\<close> is the string in the buffer \<^verbatim>\<open>char lwd[PATH_MAX]\<close>.
\<close>

datatype table_ptr = Null_Table | Live_Table | Dangling_Table

record shell =
  trace :: history
  call_heap :: "command_call option list"
  last_parsed_command_call :: "addr option"
  last_parsed_command_call_substitution :: "addr option"
  job_table_ptr :: table_ptr
  job_table :: "job option list"
  job_table_size :: nat
  last_exit_code :: int
  should_exit :: bool
  lwd :: string

abbreviation job_table_capacity :: "shell \<Rightarrow> nat" where
  "job_table_capacity st \<equiv> length (job_table st)"

text \<open>The state in which \<^verbatim>\<open>main\<close> starts: static storage is zero.\<close>

definition initial_shell :: shell where
  "initial_shell =
     \<lparr>trace = [], call_heap = [], last_parsed_command_call = None,
      last_parsed_command_call_substitution = None, job_table_ptr = Null_Table,
      job_table = [], job_table_size = 0, last_exit_code = 0, should_exit = False, lwd = []\<rparr>"

section \<open>Calls on the state\<close>

definition record_event :: "event \<Rightarrow> shell \<Rightarrow> shell" where
  "record_event e st = st\<lparr>trace := e # trace st\<rparr>"

definition dprintf :: "fd \<Rightarrow> string \<Rightarrow> shell \<Rightarrow> shell" where
  "dprintf fd s = record_event (Ev_Write fd s)"

abbreviation (input) STDIN_FILENO :: fd where "STDIN_FILENO \<equiv> 0"
abbreviation (input) STDOUT_FILENO :: fd where "STDOUT_FILENO \<equiv> 1"
abbreviation (input) STDERR_FILENO :: fd where "STDERR_FILENO \<equiv> 2"

definition strerror_errno :: "os \<Rightarrow> shell \<Rightarrow> string" where
  "strerror_errno OS st = os_strerror OS (os_errno OS (trace st))"

definition perror :: "os \<Rightarrow> string \<Rightarrow> shell \<Rightarrow> shell" where
  "perror OS s st = dprintf STDERR_FILENO (s @ '': '' @ strerror_errno OS st @ nl) st"

definition sys_close :: "fd \<Rightarrow> shell \<Rightarrow> shell" where
  "sys_close fd = record_event (Ev_Close fd)"

definition sys_open :: "os \<Rightarrow> string \<Rightarrow> oflag list \<Rightarrow> shell \<Rightarrow> fd \<times> shell" where
  "sys_open OS path flags st =
     (let r = os_open OS (trace st) path flags in (r, record_event (Ev_Open path flags r) st))"

definition sys_pipe :: "os \<Rightarrow> shell \<Rightarrow> (fd \<times> fd) option \<times> shell" where
  "sys_pipe OS st = (let r = os_pipe OS (trace st) in (r, record_event (Ev_Pipe r) st))"

definition sys_kill :: "os \<Rightarrow> pid \<Rightarrow> int \<Rightarrow> shell \<Rightarrow> int \<times> shell" where
  "sys_kill OS p sig st =
     (let r = os_kill OS (trace st) p sig in (r, record_event (Ev_Kill p sig r) st))"

definition sys_waitpid ::
  "os \<Rightarrow> pid \<Rightarrow> wait_option list \<Rightarrow> shell \<Rightarrow> (pid \<times> 32 word) \<times> shell" where
  "sys_waitpid OS p options st =
     (let (r, status) = os_waitpid OS (trace st) p options
      in ((r, status), record_event (Ev_Waitpid p options r status) st))"

definition sys_getpgrp :: "os \<Rightarrow> shell \<Rightarrow> pid \<times> shell" where
  "sys_getpgrp OS st = (let r = os_getpgrp OS (trace st) in (r, record_event (Ev_Getpgrp r) st))"

definition sys_tcsetpgrp :: "os \<Rightarrow> fd \<Rightarrow> pid \<Rightarrow> shell \<Rightarrow> int \<times> shell" where
  "sys_tcsetpgrp OS fd p st =
     (let r = os_tcsetpgrp OS (trace st) fd p in (r, record_event (Ev_Tcsetpgrp fd p r) st))"

definition sys_getcwd :: "os \<Rightarrow> shell \<Rightarrow> string option \<times> shell" where
  "sys_getcwd OS st = (let r = os_getcwd OS (trace st) in (r, record_event (Ev_Getcwd r) st))"

definition sys_read :: "os \<Rightarrow> fd \<Rightarrow> nat \<Rightarrow> shell \<Rightarrow> string option \<times> shell" where
  "sys_read OS fd n st =
     (let r = map_option (take n) (os_read OS (trace st) fd n)
      in (r, record_event (Ev_Read fd n r) st))"

definition sys_read_int :: "os \<Rightarrow> fd \<Rightarrow> shell \<Rightarrow> int option \<times> shell" where
  "sys_read_int OS fd st =
     (let r = os_read_int OS (trace st) fd in (r, record_event (Ev_Read_Int fd r) st))"

definition sys_write_int :: "os \<Rightarrow> fd \<Rightarrow> int \<Rightarrow> shell \<Rightarrow> bool \<times> shell" where
  "sys_write_int OS fd v st =
     (let r = os_write_int OS (trace st) fd v in (r, record_event (Ev_Write_Int fd v r) st))"

definition sys_fork :: "os \<Rightarrow> shell \<Rightarrow> pid \<times> shell" where
  "sys_fork OS st = (let r = os_fork OS (trace st) in (r, record_event (Ev_Fork r) st))"

definition sys_dup2 :: "fd \<Rightarrow> fd \<Rightarrow> shell \<Rightarrow> shell" where
  "sys_dup2 old new = record_event (Ev_Dup2 old new)"

definition sys_execvp :: "os \<Rightarrow> string \<Rightarrow> string list \<Rightarrow> shell \<Rightarrow> bool \<times> shell" where
  "sys_execvp OS file args st =
     (os_execvp OS (trace st) file args, record_event (Ev_Execvp file args) st)"

definition sys_setpgid :: "os \<Rightarrow> pid \<Rightarrow> pid \<Rightarrow> shell \<Rightarrow> int \<times> shell" where
  "sys_setpgid OS p pg st =
     (let r = os_setpgid OS (trace st) p pg in (r, record_event (Ev_Setpgid p pg r) st))"

definition sys_sigaction :: "os \<Rightarrow> int \<Rightarrow> sig_handler \<Rightarrow> shell \<Rightarrow> int \<times> shell" where
  "sys_sigaction OS sig h st =
     (let r = os_sigaction OS (trace st) sig h in (r, record_event (Ev_Sigaction sig h r) st))"

definition sys_chdir :: "os \<Rightarrow> string \<Rightarrow> shell \<Rightarrow> int \<times> shell" where
  "sys_chdir OS path st =
     (let r = os_chdir OS (trace st) path in (r, record_event (Ev_Chdir path r) st))"

definition sys_stat :: "os \<Rightarrow> string \<Rightarrow> shell \<Rightarrow> bool option \<times> shell" where
  "sys_stat OS path st =
     (let r = os_stat OS (trace st) path in (r, record_event (Ev_Stat path r) st))"

definition sys_readline :: "os \<Rightarrow> string \<Rightarrow> shell \<Rightarrow> string option \<times> shell" where
  "sys_readline OS prompt st =
     (let r = os_readline OS (trace st) prompt in (r, record_event (Ev_Readline prompt r) st))"

definition add_history :: "string \<Rightarrow> shell \<Rightarrow> shell" where
  "add_history line = record_event (Ev_Add_History line)"

lemmas sys_defs = record_event_def dprintf_def perror_def sys_close_def sys_open_def sys_pipe_def
  sys_kill_def sys_waitpid_def sys_getpgrp_def sys_tcsetpgrp_def sys_getcwd_def sys_read_def
  sys_read_int_def sys_write_int_def sys_fork_def sys_dup2_def sys_execvp_def sys_setpgid_def
  sys_sigaction_def sys_chdir_def sys_stat_def sys_readline_def add_history_def Let_def

text \<open>
  What becomes of the process in the middle of a function: it goes on with a value, or
  \<^verbatim>\<open>exit\<close> ends it, or \<^verbatim>\<open>execvp\<close> replaces its program.
\<close>

datatype 'a run =
    Running 'a
  | Exited int shell
  | Replaced string "string list" shell

type_synonym 'a proc = "'a run cres"

definition bindP :: "'a proc \<Rightarrow> ('a \<Rightarrow> 'b proc) \<Rightarrow> 'b proc" where
  "bindP m f = bindU m (\<lambda>r. case r of
     Running x \<Rightarrow> f x | Exited n st \<Rightarrow> Inr (Exited n st) | Replaced p args st \<Rightarrow> Inr (Replaced p args st))"

abbreviation ret :: "'a \<Rightarrow> 'a proc" where "ret x \<equiv> Inr (Running x)"

definition lift_cres :: "'a cres \<Rightarrow> 'a proc" where
  "lift_cres m = bindU m ret"

lemma bindP_simps [simp, cres_simps]:
  "bindP (Inl u) f = Inl u" "bindP (ret x) f = f x"
  "bindP (Inr (Exited n st)) f = Inr (Exited n st)"
  "bindP (Inr (Replaced p args st)) f = Inr (Replaced p args st)"
  "lift_cres (Inl u) = Inl u" "lift_cres (Inr x) = ret x"
  by (simp_all add: bindP_def lift_cres_def)

lemma bindP_eq_Running: "bindP m f = ret y \<longleftrightarrow> (\<exists>x. m = ret x \<and> f x = ret y)"
proof (cases m)
  case (Inr r)
  then show ?thesis by (cases r) auto
qed simp

lemma lift_cres_eq_Running [simp]: "lift_cres m = ret y \<longleftrightarrow> m = Inr y"
  by (auto simp: lift_cres_def bindU_eq_Inr)

text \<open>A system call changes the trace and nothing else.\<close>

definition same_globals :: "shell \<Rightarrow> shell \<Rightarrow> bool" where
  "same_globals st st' \<longleftrightarrow> st' = st\<lparr>trace := trace st'\<rparr>"

lemma same_globals_iff: "same_globals st st' \<longleftrightarrow> (\<exists>h. st' = st\<lparr>trace := h\<rparr>)"
  by (auto simp: same_globals_def)

lemma same_globals_refl [simp, intro]: "same_globals st st"
  by (simp add: same_globals_def)

lemma same_globals_trans [trans]: "same_globals a b \<Longrightarrow> same_globals b c \<Longrightarrow> same_globals a c"
  by (auto simp: same_globals_iff)

interpretation traces: frame_relation same_globals
  by unfold_locales (auto intro: same_globals_trans)

lemma same_globals_record_event [simp]: "same_globals st (record_event e st)"
  by (simp add: same_globals_def record_event_def)

lemma same_globals_dprintf [simp]: "same_globals st (dprintf fd s st)"
  by (simp add: dprintf_def)

lemma same_globals_perror [simp]: "same_globals st (perror OS s st)"
  by (simp add: perror_def)

text \<open>The descriptors that the process holds open besides 0, 1 and 2, after a history.\<close>

fun open_fds :: "history \<Rightarrow> fd list" where
  "open_fds [] = []"
| "open_fds (e # h) =
     (case e of
        Ev_Open path flags r \<Rightarrow> (if r < 0 then open_fds h else r # open_fds h)
      | Ev_Pipe (Some (r, w)) \<Rightarrow> r # w # open_fds h
      | Ev_Close r \<Rightarrow> remove1 r (open_fds h)
      | _ \<Rightarrow> open_fds h)"

section \<open>A kernel\<close>

text \<open>A descriptor above 2 that is not open.\<close>

definition next_fd :: "history \<Rightarrow> fd" where
  "next_fd h = foldr max (open_fds h) 2 + 1"

lemma next_fd_fresh: "next_fd h > 2" "r \<in> set (open_fds h) \<Longrightarrow> r < next_fd h"
proof -
  have "2 \<le> foldr max xs (2 :: int) \<and> (r \<in> set xs \<longrightarrow> r \<le> foldr max xs 2)" for xs
    by (induction xs) auto
  then show "next_fd h > 2" "r \<in> set (open_fds h) \<Longrightarrow> r < next_fd h"
    by (auto simp: next_fd_def)
qed

text \<open>
  One instance of \<open>os\<close>, on which the concrete runs of the development are evaluated: every
  \<^verbatim>\<open>open\<close> and \<^verbatim>\<open>pipe\<close> succeeds with descriptors that are not open, every child ends at once
  with status 0, and the current directory is the root.
\<close>

definition sample_os :: os where
  "sample_os =
     \<lparr>os_errno = (\<lambda>h. ENOENT), os_strerror = (\<lambda>e. ''error''),
      os_open = (\<lambda>h path flags. next_fd h), os_pipe = (\<lambda>h. Some (next_fd h, next_fd h + 1)),
      os_read = (\<lambda>h fd n. Some []), os_read_int = (\<lambda>h fd. Some 0), os_write_int = (\<lambda>h fd v. True),
      os_fork = (\<lambda>h. 5000 + int (length h)), os_execvp = (\<lambda>h file args. True),
      os_setpgid = (\<lambda>h p pg. 0), os_getpgrp = (\<lambda>h. 4000), os_tcsetpgrp = (\<lambda>h fd pg. 0),
      os_kill = (\<lambda>h p sig. if sig = 0 then -1 else 0), os_waitpid = (\<lambda>h p options. (p, 0)),
      os_sigaction = (\<lambda>h sig handler. 0), os_getcwd = (\<lambda>h. Some ''/''),
      os_chdir = (\<lambda>h path. 0), os_stat = (\<lambda>h path. Some True),
      os_getenv = (\<lambda>name. None), os_readline = (\<lambda>h prompt. None)\<rparr>"

end
