(* ===== verification/String_Utils.thy ===== *)
theory String_Utils
  imports Prelude "HOL-Library.Sublist"
begin

text \<open>
  The string library of the shell (\<^verbatim>\<open>src/string_utils.c\<close>): iteration over the words of a
  string, splitting and joining, trimming, truncation and the parsing of integers.
  A \<^verbatim>\<open>char *\<close> is the list of its bytes up to the terminating NUL; the storage behind a
  string is taken to hold exactly these bytes and the NUL, so a read or write past it is
  \<^const>\<open>Out_Of_Bounds\<close>. Memory never runs out: the branches after a failed
  \<^verbatim>\<open>malloc\<close> are not modelled.
\<close>

section \<open>Definitions\<close>

subsection \<open>String iterators\<close>

text \<open>\<^verbatim>\<open>strncmp(string, start, strlen(start)) == 0\<close>.\<close>

definition starts_with :: "string \<Rightarrow> string \<Rightarrow> bool" where
  "starts_with s start \<longleftrightarrow> take (length start) s = start"

text \<open>
  \<open>it_string\<close> is the suffix the C pointer \<^verbatim>\<open>iterator->string\<close> points to; moving the
  pointer drops a prefix.
\<close>

record string_iterator =
  it_string :: string
  it_separator :: string
  it_index :: nat

definition new_string_iterator :: "string \<Rightarrow> string \<Rightarrow> string_iterator option" where
  "new_string_iterator s separator =
     (if separator = [] then None
      else Some \<lparr>it_string = s, it_separator = separator, it_index = 0\<rparr>)"

lemma starts_with_Cons_shorter:
  "starts_with s sep \<Longrightarrow> sep \<noteq> [] \<Longrightarrow> length (drop (length sep) s) < length s"
  by (cases s; cases sep) (auto simp: starts_with_def)

function trim_start :: "string_iterator \<Rightarrow> string_iterator cres" where
  "trim_start it =
     (if starts_with (it_string it) (it_separator it)
      then if it_separator it = [] then Inl Diverges
           else trim_start (it\<lparr>it_string := drop (length (it_separator it)) (it_string it)\<rparr>)
      else Inr it)"
  by pat_completeness auto
termination
proof (relation "measure (\<lambda>it. length (it_string it))")
qed (use starts_with_Cons_shorter in auto)

declare trim_start.simps [simp del]

definition has_next_word :: "string_iterator \<Rightarrow> (bool \<times> string_iterator) cres" where
  "has_next_word it = bindU (trim_start it) (\<lambda>it'. Inr (it_string it' \<noteq> [], it'))"

text \<open>The loop of \<^verbatim>\<open>next_word\<close> that measures the word under the pointer.\<close>

fun current_word_size :: "string \<Rightarrow> string \<Rightarrow> nat" where
  "current_word_size [] sep = 0"
| "current_word_size (c # cs) sep =
     (if starts_with (c # cs) sep then 0 else Suc (current_word_size cs sep))"

definition next_word :: "string_iterator \<Rightarrow> (string \<times> string_iterator) cres" where
  "next_word it =
     bindU (trim_start it) (\<lambda>it1.
     bindU (has_next_word it1) (\<lambda>(found, it2).
       if \<not> found then Inr ([], it2)
       else let n = current_word_size (it_string it2) (it_separator it2)
            in Inr (take n (it_string it2),
                    it2\<lparr>it_string := drop n (it_string it2), it_index := it_index it2 + 1\<rparr>)))"

text \<open>
  The loop of \<^verbatim>\<open>get_number_of_words_left\<close> on the suffix at \<^verbatim>\<open>index\<close>, with its flag
  \<^verbatim>\<open>word\<close> and its counter. With an empty separator, \<^verbatim>\<open>index += strlen(separator) - 1\<close> and
  \<^verbatim>\<open>++index\<close> cancel out and the loop makes no progress.
\<close>

function count_words :: "string \<Rightarrow> string \<Rightarrow> bool \<Rightarrow> nat \<Rightarrow> nat cres" where
  "count_words sep s word total_words =
     (if s = [] then Inr (total_words + (if word then 1 else 0))
      else if starts_with s sep
      then if sep = [] then Inl Diverges
           else count_words sep (drop (length sep) s) False (total_words + (if word then 1 else 0))
      else count_words sep (tl s) True total_words)"
  by pat_completeness auto
termination
proof (relation "measure (\<lambda>(sep, s, word, total). length s)")
qed (use starts_with_Cons_shorter in auto)

declare count_words.simps [simp del]

definition get_number_of_words_left :: "string_iterator \<Rightarrow> nat cres" where
  "get_number_of_words_left it = count_words (it_separator it) (it_string it) False 0"

text \<open>
  Facts on the iterator that the termination of the splitting loop needs: trimming stops
  at the first position that is not a separator, and reading a word moves the pointer.
\<close>

lemma trim_start_Inr:
  "trim_start it = Inr it' \<Longrightarrow>
     \<not> starts_with (it_string it') (it_separator it) \<and>
     it_separator it' = it_separator it \<and> it_index it' = it_index it \<and>
     length (it_string it') \<le> length (it_string it)"
proof (induction it rule: trim_start.induct)
  case (1 it)
  show ?case
  proof (cases "starts_with (it_string it) (it_separator it)")
    case True
    with "1.prems" have "it_separator it \<noteq> []"
      by (auto simp: trim_start.simps [of it])
    with True 1 show ?thesis
      by (auto simp: trim_start.simps [of it])
  next
    case False
    with "1.prems" show ?thesis by (auto simp: trim_start.simps [of it])
  qed
qed

lemma trim_start_stop: "\<not> starts_with (it_string it) (it_separator it) \<Longrightarrow> trim_start it = Inr it"
  by (subst trim_start.simps) simp

lemma trim_start_idem: "trim_start it = Inr it' \<Longrightarrow> trim_start it' = Inr it'"
  by (rule trim_start_stop) (auto dest: trim_start_Inr)

lemma current_word_size_pos:
  "s \<noteq> [] \<Longrightarrow> \<not> starts_with s sep \<Longrightarrow> 0 < current_word_size s sep"
  by (cases s) auto

lemma current_word_size_le: "current_word_size s sep \<le> length s"
  by (induction s) auto

lemma has_next_word_Inr:
  "has_next_word it = Inr (found, it') \<Longrightarrow>
     trim_start it = Inr it' \<and> (found \<longleftrightarrow> it_string it' \<noteq> [])"
  by (auto simp: has_next_word_def bindU_eq_Inr)

lemma next_word_trimmed:
  assumes "\<not> starts_with (it_string it) (it_separator it)" and "it_string it \<noteq> []"
  shows "next_word it =
    (let n = current_word_size (it_string it) (it_separator it)
     in Inr (take n (it_string it),
             it\<lparr>it_string := drop n (it_string it), it_index := it_index it + 1\<rparr>))"
  using assms by (simp add: next_word_def has_next_word_def trim_start_stop)

lemma next_word_progress:
  assumes "has_next_word it = Inr (True, it1)" and "next_word it1 = Inr (w, it2)"
  shows "length (it_string it2) < length (it_string it)"
proof -
  have t: "trim_start it = Inr it1" and ne: "it_string it1 \<noteq> []"
    using has_next_word_Inr [OF assms(1)] by simp_all
  have ns: "\<not> starts_with (it_string it1) (it_separator it1)"
    and le: "length (it_string it1) \<le> length (it_string it)"
    using trim_start_Inr [OF t] by simp_all
  have "0 < current_word_size (it_string it1) (it_separator it1)"
    using ne ns by (rule current_word_size_pos)
  then show ?thesis
    using next_word_trimmed [OF ns ne] assms(2) ne le
    by (cases "it_string it1") (auto simp: Let_def)
qed

subsection \<open>Splitting\<close>

text \<open>
  The array \<^verbatim>\<open>tokens\<close> has one slot per counted word; a slot is \<^const>\<open>None\<close> until it is
  written. In \<^verbatim>\<open>tokens[iterator->index] = next_word(iterator)\<close> the index is read before the
  call increments it, as the compiler the project uses orders it.
\<close>

function split_loop :: "string_iterator \<Rightarrow> string option list \<Rightarrow> string option list cres" where
  "split_loop it tokens =
     bindU (has_next_word it) (\<lambda>(found, it1).
       if \<not> found then Inr tokens
       else bindU (next_word it1) (\<lambda>(w, it2).
              if it_index it1 < length tokens
              then split_loop it2 (tokens[it_index it1 := Some w])
              else Inl Out_Of_Bounds))"
  by pat_completeness auto
termination
proof (relation "measure (\<lambda>(it, tokens). length (it_string it))")
qed (auto intro: next_word_progress)

declare split_loop.simps [simp del]

text \<open>Reading a slot that was never written is \<^const>\<open>Uninitialised\<close>.\<close>

definition written_tokens :: "string option list \<Rightarrow> string list cres" where
  "written_tokens tokens = (if None \<in> set tokens then Inl Uninitialised else Inr (map the tokens))"

text \<open>
  \<^verbatim>\<open>split_string\<close> returns the array (\<^const>\<open>None\<close> for the null pointer of an empty
  result); its out-parameter \<^verbatim>\<open>size\<close> is the length of the array, 0 for the null pointer.
\<close>

definition split_string :: "string \<Rightarrow> string \<Rightarrow> string list option cres" where
  "split_string s delimiter =
     (case new_string_iterator s delimiter of
        None \<Rightarrow> Inl Null_Deref
      | Some iterator \<Rightarrow>
          bindU (get_number_of_words_left iterator) (\<lambda>number_of_tokens.
            if number_of_tokens = 0 then Inr None
            else bindU (split_loop iterator (replicate number_of_tokens None)) (\<lambda>tokens.
                 bindU (written_tokens tokens) (\<lambda>ws. Inr (Some ws)))))"

text \<open>
  \<^verbatim>\<open>split_string_keep_trace\<close> counts in \<^verbatim>\<open>last\<close>, from -1, the words the delimiter follows.
\<close>

function split_trace_loop ::
  "string_iterator \<Rightarrow> string \<Rightarrow> string option list \<Rightarrow> int \<Rightarrow> (string option list \<times> int) cres" where
  "split_trace_loop it delimiter tokens last_index =
     bindU (has_next_word it) (\<lambda>(found, it1).
       if \<not> found then Inr (tokens, last_index)
       else bindU (next_word it1) (\<lambda>(w, it2).
              if it_index it1 < length tokens
              then split_trace_loop it2 delimiter (tokens[it_index it1 := Some w])
                     (last_index + (if starts_with (it_string it2) delimiter then 1 else 0))
              else Inl Out_Of_Bounds))"
  by pat_completeness auto
termination
proof (relation "measure (\<lambda>(it, d, tokens, l). length (it_string it))")
qed (auto intro: next_word_progress)

declare split_trace_loop.simps [simp del]

definition split_string_keep_trace :: "string \<Rightarrow> string \<Rightarrow> (string list option \<times> int) cres" where
  "split_string_keep_trace s delimiter =
     (case new_string_iterator s delimiter of
        None \<Rightarrow> Inl Null_Deref
      | Some iterator \<Rightarrow>
          bindU (get_number_of_words_left iterator) (\<lambda>number_of_tokens.
            if number_of_tokens = 0 then Inr (None, -1)
            else bindU (split_trace_loop iterator delimiter (replicate number_of_tokens None) (-1))
                   (\<lambda>(tokens, last_index).
                 bindU (written_tokens tokens) (\<lambda>ws. Inr (Some ws, last_index)))))"

subsection \<open>Joining, repeating\<close>

text \<open>A \<^verbatim>\<open>memcpy\<close> of a string with its NUL to the end of the string in a buffer of \<open>cap\<close> bytes.\<close>

definition append_checked :: "nat \<Rightarrow> string \<Rightarrow> string \<Rightarrow> string cres" where
  "append_checked cap buf s =
     (if length buf + length s + 1 \<le> cap then Inr (buf @ s) else Inl Out_Of_Bounds)"

fun join_loop :: "nat \<Rightarrow> string \<Rightarrow> string list \<Rightarrow> string \<Rightarrow> string cres" where
  "join_loop total_size sep [] buf = Inr buf"
| "join_loop total_size sep [t] buf = append_checked total_size buf t"
| "join_loop total_size sep (t # t' # ts) buf =
     bindU (append_checked total_size buf t) (\<lambda>buf1.
     bindU (append_checked total_size buf1 sep) (\<lambda>buf2.
       join_loop total_size sep (t' # ts) buf2))"

definition join_strings :: "string list \<Rightarrow> string \<Rightarrow> cstr cres" where
  "join_strings tokens sep =
     (if tokens = [] then Inr (Literal [])
      else let total_size = 1 + (length tokens - 1) * length sep + sum_list (map length tokens)
           in bindU (join_loop total_size sep tokens []) (\<lambda>joined. Inr (Heap joined)))"

text \<open>The copies of \<^verbatim>\<open>repeat\<close>: each \<^verbatim>\<open>memmove\<close> writes \<^verbatim>\<open>len\<close> bytes at \<^verbatim>\<open>index * len\<close>.\<close>

fun repeat_loop :: "string \<Rightarrow> nat \<Rightarrow> nat \<Rightarrow> string \<Rightarrow> string" where
  "repeat_loop s 0 index result = result"
| "repeat_loop s (Suc left) index result =
     repeat_loop s left (index + 1) (take (index * length s) result @ s)"

definition repeat_str :: "string \<Rightarrow> nat \<Rightarrow> string" where
  "repeat_str s n = (if n = 0 then [] else repeat_loop s n 0 [])"

subsection \<open>Truncating, searching, trimming\<close>

text \<open>
  \<^verbatim>\<open>trunc_start\<close>; \<^const>\<open>None\<close> is the null pointer. When \<^verbatim>\<open>to_keep\<close> is at least the
  length, \<^verbatim>\<open>to_keep + 1\<close> bytes of \<^verbatim>\<open>str\<close> are copied, of which only \<^verbatim>\<open>strlen(str) + 1\<close> exist.
\<close>

definition trunc_start :: "string option \<Rightarrow> nat \<Rightarrow> cstr option cres" where
  "trunc_start str to_keep =
     (case str of
        None \<Rightarrow> Inr None
      | Some s \<Rightarrow>
          if to_keep = 0 then Inr (Some (Literal []))
          else if to_keep \<ge> length s
          then if to_keep + 1 \<le> length s + 1 then Inr (Some (Heap (take to_keep s)))
               else Inl Out_Of_Bounds
          else Inr (Some (Heap (take to_keep (drop (length s - to_keep) s)))))"

fun contains_string :: "string list \<Rightarrow> string \<Rightarrow> bool" where
  "contains_string [] word = False"
| "contains_string (a # array) word = (if a = word then True else contains_string array word)"

text \<open>
  The second loop of \<^verbatim>\<open>trim_spaces\<close> reads \<^verbatim>\<open>str[strlen(str) - 1 - trim_end_len]\<close>; once
  \<^verbatim>\<open>trim_end_len\<close> has reached \<^verbatim>\<open>strlen(str)\<close> this is the byte before the string.
\<close>

function trim_end_loop :: "string \<Rightarrow> nat \<Rightarrow> nat cres" where
  "trim_end_loop s trim_end_len =
     (if trim_end_len \<ge> length s then Inl Out_Of_Bounds
      else if s ! (length s - 1 - trim_end_len) = CHR '' '' then trim_end_loop s (trim_end_len + 1)
      else Inr trim_end_len)"
  by pat_completeness auto
termination
  by (relation "measure (\<lambda>(s, k). length s - k)") auto

declare trim_end_loop.simps [simp del]

definition trim_spaces :: "string option \<Rightarrow> string option cres" where
  "trim_spaces str =
     (case str of
        None \<Rightarrow> Inr None
      | Some s \<Rightarrow>
          if length s = 0 then Inr (Some [])
          else let trim_start_len = length (takeWhile (\<lambda>c. c = CHR '' '') s)
               in bindU (trim_end_loop s 0) (\<lambda>trim_end_len.
                    if trim_start_len = 0 \<and> trim_end_len = 0 then Inr (Some s)
                    else if trim_start_len + trim_end_len \<ge> length s then Inr (Some [])
                    else let new_len = length s - trim_start_len - trim_end_len
                         in Inr (Some (take new_len (drop trim_start_len s)))))"

text \<open>The loop of \<^verbatim>\<open>is_only_composed_of\<close> on the suffix at \<^verbatim>\<open>index\<close>.\<close>

function is_only_composed_of :: "string \<Rightarrow> string \<Rightarrow> bool cres" where
  "is_only_composed_of s pattern =
     (if s = [] then Inr True
      else if \<not> starts_with s pattern then Inr False
      else if pattern = [] then Inl Diverges
      else is_only_composed_of (drop (length pattern) s) pattern)"
  by pat_completeness auto
termination
proof (relation "measure (\<lambda>(s, p). length s)")
qed (use starts_with_Cons_shorter in auto)

declare is_only_composed_of.simps [simp del]

subsection \<open>Parsing integers\<close>

text \<open>
  \<^verbatim>\<open>strtoimax\<close> of the C library in base 10: white space, an optional sign, digits. The
  result is clamped with \<^verbatim>\<open>ERANGE\<close> when it does not fit an \<^verbatim>\<open>intmax_t\<close>; without a digit it
  is 0 and the end pointer is the string itself.
\<close>

definition is_space :: "char \<Rightarrow> bool" where
  "is_space c \<longleftrightarrow> (of_char c :: nat) = 32 \<or> 9 \<le> (of_char c :: nat) \<and> (of_char c :: nat) \<le> 13"

definition INTMAX_MAX :: int where "INTMAX_MAX = 9223372036854775807"

definition INTMAX_MIN :: int where "INTMAX_MIN = - 9223372036854775808"

record strto_result =
  sr_value :: int
  sr_erange :: bool
  sr_endptr :: string

fun split_sign :: "string \<Rightarrow> bool \<times> string" where
  "split_sign [] = (False, [])"
| "split_sign (c # cs) =
     (if c = CHR ''-'' then (True, cs)
      else if c = CHR ''+'' then (False, cs)
      else (False, c # cs))"

definition strtoimax :: "string \<Rightarrow> strto_result" where
  "strtoimax s =
     (let (neg, u) = split_sign (dropWhile is_space s);
          digits = takeWhile is_digit u
      in if digits = [] then \<lparr>sr_value = 0, sr_erange = False, sr_endptr = s\<rparr>
         else let v = (if neg then - int (digits_val digits) else int (digits_val digits));
                  rest = dropWhile is_digit u
              in if v < INTMAX_MIN
                 then \<lparr>sr_value = INTMAX_MIN, sr_erange = True, sr_endptr = rest\<rparr>
                 else if v > INTMAX_MAX
                 then \<lparr>sr_value = INTMAX_MAX, sr_erange = True, sr_endptr = rest\<rparr>
                 else \<lparr>sr_value = v, sr_erange = False, sr_endptr = rest\<rparr>)"

text \<open>
  \<^verbatim>\<open>parse_intmax_t\<close>: \<^const>\<open>Inl\<close> is the return value 0 with the message written to \<^verbatim>\<open>fd\<close>,
  \<^const>\<open>Inr\<close> the return value 1 with the number stored in \<^verbatim>\<open>res\<close>. The only error the C
  library reports for base 10 is \<^verbatim>\<open>ERANGE\<close>.
\<close>

definition parse_intmax_t :: "string \<Rightarrow> string + int" where
  "parse_intmax_t s =
     (let r = strtoimax s in
      if sr_erange r
      then Inl ((if sr_value r = INTMAX_MIN then ''strtoimax: underflow.'' @ nl else []) @
                (if sr_value r = INTMAX_MAX then ''strtoimax: overflow.'' @ nl else []))
      else if sr_endptr r \<noteq> []
      then Inl (''strtoimax: '' @ s @ '': invalid characters present.'' @ nl)
      else Inr (sr_value r))"

section \<open>The words of a string\<close>

text \<open>The specification of the iteration: the maximal separator-free pieces, in order.\<close>

function words :: "string \<Rightarrow> string \<Rightarrow> string list" where
  "words s sep =
     (if sep = [] \<or> s = [] then []
      else if starts_with s sep then words (drop (length sep) s) sep
      else let n = current_word_size s sep in take n s # words (drop n s) sep)"
  by pat_completeness auto
termination
proof (relation "measure (\<lambda>(s, sep). length s)")
qed (use starts_with_Cons_shorter current_word_size_pos in auto)

declare words.simps [simp del]

lemma words_Nil [simp]: "words [] sep = []"
  by (subst words.simps) simp

lemma words_starts_with:
  "starts_with s sep \<Longrightarrow> sep \<noteq> [] \<Longrightarrow> words s sep = words (drop (length sep) s) sep"
  by (cases "s = []") (simp_all add: words.simps [of s sep])

lemma words_step:
  "\<not> starts_with s sep \<Longrightarrow> sep \<noteq> [] \<Longrightarrow> s \<noteq> [] \<Longrightarrow>
     words s sep = take (current_word_size s sep) s # words (drop (current_word_size s sep) s) sep"
  by (subst words.simps) (simp add: Let_def)

lemma words_eq_Nil_trimmed:
  "\<not> starts_with s sep \<Longrightarrow> sep \<noteq> [] \<Longrightarrow> words s sep = [] \<longleftrightarrow> s = []"
  by (cases "s = []") (simp_all add: words_step)

lemma rest_after_word:
  "drop (current_word_size s sep) s = [] \<or> starts_with (drop (current_word_size s sep) s) sep"
  by (induction s) auto

lemma count_words_eq:
  "sep \<noteq> [] \<Longrightarrow>
     count_words sep s word n =
       Inr (if word then n + 1 + length (words (drop (current_word_size s sep) s) sep)
            else n + length (words s sep))"
proof (induction sep s word n rule: count_words.induct)
  case (1 sep s word n)
  show ?case
  proof (cases "s = []")
    case True
    then show ?thesis by (simp add: count_words.simps)
  next
    case False
    show ?thesis
    proof (cases "starts_with s sep")
      case True
      then have "current_word_size s sep = 0" using False by (cases s) auto
      then show ?thesis
        using 1 False True by (simp add: count_words.simps [of sep s] words_starts_with)
    next
      case ns: False
      then obtain c cs where s: "s = c # cs" using False by (cases s) auto
      show ?thesis
        using 1 ns s by (simp add: count_words.simps [of sep "c # cs"] words_step)
    qed
  qed
qed

lemma trim_start_words:
  "it_separator it \<noteq> [] \<Longrightarrow>
     \<exists>t. trim_start it = Inr (it\<lparr>it_string := t\<rparr>) \<and> \<not> starts_with t (it_separator it) \<and>
         words t (it_separator it) = words (it_string it) (it_separator it) \<and>
         suffix t (it_string it)"
proof (induction it rule: trim_start.induct)
  case (1 it)
  show ?case
  proof (cases "starts_with (it_string it) (it_separator it)")
    case True
    let ?it = "it\<lparr>it_string := drop (length (it_separator it)) (it_string it)\<rparr>"
    obtain t where "trim_start ?it = Inr (?it\<lparr>it_string := t\<rparr>)" "\<not> starts_with t (it_separator it)"
      "words t (it_separator it) = words (it_string ?it) (it_separator it)" "suffix t (it_string ?it)"
      using "1.IH" [OF True] "1.prems" by auto
    moreover have "words (it_string ?it) (it_separator it) = words (it_string it) (it_separator it)"
      using True "1.prems" by (simp add: words_starts_with)
    moreover have "suffix t (it_string it)"
      using \<open>suffix t (it_string ?it)\<close> suffix_drop suffix_order.trans by fastforce
    ultimately show ?thesis using True "1.prems" by (auto simp: trim_start.simps [of it])
  next
    case False
    then show ?thesis by (auto simp: trim_start.simps [of it] intro!: exI [of _ "it_string it"])
  qed
qed

text \<open>
  One round of the splitting loops, in terms of the words that are left: either there is
  none, or the first one is read and the iterator is left in front of the others.
\<close>

definition iterator_at :: "string_iterator \<Rightarrow> string \<Rightarrow> nat \<Rightarrow> string \<Rightarrow> bool" where
  "iterator_at it sep i s \<longleftrightarrow> it_separator it = sep \<and> it_index it = i \<and> it_string it = s"

lemma iterator_done:
  assumes "iterator_at it sep i s" and "sep \<noteq> []" and "words s sep = []"
  shows "\<exists>it'. has_next_word it = Inr (False, it')"
proof -
  obtain t where t: "trim_start it = Inr (it\<lparr>it_string := t\<rparr>)" "\<not> starts_with t sep"
      "words t sep = words s sep"
    using trim_start_words [of it] assms by (auto simp: iterator_at_def)
  then have "t = []" using assms words_eq_Nil_trimmed by metis
  with t show ?thesis by (simp add: has_next_word_def)
qed

lemma iterator_word:
  assumes at: "iterator_at it sep i s" and "sep \<noteq> []" and ws: "words s sep = w # ws"
  shows "\<exists>it1 it2 s'. has_next_word it = Inr (True, it1) \<and> next_word it1 = Inr (w, it2) \<and>
           it_index it1 = i \<and> iterator_at it2 sep (Suc i) s' \<and> words s' sep = ws \<and>
           suffix s' s \<and> (s' = [] \<or> starts_with s' sep) \<and> suffix (w @ s') s"
proof -
  obtain t where t: "trim_start it = Inr (it\<lparr>it_string := t\<rparr>)" "\<not> starts_with t sep"
      "words t sep = words s sep" "suffix t s"
    using trim_start_words [of it] assms by (auto simp: iterator_at_def)
  let ?n = "current_word_size t sep" and ?it1 = "it\<lparr>it_string := t\<rparr>"
  have ne: "t \<noteq> []" using t ws by auto
  have "words t sep = take ?n t # words (drop ?n t) sep"
    using t ne \<open>sep \<noteq> []\<close> by (intro words_step) auto
  then have w: "w = take ?n t" and ws': "ws = words (drop ?n t) sep"
    using t ws by simp_all
  have "next_word ?it1 = Inr (w, ?it1\<lparr>it_string := drop ?n t, it_index := Suc i\<rparr>)"
    using next_word_trimmed [of ?it1] t ne at w by (simp add: iterator_at_def Let_def)
  moreover have "has_next_word it = Inr (True, ?it1)"
    using t ne by (simp add: has_next_word_def)
  moreover have "suffix (drop ?n t) s" using t(4) suffix_drop suffix_order.trans by blast
  ultimately show ?thesis
    using at w ws' rest_after_word [of t sep] t(4)
    by (intro exI [of _ ?it1] exI [of _ "?it1\<lparr>it_string := drop ?n t, it_index := Suc i\<rparr>"]
        exI [of _ "drop ?n t"]) (auto simp: iterator_at_def)
qed

lemma split_loop_words:
  "iterator_at it sep (length pre) s \<Longrightarrow> sep \<noteq> [] \<Longrightarrow>
     split_loop it (pre @ replicate (length (words s sep)) None) =
       Inr (pre @ map Some (words s sep))"
proof (induction "words s sep" arbitrary: it pre s)
  case Nil
  then show ?case
    using iterator_done [OF Nil(2,3)] by (auto simp: split_loop.simps [of it])
next
  case (Cons w ws)
  obtain it1 it2 s' where step: "has_next_word it = Inr (True, it1)" "next_word it1 = Inr (w, it2)"
      "it_index it1 = length pre" "iterator_at it2 sep (Suc (length pre)) s'" "words s' sep = ws"
    using iterator_word [OF Cons(3,4)] Cons(2) by metis
  have len: "replicate (length (words s sep)) None = None # replicate (length ws) (None :: string option)"
    using Cons(2) by (metis length_Cons replicate_Suc)
  have "split_loop it2 ((pre @ [Some w]) @ replicate (length (words s' sep)) None) =
          Inr ((pre @ [Some w]) @ map Some (words s' sep))"
    by (rule Cons(1)) (use step \<open>sep \<noteq> []\<close> in auto)
  then show ?case
    using step len Cons(2) [symmetric]
    by (simp add: split_loop.simps [of it] list_update_mid)
qed

text \<open>The counted array is filled exactly: no write past it, no slot left unwritten.\<close>

lemma split_string_words:
  "sep \<noteq> [] \<Longrightarrow>
     split_string s sep = Inr (if words s sep = [] then None else Some (words s sep))"
proof -
  assume sep: "sep \<noteq> []"
  let ?it = "\<lparr>it_string = s, it_separator = sep, it_index = 0\<rparr>"
  have "get_number_of_words_left ?it = Inr (length (words s sep))"
    using sep by (simp add: get_number_of_words_left_def count_words_eq)
  moreover have "split_loop ?it (replicate (length (words s sep)) None) = Inr (map Some (words s sep))"
    using split_loop_words [of ?it sep "[]" s] sep by (simp add: iterator_at_def)
  ultimately show ?thesis
    using sep
    by (auto simp: split_string_def new_string_iterator_def written_tokens_def comp_def)
qed

section \<open>One-character separators\<close>

text \<open>Every separator the shell uses is a single character.\<close>

lemma starts_with_single [simp]: "starts_with s [c] \<longleftrightarrow> s \<noteq> [] \<and> hd s = c"
  by (cases s) (auto simp: starts_with_def)

lemma starts_with_Nil [simp]: "starts_with s []"
  by (simp add: starts_with_def)

lemma current_word_size_single [simp]:
  "current_word_size s [c] = length (takeWhile (\<lambda>x. x \<noteq> c) s)"
  by (induction s) auto

lemma take_length_takeWhile [simp]: "take (length (takeWhile P s)) s = takeWhile P s"
  by (metis takeWhile_eq_take)

lemma drop_length_takeWhile [simp]: "drop (length (takeWhile P s)) s = dropWhile P s"
  by (metis dropWhile_eq_drop)

lemma words_single_Cons:
  "words (x # xs) [c] =
     (if x = c then words xs [c]
      else (x # takeWhile (\<lambda>y. y \<noteq> c) xs) # words (dropWhile (\<lambda>y. y \<noteq> c) xs) [c])"
  using words_step [of "x # xs" "[c]"] words_starts_with [of "x # xs" "[c]"] by simp

lemma words_single_mem:
  "w \<in> set (words s [c]) \<Longrightarrow> w \<noteq> [] \<and> c \<notin> set w \<and> set w \<subseteq> set s"
proof (induction s "[c]" rule: words.induct)
  case (1 s)
  show ?case
  proof (cases s)
    case Nil
    with "1.prems" show ?thesis by simp
  next
    case (Cons x xs)
    show ?thesis
    proof (cases "x = c")
      case True
      with 1 Cons show ?thesis by (auto simp: words_single_Cons)
    next
      case False
      have "w = x # takeWhile (\<lambda>y. y \<noteq> c) xs \<or> w \<in> set (words (dropWhile (\<lambda>y. y \<noteq> c) xs) [c])"
        using "1.prems" Cons False by (simp add: words_single_Cons)
      then show ?thesis
      proof
        assume "w = x # takeWhile (\<lambda>y. y \<noteq> c) xs"
        then show ?thesis using False Cons by (auto dest: set_takeWhileD)
      next
        assume "w \<in> set (words (dropWhile (\<lambda>y. y \<noteq> c) xs) [c])"
        moreover have "words s [c] = words s [c]" by simp
        ultimately have "w \<noteq> [] \<and> c \<notin> set w \<and> set w \<subseteq> set (dropWhile (\<lambda>y. y \<noteq> c) xs)"
          using "1.hyps"(2) Cons False by auto
        then show ?thesis using Cons by (auto dest: set_dropWhileD)
      qed
    qed
  qed
qed

lemma words_single_Nil_iff: "words s [c] = [] \<longleftrightarrow> set s \<subseteq> {c}"
  by (induction s) (auto simp: words_single_Cons)

lemma words_single_length:
  "length s \<ge> length (concat (words s [c]))"
proof (induction s "[c]" rule: words.induct)
  case (1 s)
  then show ?case
    using length_append [of "takeWhile (\<lambda>y. y \<noteq> c) (tl s)" "dropWhile (\<lambda>y. y \<noteq> c) (tl s)"]
    by (cases s) (auto simp: words_single_Cons)
qed

lemma split_trace_loop_words:
  "iterator_at it [c] (length pre) s \<Longrightarrow>
     split_trace_loop it [c] (pre @ replicate (length (words s [c])) None) l =
       Inr (pre @ map Some (words s [c]),
            l + (if words s [c] = [] then 0
                 else int (length (words s [c])) - (if last s = c then 0 else 1)))"
proof (induction "words s [c]" arbitrary: it pre s l)
  case Nil
  then show ?case
    using iterator_done [OF Nil(2)] by (auto simp: split_trace_loop.simps [of it])
next
  case (Cons w ws)
  obtain it1 it2 s' where step: "has_next_word it = Inr (True, it1)" "next_word it1 = Inr (w, it2)"
      "it_index it1 = length pre" "iterator_at it2 [c] (Suc (length pre)) s'" "words s' [c] = ws"
    and suf: "suffix s' s" "s' = [] \<or> starts_with s' [c]" "suffix (w @ s') s"
    using iterator_word [OF Cons(3)] Cons(2) by (metis list.distinct(1))
  have len: "replicate (length (words s [c])) None = None # replicate (length ws) (None :: string option)"
    using Cons(2) by (metis length_Cons replicate_Suc)
  let ?l = "l + (if starts_with s' [c] then 1 else 0)"
  have IH: "split_trace_loop it2 [c] ((pre @ [Some w]) @ replicate (length (words s' [c])) None) ?l =
          Inr ((pre @ [Some w]) @ map Some (words s' [c]),
               ?l + (if words s' [c] = [] then 0
                 else int (length (words s' [c])) - (if last s' = c then 0 else 1)))"
    by (rule Cons(1)) (use step in auto)
  have w: "w \<noteq> []" "c \<notin> set w"
    using words_single_mem [of w s c] Cons(2) by (metis list.set_intros(1))+
  have last: "last s = (if s' = [] then last w else last s')"
    using suf(3) w(1) by (auto simp: suffix_def)
  have "ws = [] \<Longrightarrow> s' \<noteq> [] \<Longrightarrow> last s' = c"
    using step(5) words_single_Nil_iff [of s' c] last_in_set by blast
  moreover have "s' = [] \<Longrightarrow> ws = [] \<and> last w \<noteq> c"
    using step(5) w last_in_set by fastforce
  ultimately have "?l + (if words s' [c] = [] then 0
                 else int (length (words s' [c])) - (if last s' = c then 0 else 1)) =
        l + (int (length (w # ws)) - (if last s = c then 0 else 1))"
    using suf(2) last step(5) by auto
  then show ?case
    using step IH len Cons(2) [symmetric] by (auto simp: split_trace_loop.simps [of it] list_update_mid iterator_at_def)
qed

lemma split_string_keep_trace_words:
  "split_string_keep_trace s [c] =
     Inr (if words s [c] = [] then (None, -1)
          else (Some (words s [c]),
                int (length (words s [c])) - (if last s = c then 1 else 2)))"
proof -
  let ?it = "\<lparr>it_string = s, it_separator = [c], it_index = 0\<rparr>"
  have "get_number_of_words_left ?it = Inr (length (words s [c]))"
    by (simp add: get_number_of_words_left_def count_words_eq)
  moreover have "split_trace_loop ?it [c] (replicate (length (words s [c])) None) (-1) =
     Inr (map Some (words s [c]),
            -1 + (if words s [c] = [] then 0
                 else int (length (words s [c])) - (if last s = c then 0 else 1)))"
    using split_trace_loop_words [of ?it c "[]" s "-1"] by (simp add: iterator_at_def)
  ultimately show ?thesis
    by (auto simp: split_string_keep_trace_def new_string_iterator_def written_tokens_def comp_def)
qed

text \<open>
  An independent specification of splitting: cut the string at every \<open>c\<close>
  (\<open>cut_at\<close>, which \<open>intercalate\<close> inverts) and drop the empty pieces.
\<close>

fun cut_at :: "char \<Rightarrow> string \<Rightarrow> string list" where
  "cut_at c [] = [[]]"
| "cut_at c (x # xs) =
     (if x = c then [] # cut_at c xs else (x # hd (cut_at c xs)) # tl (cut_at c xs))"

fun intercalate :: "string \<Rightarrow> string list \<Rightarrow> string" where
  "intercalate sep [] = []"
| "intercalate sep [t] = t"
| "intercalate sep (t # t' # ts) = t @ sep @ intercalate sep (t' # ts)"

lemma cut_at_not_Nil [simp]: "cut_at c s \<noteq> []"
  by (induction s) auto

lemma intercalate_cut_at: "intercalate [c] (cut_at c s) = s"
proof (induction s)
  case Nil
  then show ?case by simp
next
  case (Cons x xs)
  obtain f fs where f: "cut_at c xs = f # fs" by (cases "cut_at c xs") auto
  then show ?case using Cons by (cases fs) auto
qed

lemma words_cut_at_aux:
  "words s [c] = filter (\<lambda>w. w \<noteq> []) (cut_at c s) \<and>
   (s \<noteq> [] \<longrightarrow> hd s \<noteq> c \<longrightarrow> hd (cut_at c s) = takeWhile (\<lambda>x. x \<noteq> c) s \<and>
      words (dropWhile (\<lambda>x. x \<noteq> c) s) [c] = filter (\<lambda>w. w \<noteq> []) (tl (cut_at c s)))"
proof (induction s)
  case Nil
  then show ?case by simp
next
  case (Cons x xs)
  show ?case
  proof (cases "x = c")
    case True
    then show ?thesis using Cons by (simp add: words_single_Cons)
  next
    case False
    have "hd (cut_at c xs) = takeWhile (\<lambda>x. x \<noteq> c) xs \<and>
        words (dropWhile (\<lambda>x. x \<noteq> c) xs) [c] = filter (\<lambda>w. w \<noteq> []) (tl (cut_at c xs))"
    proof (cases "xs = [] \<or> hd xs = c")
      case True
      then show ?thesis
      proof
        assume "xs = []"
        then show ?thesis by simp
      next
        assume c: "hd xs = c"
        have "filter (\<lambda>w. w \<noteq> []) (cut_at c xs) = filter (\<lambda>w. w \<noteq> []) (tl (cut_at c xs)) \<and>
            hd (cut_at c xs) = takeWhile (\<lambda>x. x \<noteq> c) xs \<and> dropWhile (\<lambda>x. x \<noteq> c) xs = xs"
          using c by (cases xs) simp_all
        then show ?thesis using conjunct1 [OF Cons.IH] by simp
      qed
    next
      case False
      then show ?thesis using Cons.IH by blast
    qed
    then show ?thesis using False by (simp add: words_single_Cons)
  qed
qed

lemma words_cut_at: "words s [c] = filter (\<lambda>w. w \<noteq> []) (cut_at c s)"
  using words_cut_at_aux by blast

section \<open>Any separator\<close>

lemma starts_with_append: "starts_with (sep @ r) sep"
  by (simp add: starts_with_def)

lemma starts_with_split: "starts_with s sep \<Longrightarrow> s = sep @ drop (length sep) s"
  by (metis append_take_drop_id starts_with_def)

lemma before_current_word:
  "k < current_word_size s sep \<Longrightarrow> \<not> starts_with (drop k s) sep"
proof (induction s arbitrary: k)
  case (Cons c cs)
  then show ?case by (cases k) (auto split: if_splits)
qed simp

lemma word_is_leftmost:
  assumes s: "s = take (current_word_size s sep) s @ sep @ r" and "sep \<noteq> []"
  shows "\<not> sublist sep (take (current_word_size s sep) s @ butlast sep)"
proof
  let ?n = "current_word_size s sep"
  assume "sublist sep (take ?n s @ butlast sep)"
  then obtain a b where ab: "take ?n s @ butlast sep = a @ sep @ b" by (auto simp: sublist_def)
  have "length (a @ sep @ b) = length (take ?n s @ butlast sep)" by (simp only: ab)
  then have "length a < ?n" using \<open>sep \<noteq> []\<close> by (cases sep) (auto split: if_splits)
  have "s = (take ?n s @ butlast sep) @ last sep # r"
    using s \<open>sep \<noteq> []\<close> by (metis append.assoc append_Cons append_Nil append_butlast_last_id)
  then have "s = a @ sep @ b @ last sep # r" unfolding ab by simp
  then have "drop (length a) s = sep @ b @ last sep # r" by (metis append_eq_conv_conj)
  then show False
    using before_current_word [OF \<open>length a < ?n\<close>] starts_with_append by metis
qed

lemma whole_word:
  assumes "drop (current_word_size s sep) s = []" and "sep \<noteq> []"
  shows "\<not> sublist sep s"
proof
  assume "sublist sep s"
  then obtain a b where ab: "s = a @ sep @ b" by (auto simp: sublist_def)
  then have "length a < current_word_size s sep"
    using assms by (cases sep) auto
  then show False
    using before_current_word [of "length a" s sep] ab starts_with_append by simp
qed

text \<open>
  The pieces of a string at the leftmost occurrences of a separator: no piece but the last
  one has an occurrence before its end, not even one that overlaps the separator behind it.
\<close>

definition pieces_at :: "string \<Rightarrow> string \<Rightarrow> string list \<Rightarrow> bool" where
  "pieces_at sep s pieces \<longleftrightarrow>
     pieces \<noteq> [] \<and> intercalate sep pieces = s \<and>
     list_all (\<lambda>p. \<not> sublist sep (p @ butlast sep)) (butlast pieces) \<and>
     \<not> sublist sep (last pieces)"

lemma pieces_at_Cons:
  "pieces_at sep r ps \<Longrightarrow> \<not> sublist sep (p @ butlast sep) \<Longrightarrow> pieces_at sep (p @ sep @ r) (p # ps)"
  by (cases ps) (auto simp: pieces_at_def)

lemma words_pieces_at:
  "sep \<noteq> [] \<Longrightarrow> \<exists>pieces. pieces_at sep s pieces \<and> words s sep = filter (\<lambda>w. w \<noteq> []) pieces"
proof (induction s rule: length_induct)
  case (1 s)
  let ?n = "current_word_size s sep"
  show ?case
  proof (cases "drop ?n s = []")
    case True
    have "words s sep = filter (\<lambda>w. w \<noteq> []) [s]"
    proof (cases "s = []")
      case ne: False
      have "\<not> starts_with s sep"
        using whole_word [OF True "1.prems"] starts_with_split by (metis prefix_imp_sublist prefixI)
      then show ?thesis using ne True "1.prems" by (simp add: words_step)
    qed simp
    then show ?thesis
      using whole_word [OF True] "1.prems" by (intro exI [of _ "[s]"]) (simp add: pieces_at_def)
  next
    case False
    then have "starts_with (drop ?n s) sep" using rest_after_word [of s sep] by blast
    then obtain r where r: "drop ?n s = sep @ r" using starts_with_split by blast
    then have s: "s = take ?n s @ sep @ r" by (metis append_take_drop_id)
    moreover have "length (take ?n s @ sep @ r) = length s" using s by metis
    ultimately obtain ps where ps: "pieces_at sep r ps" "words r sep = filter (\<lambda>w. w \<noteq> []) ps"
      using "1.IH" "1.prems" by (metis length_append length_greater_0_conv less_add_same_cancel2 trans_less_add2 add.commute)
    have "words (drop ?n s) sep = words r sep"
      using r "1.prems" words_starts_with [of "sep @ r" sep] by (simp add: starts_with_append)
    moreover have "words s sep = (if ?n = 0 then [] else [take ?n s]) @ words (drop ?n s) sep"
    proof (cases "?n = 0")
      case False
      then have "\<not> starts_with s sep" "s \<noteq> []" using current_word_size.simps by (cases s; auto split: if_splits)+
      then show ?thesis using False "1.prems" by (simp add: words_step)
    qed simp
    moreover have "take ?n s \<noteq> [] \<longleftrightarrow> ?n \<noteq> 0" using False by auto
    ultimately have "words s sep = filter (\<lambda>w. w \<noteq> []) (take ?n s # ps)" using ps by simp
    moreover have "pieces_at sep (take ?n s @ sep @ r) (take ?n s # ps)"
      using ps(1) word_is_leftmost [OF s "1.prems"] by (rule pieces_at_Cons)
    ultimately show ?thesis using s by metis
  qed
qed

section \<open>Joining\<close>

lemma length_intercalate:
  "ts \<noteq> [] \<Longrightarrow>
     length (intercalate sep ts) = (length ts - 1) * length sep + sum_list (map length ts)"
  by (induction sep ts rule: intercalate.induct) auto

lemma join_loop_intercalate:
  "ts \<noteq> [] \<Longrightarrow> length buf + length (intercalate sep ts) + 1 \<le> cap \<Longrightarrow>
     join_loop cap sep ts buf = Inr (buf @ intercalate sep ts)"
  by (induction cap sep ts buf rule: join_loop.induct) (auto simp: append_checked_def)

lemma join_strings_intercalate:
  "join_strings ts sep = Inr (if ts = [] then Literal [] else Heap (intercalate sep ts))"
  using join_loop_intercalate [of ts "[]" sep "1 + (length ts - 1) * length sep + sum_list (map length ts)"]
  by (simp add: join_strings_def length_intercalate)

lemma words_append_sep:
  "c \<notin> set w \<Longrightarrow> w \<noteq> [] \<Longrightarrow> words (w @ c # r) [c] = w # words r [c]"
  by (cases w) (auto simp: words_single_Cons takeWhile_append dropWhile_append split: if_splits)

lemma words_single_word: "c \<notin> set w \<Longrightarrow> w \<noteq> [] \<Longrightarrow> words w [c] = [w]"
proof (cases w)
  case (Cons x xs)
  assume "c \<notin> set w"
  then have t: "takeWhile (\<lambda>y. y \<noteq> c) xs = xs" and d: "dropWhile (\<lambda>y. y \<noteq> c) xs = []" and "x \<noteq> c"
    using Cons by (auto simp: takeWhile_eq_all_conv dropWhile_eq_Nil_conv)
  then show ?thesis unfolding Cons words_single_Cons t d by simp
qed simp

lemma words_intercalate:
  "(\<forall>w \<in> set ws. w \<noteq> [] \<and> c \<notin> set w) \<Longrightarrow> words (intercalate [c] ws) [c] = ws"
  by (induction "[c]" ws rule: intercalate.induct) (auto simp: words_single_word words_append_sep)

section \<open>Trimming and truncating\<close>

definition strip :: "char \<Rightarrow> string \<Rightarrow> string" where
  "strip c s = rev (dropWhile (\<lambda>x. x = c) (rev (dropWhile (\<lambda>x. x = c) s)))"

lemma trim_end_loop_eq:
  "k \<le> length s \<Longrightarrow> \<forall>i < k. s ! (length s - 1 - i) = CHR '' '' \<Longrightarrow>
     trim_end_loop s k =
       (if set s \<subseteq> {CHR '' ''} then Inl Out_Of_Bounds
        else Inr (length (takeWhile (\<lambda>c. c = CHR '' '') (rev s))))"
proof (induction s k rule: trim_end_loop.induct)
  case (1 s k)
  show ?case
  proof (cases "k = length s")
    case True
    have "set s \<subseteq> {CHR '' ''}"
    proof
      fix x assume "x \<in> set s"
      then obtain j where "j < length s" "s ! j = x" by (metis in_set_conv_nth)
      have "length s - 1 - j < k" and "length s - 1 - (length s - 1 - j) = j"
        using True \<open>j < length s\<close> by linarith+
      then show "x \<in> {CHR '' ''}"
        using "1.prems"(2) \<open>s ! j = x\<close> by (metis singletonI)
    qed
    with True show ?thesis by (simp add: trim_end_loop.simps)
  next
    case False
    then have k: "k < length s" using "1.prems" by simp
    show ?thesis
    proof (cases "s ! (length s - 1 - k) = CHR '' ''")
      case True
      have "\<forall>i < k + 1. s ! (length s - 1 - i) = CHR '' ''"
        using "1.prems"(2) True by (auto simp: less_Suc_eq)
      with "1.IH" k True show ?thesis by (simp add: trim_end_loop.simps [of s k])
    next
      case ns: False
      have rev: "rev s ! i = s ! (length s - 1 - i)" if "i < length s" for i
        using that by (simp add: rev_nth)
      have "takeWhile (\<lambda>c. c = CHR '' '') (rev s) = take k (rev s)"
        using k ns "1.prems"(2) rev by (intro takeWhile_eq_take_P_nth) auto
      moreover have "s ! (length s - 1 - k) \<in> set s"
        using k by (intro nth_mem) simp
      then have "\<not> set s \<subseteq> {CHR '' ''}" using ns by blast
      ultimately show ?thesis using k ns by (simp add: trim_end_loop.simps [of s k])
    qed
  qed
qed

lemma take_drop_strip:
  assumes "\<not> set s \<subseteq> {c}"
  defines "a \<equiv> length (takeWhile (\<lambda>x. x = c) s)"
    and "b \<equiv> length (takeWhile (\<lambda>x. x = c) (rev s))"
  shows "strip c s = take (length s - a - b) (drop a s)" and "a + b < length s"
proof -
  obtain x where x: "x \<in> set s" "x \<noteq> c" using assms(1) by auto
  have d: "dropWhile (\<lambda>x. x = c) s = drop a s" by (simp add: a_def)
  then have ne: "\<exists>y \<in> set (drop a s). y \<noteq> c"
    using x by (metis (mono_tags) dropWhile_append2 set_takeWhileD takeWhile_dropWhile_id
        Un_iff set_append)
  have "takeWhile (\<lambda>x. x = c) (rev s) = takeWhile (\<lambda>x. x = c) (rev (drop a s))"
    using ne takeWhile_append1 [of _ "rev (drop a s)" "\<lambda>x. x = c" "rev (take a s)"]
    by (metis append_take_drop_id rev_append set_rev)
  then have b: "b = length (takeWhile (\<lambda>x. x = c) (rev (drop a s)))" by (simp add: b_def)
  have "dropWhile (\<lambda>x. x = c) (rev (drop a s)) = drop b (rev (drop a s))" by (simp add: b)
  then show "strip c s = take (length s - a - b) (drop a s)"
    by (simp add: strip_def d drop_rev)
  have "dropWhile (\<lambda>x. x = c) (rev (drop a s)) \<noteq> []" using ne by (auto simp: dropWhile_eq_Nil_conv)
  then have "b < length (drop a s)" by (simp add: \<open>dropWhile _ (rev (drop a s)) = _\<close>)
  then show "a + b < length s" by simp
qed

text \<open>
  \<^verbatim>\<open>trim_spaces\<close> on every string: it strips a string with a character other than the
  space, and reads before the start of a string made of spaces only.
\<close>

lemma trim_spaces_eq:
  "trim_spaces (Some s) =
     (if s = [] then Inr (Some [])
      else if set s \<subseteq> {CHR '' ''} then Inl Out_Of_Bounds
      else Inr (Some (strip (CHR '' '') s)))"
proof (cases "s = [] \<or> set s \<subseteq> {CHR '' ''}")
  case True
  then show ?thesis by (auto simp: trim_spaces_def trim_end_loop_eq)
next
  case False
  then have ns: "\<not> set s \<subseteq> {CHR '' ''}" by simp
  have "trim_end_loop s 0 = Inr (length (takeWhile (\<lambda>c. c = CHR '' '') (rev s)))"
    using ns by (simp add: trim_end_loop_eq)
  moreover have "takeWhile (\<lambda>c. c = CHR '' '') s = [] \<Longrightarrow> dropWhile (\<lambda>c. c = CHR '' '') s = s"
    by (cases s) auto
  ultimately show ?thesis
    using take_drop_strip [OF ns] ns False
    by (simp add: trim_spaces_def Let_def)
qed

lemma strip_decompose:
  "\<exists>a b. s = replicate a c @ strip c s @ replicate b c"
proof -
  have 1: "\<exists>a. t = replicate a c @ dropWhile (\<lambda>x. x = c) t" for t :: string
  proof (induction t)
    case (Cons x t)
    then obtain a where "t = replicate a c @ dropWhile (\<lambda>x. x = c) t" by blast
    then have "x = c \<Longrightarrow> x # t = replicate (Suc a) c @ dropWhile (\<lambda>x. x = c) (x # t)" by simp
    moreover have "x \<noteq> c \<Longrightarrow> x # t = replicate 0 c @ dropWhile (\<lambda>x. x = c) (x # t)" by simp
    ultimately show ?case by blast
  qed simp
  obtain a where a: "s = replicate a c @ dropWhile (\<lambda>x. x = c) s" using 1 by blast
  obtain b where "rev (dropWhile (\<lambda>x. x = c) s) =
      replicate b c @ dropWhile (\<lambda>x. x = c) (rev (dropWhile (\<lambda>x. x = c) s))" using 1 by blast
  then have "dropWhile (\<lambda>x. x = c) s = strip c s @ replicate b c"
    unfolding strip_def by (metis rev_append rev_replicate rev_rev_ident)
  with a show ?thesis by metis
qed

lemma strip_ends: "strip c s \<noteq> [] \<Longrightarrow> hd (strip c s) \<noteq> c \<and> last (strip c s) \<noteq> c"
proof -
  assume ne: "strip c s \<noteq> []"
  let ?t = "dropWhile (\<lambda>x. x = c) s"
  have "last (strip c s) \<noteq> c"
    using ne hd_dropWhile [of "\<lambda>x. x = c" "rev ?t"] by (simp add: strip_def last_rev)
  moreover obtain b where "?t = strip c s @ b"
    by (metis strip_def rev_append rev_rev_ident takeWhile_dropWhile_id)
  then have "hd (strip c s) = hd ?t" and "?t \<noteq> []" using ne by auto
  then have "hd (strip c s) \<noteq> c" using hd_dropWhile [of "\<lambda>x. x = c" s] by simp
  ultimately show ?thesis by simp
qed

lemma is_only_composed_of_single:
  "is_only_composed_of s [c] = Inr (set s \<subseteq> {c})"
proof (induction s)
  case Nil
  then show ?case by (simp add: is_only_composed_of.simps)
next
  case (Cons x xs)
  then show ?case by (simp add: is_only_composed_of.simps [of "x # xs"])
qed

lemma contains_string_iff [simp]: "contains_string array word \<longleftrightarrow> word \<in> set array"
  by (induction array) auto

lemma trunc_start_suffix:
  "to_keep \<le> length s \<Longrightarrow>
     \<exists>r. trunc_start (Some s) to_keep = Inr (Some r) \<and> cstr_text r = drop (length s - to_keep) s"
  by (auto simp: trunc_start_def)

lemma repeat_loop_concat:
  "length result = index * length s \<Longrightarrow>
     repeat_loop s left index result = result @ concat (replicate left s)"
  by (induction s left index result rule: repeat_loop.induct) auto

lemma repeat_str_concat: "repeat_str s n = concat (replicate n s)"
  by (simp add: repeat_str_def repeat_loop_concat)

section \<open>Integers\<close>

lemma digit_not_space: "is_digit c \<Longrightarrow> \<not> is_space c"
  by (auto simp: is_digit_def is_space_def)

lemma show_nat_hd: "is_digit (hd (show_nat n))"
  using show_nat_digits [of n] by (cases "show_nat n") auto

lemma minus_not_digit: "\<not> is_digit (CHR ''-'')" "\<not> is_digit (CHR ''+'')" "\<not> is_space (CHR ''-'')"
  by (simp_all add: is_digit_def is_space_def)

lemma digits_takeWhile:
  "list_all is_digit ds \<Longrightarrow> takeWhile is_digit ds = ds \<and> dropWhile is_digit ds = []"
  by (induction ds) auto

lemma takeWhile_show_nat [simp]:
  "takeWhile is_digit (show_nat n) = show_nat n" "dropWhile is_digit (show_nat n) = []"
  using digits_takeWhile [OF show_nat_digits] by auto

lemma split_sign_show_nat: "split_sign (dropWhile is_space (show_nat n)) = (False, show_nat n)"
proof -
  obtain c cs where s: "show_nat n = c # cs" by (cases "show_nat n") auto
  then have "is_digit c" using show_nat_hd [of n] by simp
  then show ?thesis using s digit_not_space minus_not_digit by auto
qed

lemma strtoimax_show_int:
  assumes "INTMAX_MIN \<le> x" and "x \<le> INTMAX_MAX"
  shows "strtoimax (show_int x) = \<lparr>sr_value = x, sr_erange = False, sr_endptr = []\<rparr>"
proof (cases "x < 0")
  case True
  then show ?thesis
    using assms minus_not_digit
    by (simp add: strtoimax_def show_int_def INTMAX_MIN_def INTMAX_MAX_def Let_def)
next
  case False
  then show ?thesis
    using assms split_sign_show_nat [of "nat x"]
    by (simp add: strtoimax_def show_int_def INTMAX_MIN_def INTMAX_MAX_def Let_def)
qed

lemma parse_intmax_t_show_int:
  "INTMAX_MIN \<le> x \<Longrightarrow> x \<le> INTMAX_MAX \<Longrightarrow> parse_intmax_t (show_int x) = Inr x"
  by (simp add: parse_intmax_t_def strtoimax_show_int)

lemma parse_intmax_t_range:
  "parse_intmax_t s = Inr x \<Longrightarrow> INTMAX_MIN \<le> x \<and> x \<le> INTMAX_MAX"
  by (auto simp: parse_intmax_t_def strtoimax_def Let_def INTMAX_MIN_def INTMAX_MAX_def
      split: if_splits prod.splits)

lemma dropWhile_space_split:
  "\<exists>ws. list_all is_space ws \<and> s = ws @ dropWhile is_space s"
  by (metis list_all_iff set_takeWhileD takeWhile_dropWhile_id)

lemma dropWhile_blank: "list_all is_space ws \<Longrightarrow> dropWhile is_space (ws @ t) = dropWhile is_space t"
  by (induction ws) auto

text \<open>The texts of the numbers: white space, a sign or none, at least one digit.\<close>

definition number_text :: "string \<Rightarrow> int \<Rightarrow> bool" where
  "number_text s v \<longleftrightarrow>
     (\<exists>ws sg ds. s = ws @ sg @ ds \<and> list_all is_space ws \<and> sg \<in> {[], ''-'', ''+''} \<and>
        ds \<noteq> [] \<and> list_all is_digit ds \<and>
        v = (if sg = ''-'' then - int (digits_val ds) else int (digits_val ds)))"

lemma number_text_parts:
  assumes "number_text s v"
  obtains neg ds where "split_sign (dropWhile is_space s) = (neg, ds)" "s \<noteq> []" "ds \<noteq> []"
    "list_all is_digit ds" "v = (if neg then - int (digits_val ds) else int (digits_val ds))"
proof -
  obtain ws sg ds where s: "s = ws @ sg @ ds" "list_all is_space ws" "sg \<in> {[], ''-'', ''+''}"
      "ds \<noteq> []" "list_all is_digit ds"
      "v = (if sg = ''-'' then - int (digits_val ds) else int (digits_val ds))"
    using assms by (auto simp: number_text_def)
  obtain c cs where ds: "ds = c # cs" "is_digit c" using s(4,5) by (cases ds) auto
  have "\<not> is_space (CHR ''+'')" by (simp add: is_space_def)
  then have "dropWhile is_space (sg @ ds) = sg @ ds"
    using s(3) ds digit_not_space minus_not_digit by auto
  moreover have "split_sign (sg @ ds) = (sg = ''-'', ds)"
    using s(3) ds minus_not_digit by auto
  ultimately have "split_sign (dropWhile is_space s) = (sg = ''-'', ds)" "s \<noteq> []"
    using s(1,2,4) by (simp_all add: dropWhile_blank)
  then show thesis using that s(4-6) by blast
qed

lemma number_text_unique: "number_text s v \<Longrightarrow> number_text s w \<Longrightarrow> v = w"
  by (elim number_text_parts) simp

lemma strtoimax_number:
  assumes "number_text s v"
  shows "strtoimax s =
    (if v < INTMAX_MIN then \<lparr>sr_value = INTMAX_MIN, sr_erange = True, sr_endptr = []\<rparr>
     else if v > INTMAX_MAX then \<lparr>sr_value = INTMAX_MAX, sr_erange = True, sr_endptr = []\<rparr>
     else \<lparr>sr_value = v, sr_erange = False, sr_endptr = []\<rparr>)"
  using assms
proof (rule number_text_parts)
  fix neg ds assume "split_sign (dropWhile is_space s) = (neg, ds)" "ds \<noteq> []" "list_all is_digit ds"
    "v = (if neg then - int (digits_val ds) else int (digits_val ds))"
  then show ?thesis
    using digits_takeWhile [of ds]
    by (simp add: strtoimax_def Let_def del: takeWhile_eq_all_conv dropWhile_eq_Nil_conv)
qed

lemma strtoimax_end:
  assumes "sr_endptr (strtoimax s) = []" and "s \<noteq> []"
  shows "\<exists>v. number_text s v"
proof -
  obtain neg u where u: "split_sign (dropWhile is_space s) = (neg, u)" by fastforce
  obtain ws where ws: "list_all is_space ws" "s = ws @ dropWhile is_space s"
    using dropWhile_space_split by blast
  have "takeWhile is_digit u \<noteq> [] \<and> dropWhile is_digit u = []"
    using assms u by (auto simp: strtoimax_def Let_def split: if_splits)
  then have "list_all is_digit u \<and> u \<noteq> []" by (auto simp: list_all_iff)
  moreover have "\<exists>sg \<in> {[], ''-'', ''+''}. dropWhile is_space s = sg @ u"
    using u by (cases "dropWhile is_space s") (auto split: if_splits)
  ultimately show ?thesis using ws unfolding number_text_def by metis
qed

section \<open>Properties\<close>

text \<open>
  C38. \<^verbatim>\<open>split_string\<close> with a delimiter of any length cuts the string at the leftmost
  occurrences of the delimiter, from left to right, and returns the pieces that are not
  empty, in order; it returns the null pointer when nothing is left. It never leaves an
  entry of the array unwritten. An empty delimiter gives no iterator, which is then read.
\<close>

theorem split_string_correct:
  "if sep = [] then split_string s sep = Inl Null_Deref
   else \<exists>pieces. pieces_at sep s pieces \<and>
          split_string s sep =
            Inr (if filter (\<lambda>w. w \<noteq> []) pieces = [] then None
                 else Some (filter (\<lambda>w. w \<noteq> []) pieces))"
proof (cases "sep = []")
  case True
  then show ?thesis by (simp add: split_string_def new_string_iterator_def)
next
  case False
  then show ?thesis using words_pieces_at [OF False, of s] by (auto simp: split_string_words)
qed

text \<open>
  C21. Joining words with one character that is in none of them and splitting the result at
  it gives the words back, without a misuse of memory: what the parser relies on when it
  joins the rest of a pipeline with spaces and parses it again.
\<close>

theorem split_join_roundtrip:
  assumes "ts \<noteq> []" and "\<forall>w \<in> set ts. w \<noteq> [] \<and> c \<notin> set w"
  shows "bindU (join_strings ts [c]) (\<lambda>j. split_string (cstr_text j) [c]) = Inr (Some ts)"
  using assms by (simp add: join_strings_intercalate split_string_words words_intercalate)

lemma split_join_roundtrip_witness:
  "bindU (join_strings [''ls'', ''-l'', ''|''] '' '') (\<lambda>j. split_string (cstr_text j) '' '') =
     Inr (Some [''ls'', ''-l'', ''|''])"
  by (rule split_join_roundtrip) simp_all

text \<open>
  C39. \<^verbatim>\<open>trim_spaces\<close> removes exactly the outer spaces of a string that has another
  character, and reads before the start of a string of spaces only.
\<close>

theorem trim_spaces_correct:
  "if s \<noteq> [] \<and> set s \<subseteq> {CHR '' ''} then trim_spaces (Some s) = Inl Out_Of_Bounds
   else \<exists>a r b. trim_spaces (Some s) = Inr (Some r) \<and>
          s = replicate a (CHR '' '') @ r @ replicate b (CHR '' '') \<and>
          (r = [] \<or> hd r \<noteq> CHR '' '' \<and> last r \<noteq> CHR '' '')"
proof (cases "s \<noteq> [] \<and> set s \<subseteq> {CHR '' ''}")
  case True
  then show ?thesis by (simp add: trim_spaces_eq)
next
  case False
  have "trim_spaces (Some s) = Inr (Some (strip (CHR '' '') s))"
    using False by (auto simp: trim_spaces_eq strip_def)
  then show ?thesis
    using False strip_decompose [of s "CHR '' ''"] strip_ends [of "CHR '' ''" s] by (metis (full_types))
qed

text \<open>
  \<^verbatim>\<open>trunc_start\<close> returns exactly the last \<open>to_keep\<close> characters of a string that has at
  least so many, and reads past the end of a shorter one.
\<close>

theorem trunc_start_correct:
  "if to_keep \<le> length s
   then \<exists>r. trunc_start (Some s) to_keep = Inr (Some r) \<and>
            length (cstr_text r) = to_keep \<and> suffix (cstr_text r) s
   else trunc_start (Some s) to_keep = Inl Out_Of_Bounds"
proof (cases "to_keep \<le> length s")
  case True
  then obtain r where "trunc_start (Some s) to_keep = Inr (Some r)"
    "cstr_text r = drop (length s - to_keep) s" using trunc_start_suffix by blast
  then show ?thesis using True by (simp add: suffix_drop)
qed (auto simp: trunc_start_def)

text \<open>
  C40. \<^verbatim>\<open>parse_intmax_t\<close> accepts exactly the texts of the numbers of its type: white space,
  a sign or none, one digit or more and nothing behind, of a value that fits; it returns
  that value. It also accepts the empty string, as 0. Every other string is refused.
\<close>

theorem parse_intmax_t_correct:
  "parse_intmax_t s = Inr v \<longleftrightarrow>
     s = [] \<and> v = 0 \<or> number_text s v \<and> INTMAX_MIN \<le> v \<and> v \<le> INTMAX_MAX"
proof (cases "\<exists>w. number_text s w")
  case True
  then obtain w where w: "number_text s w" by blast
  then have "s \<noteq> []" by (auto elim: number_text_parts)
  moreover have "number_text s v \<longleftrightarrow> v = w" using w number_text_unique by blast
  ultimately show ?thesis
    using strtoimax_number [OF w]
    by (auto simp: parse_intmax_t_def Let_def INTMAX_MIN_def INTMAX_MAX_def split: if_splits)
next
  case False
  then have "s = [] \<or> sr_endptr (strtoimax s) \<noteq> []" using strtoimax_end by blast
  then show ?thesis using False by (auto simp: parse_intmax_t_def strtoimax_def Let_def)
qed

text \<open>So it reads back every number of its type from its decimal rendering.\<close>

theorem parse_intmax_t_roundtrip:
  assumes "INTMAX_MIN \<le> x" and "x \<le> INTMAX_MAX"
  shows "parse_intmax_t (show_int x) = Inr x"
  using assms by (rule parse_intmax_t_show_int)

lemma parse_intmax_t_roundtrip_witness: "parse_intmax_t (show_int (-42)) = Inr (-42)"
  by (rule parse_intmax_t_roundtrip) (simp_all add: INTMAX_MIN_def INTMAX_MAX_def)

text \<open>
  What \<^verbatim>\<open>parse_intmax_t\<close> accepts: the result always fits the type, and a digit string
  whose value does not fit is refused.
\<close>

theorem parse_intmax_t_bounds:
  "(\<forall>x. parse_intmax_t s = Inr x \<longrightarrow> INTMAX_MIN \<le> x \<and> x \<le> INTMAX_MAX) \<and>
   (list_all is_digit s \<longrightarrow> INTMAX_MAX < int (digits_val s) \<longrightarrow> (\<exists>msg. parse_intmax_t s = Inl msg))"
proof -
  have "\<exists>msg. parse_intmax_t s = Inl msg" if d: "list_all is_digit s" "INTMAX_MAX < int (digits_val s)"
  proof -
    have ne: "s \<noteq> []" using d(2) by (auto simp: INTMAX_MAX_def)
    then obtain c cs where s: "s = c # cs" by (cases s) auto
    then have "split_sign (dropWhile is_space s) = (False, s)"
      using d(1) digit_not_space minus_not_digit by auto
    moreover have "takeWhile is_digit s = s" using digits_takeWhile [OF d(1)] by blast
    ultimately show ?thesis
      using d(2) ne
      by (simp add: parse_intmax_t_def strtoimax_def Let_def INTMAX_MAX_def INTMAX_MIN_def
          del: takeWhile_eq_all_conv)
  qed
  then show ?thesis using parse_intmax_t_range by blast
qed

lemma parse_intmax_t_bounds_witness:
  "\<exists>msg. parse_intmax_t ''9223372036854775808'' = Inl msg"
proof -
  have "list_all is_digit ''9223372036854775808''" "INTMAX_MAX < int (digits_val ''9223372036854775808'')"
    by (simp_all add: is_digit_def INTMAX_MAX_def digits_val_def digit_val_def)
  then show ?thesis using parse_intmax_t_bounds [of "''9223372036854775808''"] by blast
qed

end
