(* ===== verification/Utils.thy ===== *)
theory Utils
  imports Shell_State String_Utils
begin

text \<open>
  \<^verbatim>\<open>src/utils.c\<close>: small sets of descriptors in fixed arrays, colours for the prompt, the
  current directory, and the closing of descriptors without closing one twice.
\<close>

section \<open>Definitions\<close>

text \<open>
  The arrays hold a negative number in an empty spot. Each function returns its \<^verbatim>\<open>int\<close>
  result and, where it writes, the array.
\<close>

fun add_set :: "int list \<Rightarrow> int \<Rightarrow> int \<times> int list" where
  "add_set [] value = (-1, [])"
| "add_set (x # arr) value =
     (if x < 0 then (0, value # arr)
      else if x = value then (-1, x # arr)
      else let (r, arr') = add_set arr value in (r, x # arr'))"

fun remove_set :: "int list \<Rightarrow> int \<Rightarrow> int \<times> int list" where
  "remove_set [] value = (-1, [])"
| "remove_set (x # arr) value =
     (if x = value then (0, -1 # arr)
      else let (r, arr') = remove_set arr value in (r, x # arr'))"

fun contains :: "int list \<Rightarrow> int \<Rightarrow> bool" where
  "contains [] value = False"
| "contains (x # arr) value = (if x = value then True else contains arr value)"

text \<open>The two nested loops of \<^verbatim>\<open>contains2\<close>, on the array of pairs of a command's pipes.\<close>

fun contains2 :: "(fd \<times> fd) list \<Rightarrow> int \<Rightarrow> bool" where
  "contains2 [] value = False"
| "contains2 ((a, b) # array) value =
     (if a = value then True else if b = value then True else contains2 array value)"

definition colored :: "string option \<Rightarrow> string option \<Rightarrow> string option" where
  "colored color s =
     (case (color, s) of
        (Some c, Some t) \<Rightarrow>
          Some ([CHR 0x01] @ c @ [CHR 0x02] @ t @ [CHR 0x1B] @ ''[0m'')
      | _ \<Rightarrow> None)"

definition in_white :: "string option \<Rightarrow> string option" where
  "in_white = colored (Some (CHR 0x1B # ''[0m''))"

definition in_red :: "string option \<Rightarrow> string option" where
  "in_red = colored (Some (CHR 0x1B # ''[0;31m''))"

definition in_green :: "string option \<Rightarrow> string option" where
  "in_green = colored (Some (CHR 0x1B # ''[0;32m''))"

definition in_yellow :: "string option \<Rightarrow> string option" where
  "in_yellow = colored (Some (CHR 0x1B # ''[0;33m''))"

definition in_blue :: "string option \<Rightarrow> string option" where
  "in_blue = colored (Some (CHR 0x1B # ''[0;34m''))"

definition in_purple :: "string option \<Rightarrow> string option" where
  "in_purple = colored (Some (CHR 0x1B # ''[0;35m''))"

definition in_cyan :: "string option \<Rightarrow> string option" where
  "in_cyan = colored (Some (CHR 0x1B # ''[0;36m''))"

text \<open>When \<^verbatim>\<open>getcwd\<close> fails, \<^verbatim>\<open>get_current_wd\<close> returns a string literal.\<close>

definition get_current_wd :: "os \<Rightarrow> shell \<Rightarrow> cstr \<times> shell" where
  "get_current_wd OS st =
     (let (cwd, st) = sys_getcwd OS st
      in case cwd of
           None \<Rightarrow> (Literal [], perror OS ''getcwd'' st)
         | Some d \<Rightarrow> (Heap d, st))"

definition truncated_cwd :: "os \<Rightarrow> nat \<Rightarrow> shell \<Rightarrow> (cstr option \<times> shell) cres" where
  "truncated_cwd OS size_limit st =
     (let (cwd, st) = get_current_wd OS st
      in bindU (trunc_start (Some (cstr_text cwd)) size_limit) (\<lambda>trunc_cwd.
         bindU (if cstr_text cwd \<noteq> [] then c_free cwd else Inr ()) (\<lambda>_.
           Inr (trunc_cwd, st))))"

text \<open>A loop over an array that closes the entries above 2.\<close>

fun close_above_2 :: "int list \<Rightarrow> shell \<Rightarrow> shell" where
  "close_above_2 [] st = st"
| "close_above_2 (x # arr) st = close_above_2 arr (if x > 2 then sys_close x st else st)"

text \<open>The null pointer is \<^const>\<open>None\<close>.\<close>

definition close_unused_file_descriptors_from_array :: "int list option \<Rightarrow> shell \<Rightarrow> shell" where
  "close_unused_file_descriptors_from_array fds st =
     (case fds of
        None \<Rightarrow> st
      | Some fds_to_close \<Rightarrow>
          let arr = replicate (length fds_to_close) (-1);
              arr = fold (\<lambda>value arr. snd (add_set arr value)) fds_to_close arr
          in close_above_2 arr st)"

section \<open>Sets of descriptors\<close>

lemma contains_iff [simp]: "contains arr value \<longleftrightarrow> value \<in> set arr"
  by (induction arr) auto

lemma contains2_iff [simp]:
  "contains2 array value \<longleftrightarrow> (\<exists>(a, b) \<in> set array. a = value \<or> b = value)"
proof (induction array)
  case (Cons p array)
  then show ?case by (cases p) simp
qed simp

text \<open>
  The interface the closing loops rely on: a bounded collection of non-negative numbers
  without repetition, in which a number is stored unless it is there already.
\<close>

locale bounded_set =
  fixes empty :: "nat \<Rightarrow> 's"
    and add :: "'s \<Rightarrow> int \<Rightarrow> 's"
    and elems :: "'s \<Rightarrow> int list"
    and room :: "'s \<Rightarrow> nat"
    and inv :: "'s \<Rightarrow> bool"
  assumes empty_inv: "inv (empty n)"
    and empty_elems: "elems (empty n) = []"
    and empty_room: "room (empty n) = n"
    and add_inv: "inv s \<Longrightarrow> inv (add s v)"
    and add_elems: "inv s \<Longrightarrow> 0 < room s \<Longrightarrow>
          elems (add s v) = (if v < 0 \<or> v \<in> set (elems s) then elems s else elems s @ [v])"
    and add_room: "inv s \<Longrightarrow> 0 < room s \<Longrightarrow> room s \<le> Suc (room (add s v))"
    and elems_distinct: "inv s \<Longrightarrow> distinct (elems s)"
begin

definition dedup :: "int list \<Rightarrow> int list \<Rightarrow> int list" where
  "dedup acc vs = fold (\<lambda>v acc. if v < 0 \<or> v \<in> set acc then acc else acc @ [v]) vs acc"

lemma fold_add:
  "inv s \<Longrightarrow> length vs \<le> room s \<Longrightarrow>
     inv (fold (\<lambda>v s. add s v) vs s) \<and>
     elems (fold (\<lambda>v s. add s v) vs s) = dedup (elems s) vs"
proof (induction vs arbitrary: s)
  case Nil
  then show ?case by (simp add: dedup_def)
next
  case (Cons v vs)
  have "inv (add s v)" and "length vs \<le> room (add s v)"
    using Cons.prems add_inv add_room [of s v] by auto
  then show ?case using Cons add_elems [of s v] by (simp add: dedup_def)
qed

lemma set_dedup: "set (dedup acc vs) = set acc \<union> {v \<in> set vs. 0 \<le> v}"
proof (induction vs arbitrary: acc)
  case (Cons v vs)
  then show ?case by (cases "v < 0 \<or> v \<in> set acc") (auto simp: dedup_def)
qed (simp add: dedup_def)

lemma collect_all:
  "distinct (elems (fold (\<lambda>v s. add s v) vs (empty (length vs)))) \<and>
   set (elems (fold (\<lambda>v s. add s v) vs (empty (length vs)))) = {v \<in> set vs. 0 \<le> v}"
proof -
  have "inv (fold (\<lambda>v s. add s v) vs (empty (length vs)))" and
    "elems (fold (\<lambda>v s. add s v) vs (empty (length vs))) = dedup [] vs"
    using fold_add [of "empty (length vs)" vs] by (simp_all add: empty_inv empty_room empty_elems)
  then show ?thesis
    using elems_distinct [of "fold (\<lambda>v s. add s v) vs (empty (length vs))"] set_dedup [of "[]" vs]
    by simp
qed

end

text \<open>
  The arrays provide it as long as no spot is emptied again: the members are in front, the
  empty spots behind them.
\<close>

definition members :: "int list \<Rightarrow> int list" where
  "members arr = filter (\<lambda>x. 0 \<le> x) arr"

definition packed :: "int list \<Rightarrow> bool" where
  "packed arr \<longleftrightarrow> (\<exists>front rear. arr = front @ rear \<and> (\<forall>x \<in> set front. 0 \<le> x) \<and>
                    (\<forall>x \<in> set rear. x < 0) \<and> distinct front)"

lemma add_set_front:
  "(\<forall>x \<in> set front. 0 \<le> x) \<Longrightarrow> (\<forall>x \<in> set rear. x < 0) \<Longrightarrow>
     snd (add_set (front @ rear) v) =
       (if v \<in> set front then front @ rear
        else front @ (case rear of [] \<Rightarrow> [] | _ # rest \<Rightarrow> v # rest))"
proof (induction front)
  case Nil
  then show ?case by (cases rear) auto
next
  case (Cons x front)
  then show ?case by (auto split: prod.splits)
qed

lemma packed_parts:
  assumes "\<forall>x \<in> set front. 0 \<le> x" and "\<forall>x \<in> set rear. x < (0 :: int)"
  shows "members (front @ rear) = front" and "filter (\<lambda>x. x < 0) (front @ rear) = rear"
proof -
  have "filter (\<lambda>x. 0 \<le> x) front = front" "filter (\<lambda>x. x < 0) rear = rear"
    using assms by (simp_all add: filter_id_conv)
  moreover have "filter (\<lambda>x. 0 \<le> x) rear = []" "filter (\<lambda>x. x < 0) front = []"
    using assms by (auto simp: filter_empty_conv)
  ultimately show "members (front @ rear) = front" "filter (\<lambda>x. x < 0) (front @ rear) = rear"
    by (simp_all add: members_def)
qed

lemma packed_add_set:
  assumes "packed arr"
  shows "packed (snd (add_set arr v))"
    and "0 < length (filter (\<lambda>x. x < 0) arr) \<Longrightarrow>
           members (snd (add_set arr v)) =
             (if v < 0 \<or> v \<in> set (members arr) then members arr else members arr @ [v])"
    and "length (filter (\<lambda>x. x < 0) arr) \<le> Suc (length (filter (\<lambda>x. x < 0) (snd (add_set arr v))))"
proof -
  obtain front rear where s: "arr = front @ rear" and f: "\<forall>x \<in> set front. 0 \<le> x"
    and b: "\<forall>x \<in> set rear. x < 0" and d: "distinct front"
    using assms by (auto simp: packed_def)
  note add = add_set_front [OF f b, of v] and parts = packed_parts [OF f b]
  consider (there) "v \<in> set front" | (full) "v \<notin> set front" "rear = []"
    | (neg) y rest where "v \<notin> set front" "rear = y # rest" "v < 0"
    | (new) y rest where "v \<notin> set front" "rear = y # rest" "0 \<le> v"
    by (metis linorder_not_le list.exhaust)
  note cs = this
  show "packed (snd (add_set arr v))"
  proof (cases rule: cs)
    case neg
    have "packed (front @ v # rest)"
      unfolding packed_def using f b d neg by (intro exI [of _ front] exI [of _ "v # rest"]) auto
    then show ?thesis using add neg by (simp add: s)
  next
    case new
    have "packed ((front @ [v]) @ rest)"
      unfolding packed_def using f b d new by (intro exI [of _ "front @ [v]"] exI [of _ rest]) auto
    then show ?thesis using add new by (simp add: s)
  qed (use add assms s in auto)
  show "members (snd (add_set arr v)) =
      (if v < 0 \<or> v \<in> set (members arr) then members arr else members arr @ [v])"
    if "0 < length (filter (\<lambda>x. x < 0) arr)"
    using that add parts f b
    by (cases rule: cs) (auto simp: s members_def filter_empty_conv dest: packed_parts)
  show "length (filter (\<lambda>x. x < 0) arr) \<le> Suc (length (filter (\<lambda>x. x < 0) (snd (add_set arr v))))"
    using add by (cases rule: cs) (auto simp: s)
qed

interpretation fd_set: bounded_set
  "\<lambda>n. replicate n (-1)" "\<lambda>arr v. snd (add_set arr v)" members
  "\<lambda>arr. length (filter (\<lambda>x. x < 0) arr)" packed
proof
  fix n v and s :: "int list"
  show "packed (replicate n (-1))"
    unfolding packed_def by (intro exI [of _ "[]"] exI [of _ "replicate n (-1)"]) auto
  show "members (replicate n (-1)) = []" and "length (filter (\<lambda>x. x < 0) (replicate n (- 1 :: int))) = n"
    by (simp_all add: members_def)
  assume p: "packed s"
  then show "packed (snd (add_set s v))" by (rule packed_add_set)
  show "distinct (members s)" using p packed_parts(1) by (auto simp: packed_def)
  assume "0 < length (filter (\<lambda>x. x < 0) s)"
  then show "members (snd (add_set s v)) =
      (if v < 0 \<or> v \<in> set (members s) then members s else members s @ [v])"
    by (rule packed_add_set(2) [OF p])
  show "length (filter (\<lambda>x. x < 0) s) \<le> Suc (length (filter (\<lambda>x. x < 0) (snd (add_set s v))))"
    by (rule packed_add_set(3) [OF p])
qed

section \<open>Closing\<close>

lemma close_above_2_trace:
  "close_above_2 arr st = st\<lparr>trace := map Ev_Close (rev (filter (\<lambda>x. 2 < x) arr)) @ trace st\<rparr>"
  by (induction arr st rule: close_above_2.induct) (auto simp: sys_close_def record_event_def)

lemma filter_above_2_members: "filter (\<lambda>x. 2 < x) arr = filter (\<lambda>x. 2 < x) (members arr)"
  by (induction arr) (auto simp: members_def)

text \<open>The descriptors above 2 of the array are closed, each once, and nothing else happens.\<close>

lemma close_from_array_trace:
  "\<exists>closed. close_unused_file_descriptors_from_array (Some fds) st =
              st\<lparr>trace := map Ev_Close closed @ trace st\<rparr> \<and>
            distinct closed \<and> set closed = {x \<in> set fds. 2 < x}"
proof -
  define s where "s = fold (\<lambda>value arr. snd (add_set arr value)) fds (replicate (length fds) (-1))"
  define closed where "closed = rev (filter (\<lambda>x. 2 < x) (members s))"
  have "distinct (members s)" "set (members s) = {v \<in> set fds. 0 \<le> v}"
    using fd_set.collect_all [of fds] by (simp_all add: s_def)
  note m = this
  have "distinct closed" unfolding closed_def distinct_rev by (rule distinct_filter [OF m(1)])
  moreover have "set closed = {x \<in> set fds. 2 < x}"
  proof -
    have "set closed = {x \<in> set (members s). 2 < x}" by (simp only: closed_def set_rev set_filter)
    also have "\<dots> = {x \<in> {v \<in> set fds. 0 \<le> v}. 2 < x}" by (simp only: m(2))
    also have "\<dots> = {x \<in> set fds. 2 < x}" by auto
    finally show ?thesis .
  qed
  moreover have "close_unused_file_descriptors_from_array (Some fds) st =
      st\<lparr>trace := map Ev_Close closed @ trace st\<rparr>"
    unfolding close_unused_file_descriptors_from_array_def closed_def filter_above_2_members [symmetric]
    by (simp add: close_above_2_trace s_def)
  ultimately show ?thesis by blast
qed

lemma same_globals_close_from_array [simp]:
  "same_globals st (close_unused_file_descriptors_from_array fds st)"
  by (cases fds) (auto simp: close_unused_file_descriptors_from_array_def close_above_2_trace
      same_globals_iff Let_def)

section \<open>Properties\<close>

text \<open>
  The arrays are sets while they are only added to: from the empty array, the members
  after any sequence of \<^verbatim>\<open>add_set\<close> that fits are the non-negative values added, each once.
\<close>

theorem add_set_collects:
  "distinct (members (fold (\<lambda>v arr. snd (add_set arr v)) vs (replicate (length vs) (-1)))) \<and>
   set (members (fold (\<lambda>v arr. snd (add_set arr v)) vs (replicate (length vs) (-1)))) = {v \<in> set vs. 0 \<le> v}"
  by (rule fd_set.collect_all)

end
