(* ===== verification/Command.thy ===== *)
theory Command
  imports Utils
begin

text \<open>
  The data and the helpers of the parser (\<^verbatim>\<open>src/command.c\<close>): command calls in their store,
  the builder a call is made from, redirections, pipes. The recursive parser itself is in
  theory \<open>Parser\<close>.
\<close>

section \<open>Words of the command language\<close>

definition internal_commands :: "string list" where
  "internal_commands = [''cd'', ''exit'', ''pwd'', ''?'', ''jobs'', ''fg'', ''bg'', ''kill'']"

definition redirection_caret_symbols :: "string list" where
  "redirection_caret_symbols =
     [''>'', ''<'', ''>|'', ''>>'', ''2>'', ''2>|'', ''2>>'', ''<('', '')'', ''|'']"

abbreviation (input) COMMAND_SEPARATOR :: string where "COMMAND_SEPARATOR \<equiv> '' ''"
abbreviation (input) BACKGROUND_FLAG :: string where "BACKGROUND_FLAG \<equiv> ''&''"
abbreviation (input) COMMAND_SUBSTITUTION_START :: string where "COMMAND_SUBSTITUTION_START \<equiv> ''<(''"
abbreviation (input) COMMAND_SUBSTITUTION_END :: string where "COMMAND_SUBSTITUTION_END \<equiv> '')''"
abbreviation (input) PIPE_SYMBOL :: string where "PIPE_SYMBOL \<equiv> ''|''"
abbreviation (input) UNINITIALIZED_FD :: fd where "UNINITIALIZED_FD \<equiv> -1"
abbreviation (input) UNINITIALIZED_PID :: pid where "UNINITIALIZED_PID \<equiv> -2"

section \<open>Command calls\<close>

text \<open>Access to a \<^verbatim>\<open>command_call\<close> through its address.\<close>

definition read_call :: "addr \<Rightarrow> shell \<Rightarrow> command_call cres" where
  "read_call a st =
     (if a < length (call_heap st)
      then case call_heap st ! a of None \<Rightarrow> Inl Use_After_Free | Some c \<Rightarrow> Inr c
      else Inl Out_Of_Bounds)"

definition update_call :: "addr \<Rightarrow> (command_call \<Rightarrow> command_call) \<Rightarrow> shell \<Rightarrow> shell cres" where
  "update_call a f st =
     bindU (read_call a st) (\<lambda>c. Inr (st\<lparr>call_heap := (call_heap st)[a := Some (f c)]\<rparr>))"

text \<open>
  \<^verbatim>\<open>argv\<close> without its terminating null pointer. The parser never builds a call without a
  word, so the null name of an empty \<^verbatim>\<open>argv\<close> is not distinguished from the empty string.
\<close>

definition new_command_call :: "nat \<Rightarrow> string list \<Rightarrow> string \<Rightarrow> command_call" where
  "new_command_call argc argv command_string =
     \<lparr>cc_name = (case argv of [] \<Rightarrow> [] | a # _ \<Rightarrow> a), cc_argc = argc, cc_argv = argv,
      cc_command_string = command_string, cc_reading_pipes = None, cc_writing_pipes = None,
      cc_stdin = STDIN_FILENO, cc_stdout = STDOUT_FILENO, cc_stderr = STDERR_FILENO\<rparr>"

definition alloc_call :: "command_call \<Rightarrow> shell \<Rightarrow> addr \<times> shell" where
  "alloc_call c st = (length (call_heap st), st\<lparr>call_heap := call_heap st @ [Some c]\<rparr>)"

definition destroy_command_call :: "addr option \<Rightarrow> shell \<Rightarrow> shell cres" where
  "destroy_command_call call st =
     (case call of
        None \<Rightarrow> Inr st
      | Some a \<Rightarrow> bindU (read_call a st) (\<lambda>_. Inr (st\<lparr>call_heap := (call_heap st)[a := None]\<rparr>)))"

definition command_call_print :: "command_call \<Rightarrow> fd \<Rightarrow> shell \<Rightarrow> shell" where
  "command_call_print call fd = dprintf fd (cc_command_string call)"

definition is_internal_command :: "command_call \<Rightarrow> bool" where
  "is_internal_command call \<longleftrightarrow> list_ex (\<lambda>name. cc_name call = name) internal_commands"

section \<open>Commands\<close>

definition new_command :: "addr list \<Rightarrow> (fd \<times> fd) list \<Rightarrow> string \<Rightarrow> command" where
  "new_command calls open_pipes command_string =
     \<lparr>cmd_string = Some command_string, cmd_calls = calls, cmd_background = False,
      cmd_open_pipes = open_pipes\<rparr>"

definition new_empty_command :: "string option \<Rightarrow> command option cres" where
  "new_empty_command command_string =
     (case command_string of
        None \<Rightarrow> Inr None
      | Some s \<Rightarrow>
          if length s = 0 then Inr None
          else bindU (is_only_composed_of s COMMAND_SEPARATOR) (\<lambda>blank.
                 if blank then Inr None
                 else Inr (Some \<lparr>cmd_string = None, cmd_calls = [], cmd_background = False,
                                 cmd_open_pipes = []\<rparr>)))"

fun destroy_calls :: "addr list \<Rightarrow> shell \<Rightarrow> shell cres" where
  "destroy_calls [] st = Inr st"
| "destroy_calls (a # as) st = bindU (destroy_command_call (Some a) st) (destroy_calls as)"

definition destroy_command :: "command option \<Rightarrow> shell \<Rightarrow> shell cres" where
  "destroy_command cmd st =
     (case cmd of None \<Rightarrow> Inr st | Some c \<Rightarrow> destroy_calls (cmd_calls c) st)"

definition add_pipe :: "command \<Rightarrow> fd \<times> fd \<Rightarrow> command" where
  "add_pipe cmd pipe = cmd\<lparr>cmd_open_pipes := cmd_open_pipes cmd @ [pipe]\<rparr>"

text \<open>A null \<^verbatim>\<open>pipe_info\<close> is left alone.\<close>

definition add_pipe_pipe_info :: "pipe_info option \<Rightarrow> nat \<Rightarrow> pipe_info option" where
  "add_pipe_pipe_info pi index = map_option (\<lambda>pipes. pipes @ [index]) pi"

definition add_call_at_the_beginning :: "command \<Rightarrow> addr option \<Rightarrow> command" where
  "add_call_at_the_beginning cmd call =
     (case call of None \<Rightarrow> cmd | Some a \<Rightarrow> cmd\<lparr>cmd_calls := a # cmd_calls cmd\<rparr>)"

definition add_call_at_the_end :: "command \<Rightarrow> addr option \<Rightarrow> command" where
  "add_call_at_the_end cmd call =
     (case call of None \<Rightarrow> cmd | Some a \<Rightarrow> cmd\<lparr>cmd_calls := cmd_calls cmd @ [a]\<rparr>)"

section \<open>Builders\<close>

record command_call_builder =
  b_fds :: "fd list"
  b_reading_pipes :: "pipe_info option"
  b_writing_pipes :: "pipe_info option"

definition new_pipe_info :: "pipe_info option" where
  "new_pipe_info = Some []"

definition new_command_call_builder :: command_call_builder where
  "new_command_call_builder =
     \<lparr>b_fds = [UNINITIALIZED_FD, UNINITIALIZED_FD, UNINITIALIZED_FD],
      b_reading_pipes = new_pipe_info, b_writing_pipes = new_pipe_info\<rparr>"

definition build_command ::
  "command_call_builder \<Rightarrow> nat \<Rightarrow> string list \<Rightarrow> string \<Rightarrow> shell \<Rightarrow> addr \<times> shell" where
  "build_command builder argc argv command_string st =
     (let c = new_command_call argc argv command_string;
          c = (if b_fds builder ! 0 \<noteq> UNINITIALIZED_FD then c\<lparr>cc_stdin := b_fds builder ! 0\<rparr> else c);
          c = (if b_fds builder ! 1 \<noteq> UNINITIALIZED_FD then c\<lparr>cc_stdout := b_fds builder ! 1\<rparr> else c);
          c = (if b_fds builder ! 2 \<noteq> UNINITIALIZED_FD then c\<lparr>cc_stderr := b_fds builder ! 2\<rparr> else c);
          c = c\<lparr>cc_writing_pipes := b_writing_pipes builder,
                cc_reading_pipes := b_reading_pipes builder\<rparr>
      in alloc_call c st)"

section \<open>Redirections\<close>

definition redirect :: "fd list \<Rightarrow> nat \<Rightarrow> fd \<Rightarrow> shell \<Rightarrow> int \<times> fd list \<times> shell" where
  "redirect fds k fd st =
     (let st = (if fds ! k > 2 then sys_close (fds ! k) st else st) in (0, fds[k := fd], st))"

definition parse_redirections ::
  "os \<Rightarrow> fd list \<Rightarrow> string \<Rightarrow> string \<Rightarrow> shell \<Rightarrow> int \<times> fd list \<times> shell" where
  "parse_redirections OS fds redirection_symbol filename st =
     (if redirection_symbol = ''<''
      then let (fd, st) = sys_open OS filename [O_RDONLY] st
           in if fd < 0
              then (-1, fds, dprintf STDERR_FILENO
                     (''jsh: '' @ filename @ '': '' @ strerror_errno OS st @ nl) st)
              else redirect fds 0 fd st
      else if redirection_symbol = ''>''
      then let (fd, st) = sys_open OS filename [O_WRONLY, O_CREAT, O_EXCL] st
           in if fd < 0
              then (-1, fds, dprintf STDERR_FILENO
                     (''jsh: '' @ filename @ '': cannot overwrite existing file.'' @ nl) st)
              else redirect fds 1 fd st
      else if redirection_symbol = ''>|''
      then let (fd, st) = sys_open OS filename [O_WRONLY, O_CREAT, O_TRUNC] st
           in if fd < 0 then (-1, fds, st) else redirect fds 1 fd st
      else if redirection_symbol = ''>>''
      then let (fd, st) = sys_open OS filename [O_WRONLY, O_CREAT, O_APPEND] st
           in if fd < 0 then (-1, fds, st) else redirect fds 1 fd st
      else if redirection_symbol = ''2>''
      then let (fd, st) = sys_open OS filename [O_WRONLY, O_CREAT, O_EXCL] st
           in if fd < 0
              then (-1, fds, dprintf STDERR_FILENO
                     (''jsh: '' @ filename @ '': cannot overwrite existing file.'' @ nl) st)
              else redirect fds 2 fd st
      else if redirection_symbol = ''2>|''
      then let (fd, st) = sys_open OS filename [O_WRONLY, O_CREAT, O_TRUNC] st
           in if fd < 0 then (-1, fds, st) else redirect fds 2 fd st
      else if redirection_symbol = ''2>>''
      then let (fd, st) = sys_open OS filename [O_WRONLY, O_CREAT, O_APPEND] st
           in if fd < 0 then (-1, fds, st) else redirect fds 2 fd st
      else (-1, fds, st))"

section \<open>Pipes between calls\<close>

definition update_dependencies ::
  "command_call_builder \<Rightarrow> addr \<Rightarrow> nat \<Rightarrow> shell \<Rightarrow> (command_call_builder \<times> shell) cres" where
  "update_dependencies builder call index st =
     bindU (update_call call (\<lambda>c. c\<lparr>cc_writing_pipes := add_pipe_pipe_info (cc_writing_pipes c) index\<rparr>) st)
       (\<lambda>st. Inr (builder\<lparr>b_reading_pipes := add_pipe_pipe_info (b_reading_pipes builder) index\<rparr>, st))"

definition link_pipelines ::
  "os \<Rightarrow> command \<Rightarrow> command_call_builder \<Rightarrow> addr \<Rightarrow> shell \<Rightarrow>
     (int \<times> command \<times> command_call_builder \<times> shell) cres" where
  "link_pipelines OS cmd prev call st =
     (let (p, st) = sys_pipe OS st
      in case p of
           None \<Rightarrow> Inr (-1, cmd, prev, perror OS ''pipe'' st)
         | Some (rd, wr) \<Rightarrow>
             let index = open_pipes_size cmd;
                 prev = prev\<lparr>b_writing_pipes := add_pipe_pipe_info (b_writing_pipes prev) index,
                             b_fds := (b_fds prev)[1 := wr]\<rparr>
             in bindU (update_call call
                         (\<lambda>c. c\<lparr>cc_reading_pipes := add_pipe_pipe_info (cc_reading_pipes c) index,
                                cc_stdin := rd\<rparr>) st)
                  (\<lambda>st. Inr (0, add_pipe cmd (rd, wr), prev, st)))"

section \<open>Command strings\<close>

definition sanitize_command_string :: "string option \<Rightarrow> string option cres" where
  "sanitize_command_string command_string = trim_spaces command_string"

text \<open>The loop of \<^verbatim>\<open>remove_extra_pipes\<close>.\<close>

fun remove_extra_pipes_loop :: "string \<Rightarrow> int \<Rightarrow> string" where
  "remove_extra_pipes_loop [] found_substitutions = []"
| "remove_extra_pipes_loop (c # cs) found_substitutions =
     (if c = CHR ''('' then c # remove_extra_pipes_loop cs (found_substitutions + 1)
      else if c = CHR '')'' then c # remove_extra_pipes_loop cs (found_substitutions - 1)
      else if c = CHR ''|'' \<and> found_substitutions = 0 then []
      else c # remove_extra_pipes_loop cs found_substitutions)"

definition remove_extra_pipes :: "string \<Rightarrow> string" where
  "remove_extra_pipes command_string = remove_extra_pipes_loop command_string 0"

section \<open>Closing the descriptors of a command\<close>

text \<open>
  \<^verbatim>\<open>close_unused_file_descriptors\<close> of \<^verbatim>\<open>src/internals.c\<close>: the standard descriptors of each
  call that are above 2 and belong to no pipe of the command.
\<close>

fun close_unpiped :: "(fd \<times> fd) list \<Rightarrow> int list \<Rightarrow> shell \<Rightarrow> shell" where
  "close_unpiped pipes [] st = st"
| "close_unpiped pipes (fd # fds) st =
     close_unpiped pipes fds (if fd > 2 \<and> \<not> contains2 pipes fd then sys_close fd st else st)"

definition close_unused_file_descriptors_helper :: "command \<Rightarrow> addr \<Rightarrow> shell \<Rightarrow> shell cres" where
  "close_unused_file_descriptors_helper cmd call st =
     bindU (read_call call st) (\<lambda>c.
       let fds_to_close = [-1, -1, -1];
           fds_to_close = snd (add_set fds_to_close (cc_stdin c));
           fds_to_close = snd (add_set fds_to_close (cc_stdout c));
           fds_to_close = snd (add_set fds_to_close (cc_stderr c))
       in Inr (close_unpiped (cmd_open_pipes cmd) fds_to_close st))"

fun close_calls :: "command \<Rightarrow> addr list \<Rightarrow> shell \<Rightarrow> shell cres" where
  "close_calls cmd [] st = Inr st"
| "close_calls cmd (a # as) st =
     bindU (close_unused_file_descriptors_helper cmd a st) (close_calls cmd as)"

definition close_unused_file_descriptors :: "command option \<Rightarrow> shell \<Rightarrow> shell cres" where
  "close_unused_file_descriptors cmd st =
     (case cmd of None \<Rightarrow> Inr st | Some c \<Rightarrow> close_calls c (cmd_calls c) st)"

text \<open>The loop that closes both ends of every pipe of a command.\<close>

fun close_pipes :: "(fd \<times> fd) list \<Rightarrow> shell \<Rightarrow> shell" where
  "close_pipes [] st = st"
| "close_pipes ((rd, wr) # pipes) st = close_pipes pipes (sys_close wr (sys_close rd st))"

section \<open>The store of calls\<close>

text \<open>
  The contract of a store of objects that are allocated, changed and freed by hand: a map
  from addresses to objects, and an error for every use of an address that is not live.
\<close>

locale object_store =
  fixes contents :: "'s \<Rightarrow> 'a \<Rightarrow> 'v option"
    and alloc :: "'v \<Rightarrow> 's \<Rightarrow> 'a \<times> 's"
    and read :: "'a \<Rightarrow> 's \<Rightarrow> 'v cres"
    and update :: "'a \<Rightarrow> ('v \<Rightarrow> 'v) \<Rightarrow> 's \<Rightarrow> 's cres"
    and free :: "'a \<Rightarrow> 's \<Rightarrow> 's cres"
  assumes alloc_fresh: "contents s (fst (alloc v s)) = None"
    and alloc_contents: "contents (snd (alloc v s)) = (contents s)(fst (alloc v s) \<mapsto> v)"
    and read_live: "read a s = Inr v \<longleftrightarrow> contents s a = Some v"
    and update_live: "update a f s = Inr s' \<Longrightarrow> contents s' = (contents s)(a := map_option f (contents s a))"
    and update_defined: "(\<exists>s'. update a f s = Inr s') \<longleftrightarrow> contents s a \<noteq> None"
    and free_live: "free a s = Inr s' \<Longrightarrow> contents s' = (contents s)(a := None)"
    and free_defined: "(\<exists>s'. free a s = Inr s') \<longleftrightarrow> contents s a \<noteq> None"
begin

lemma read_alloc [simp]:
  "read a (snd (alloc v s)) = Inr w \<longleftrightarrow> (if a = fst (alloc v s) then w = v else read a s = Inr w)"
  by (auto simp: read_live alloc_contents)

text \<open>A change of one object is seen at its address and nowhere else.\<close>

lemma read_update:
  assumes "update a f s = Inr s'"
  shows "read b s' = Inr w \<longleftrightarrow> (\<exists>v. read b s = Inr v \<and> w = (if b = a then f v else v))"
  using update_live [OF assms] by (auto simp: read_live)

lemma read_free: "free a s = Inr s' \<Longrightarrow> read b s' = Inr w \<longleftrightarrow> b \<noteq> a \<and> read b s = Inr w"
  using free_live [of a s s'] by (auto simp: read_live)

lemma no_double_free: "free a s = Inr s' \<Longrightarrow> free a s' \<noteq> Inr s''"
  using free_live [of a s s'] free_defined [of a s'] by auto

text \<open>The objects of a list are freed one after the other.\<close>

fun free_all :: "'a list \<Rightarrow> 's \<Rightarrow> 's cres" where
  "free_all [] s = Inr s"
| "free_all (a # as) s = bindU (free a s) (free_all as)"

lemma free_all_defined: "(\<exists>s'. free_all as s = Inr s') \<longleftrightarrow> distinct as \<and> set as \<subseteq> dom (contents s)"
proof (induction as arbitrary: s)
  case (Cons a as)
  show ?case
  proof (cases "contents s a = None")
    case True
    then have "free a s \<noteq> Inr s1" for s1 using free_defined [of a s] by auto
    then show ?thesis using True by (auto simp: bindU_eq_Inr)
  next
    case False
    then obtain s1 where f: "free a s = Inr s1" using free_defined [of a s] by auto
    then have "set as \<subseteq> dom (contents s1) \<longleftrightarrow> a \<notin> set as \<and> set as \<subseteq> dom (contents s)"
      by (auto simp: free_live subset_iff)
    then show ?thesis using Cons.IH [of s1] False by (auto simp: f)
  qed
qed simp

lemma free_all_contents: "free_all as s = Inr s' \<Longrightarrow> contents s' = contents s |` (- set as)"
proof (induction as arbitrary: s)
  case (Cons a as)
  then obtain s1 where "free a s = Inr s1" "free_all as s1 = Inr s'" by (auto simp: bindU_eq_Inr)
  then show ?case using Cons.IH [of s1] by (auto simp: free_live restrict_map_def fun_eq_iff)
qed (simp add: restrict_map_def)

end

definition calls_of :: "shell \<Rightarrow> addr \<Rightarrow> command_call option" where
  "calls_of st a = (if a < length (call_heap st) then call_heap st ! a else None)"

lemma read_call_iff: "read_call a st = Inr c \<longleftrightarrow> calls_of st a = Some c"
  by (auto simp: read_call_def calls_of_def split: option.splits)

interpretation calls: object_store calls_of alloc_call read_call update_call "\<lambda>a. destroy_command_call (Some a)"
proof
  fix st st' :: shell and a :: addr and c :: command_call and f :: "command_call \<Rightarrow> command_call"
  show "calls_of st (fst (alloc_call c st)) = None"
    "calls_of (snd (alloc_call c st)) = (calls_of st)(fst (alloc_call c st) \<mapsto> c)"
    by (auto simp: alloc_call_def calls_of_def nth_append fun_eq_iff)
  show "read_call a st = Inr c \<longleftrightarrow> calls_of st a = Some c" by (rule read_call_iff)
  show "calls_of st' = (calls_of st)(a := map_option f (calls_of st a))" if "update_call a f st = Inr st'"
    using that by (auto simp: update_call_def bindU_eq_Inr read_call_iff calls_of_def fun_eq_iff split: if_splits)
  show "calls_of st' = (calls_of st)(a := None)" if "destroy_command_call (Some a) st = Inr st'"
    using that by (auto simp: destroy_command_call_def bindU_eq_Inr calls_of_def fun_eq_iff)
  show "(\<exists>st'. update_call a f st = Inr st') \<longleftrightarrow> calls_of st a \<noteq> None"
    "(\<exists>st'. destroy_command_call (Some a) st = Inr st') \<longleftrightarrow> calls_of st a \<noteq> None"
    by (auto simp: update_call_def destroy_command_call_def bindU_eq_Inr read_call_iff)
qed

lemma destroy_calls_free_all: "destroy_calls as st = calls.free_all as st"
  by (induction as arbitrary: st) (simp_all cong: bindU_cong)

lemma destroy_calls_length: "destroy_calls as st = Inr st' \<Longrightarrow> length (call_heap st') = length (call_heap st)"
  by (induction as arbitrary: st) (fastforce simp: destroy_command_call_def bindU_eq_Inr)+

text \<open>Reading an address is a use after free exactly where an object has been.\<close>

lemma read_call_cases:
  "read_call a st = (if a < length (call_heap st)
     then case calls_of st a of None \<Rightarrow> Inl Use_After_Free | Some c \<Rightarrow> Inr c else Inl Out_Of_Bounds)"
  by (simp add: read_call_def calls_of_def)

section \<open>Properties\<close>

text \<open>
  C19. \<^verbatim>\<open>destroy_command\<close> can be called exactly when every call of the command is live and
  listed once; then it frees these and leaves every other call as it is. Reading, changing
  or freeing one of them afterwards is a use after free.
\<close>

theorem destroy_command_exact:
  "((\<exists>st'. destroy_command (Some cmd) st = Inr st') \<longleftrightarrow>
      distinct (cmd_calls cmd) \<and> (\<forall>a \<in> set (cmd_calls cmd). \<exists>c. read_call a st = Inr c)) \<and>
   (\<forall>st'. destroy_command (Some cmd) st = Inr st' \<longrightarrow>
      (\<forall>a. read_call a st' = (if a \<in> set (cmd_calls cmd) then Inl Use_After_Free else read_call a st)) \<and>
      (\<forall>a f. a \<in> set (cmd_calls cmd) \<longrightarrow> update_call a f st' = Inl Use_After_Free \<and>
                                        destroy_command_call (Some a) st' = Inl Use_After_Free))"
proof (intro conjI allI impI)
  let ?as = "cmd_calls cmd"
  show "(\<exists>st'. destroy_command (Some cmd) st = Inr st') \<longleftrightarrow>
      distinct ?as \<and> (\<forall>a \<in> set ?as. \<exists>c. read_call a st = Inr c)"
    using calls.free_all_defined [of ?as st]
    by (auto simp: destroy_command_def destroy_calls_free_all read_call_iff subset_iff dom_def)
  fix st' a and f :: "command_call \<Rightarrow> command_call" assume d: "destroy_command (Some cmd) st = Inr st'"
  then have c: "calls_of st' = calls_of st |` (- set ?as)" and l: "length (call_heap st') = length (call_heap st)"
    using calls.free_all_contents [of ?as st st'] destroy_calls_length [of ?as st st']
    by (simp_all add: destroy_command_def destroy_calls_free_all)
  have live: "a < length (call_heap st)" if "a \<in> set ?as"
    using calls.free_all_defined [of ?as st] d that
    by (auto simp: destroy_command_def destroy_calls_free_all calls_of_def dom_def split: if_splits)
  show r: "read_call a st' = (if a \<in> set ?as then Inl Use_After_Free else read_call a st)"
    using c l live by (simp add: read_call_cases)
  then show "update_call a f st' = Inl Use_After_Free" "destroy_command_call (Some a) st' = Inl Use_After_Free"
    if "a \<in> set ?as" using that by (simp_all add: update_call_def destroy_command_call_def)
qed

text \<open>Two calls of which one belongs to the command; and the command that lists it twice.\<close>

definition two_calls :: shell where
  "two_calls = snd (alloc_call (new_command_call 1 [''wc''] ''wc'')
                 (snd (alloc_call (new_command_call 1 [''ls''] ''ls'') initial_shell)))"

lemma destroy_command_exact_witness:
  "\<exists>st'. destroy_command (Some (new_command [0] [] ''ls'')) two_calls = Inr st' \<and>
     read_call 0 st' = Inl Use_After_Free \<and> destroy_command_call (Some 0) st' = Inl Use_After_Free \<and>
     read_call 1 st' = Inr (new_command_call 1 [''wc''] ''wc'') \<and>
     (\<forall>st'. destroy_command (Some (new_command [0, 0] [] ''ls'')) two_calls \<noteq> Inr st')"
proof -
  have r: "read_call 0 two_calls = Inr (new_command_call 1 [''ls''] ''ls'')"
    "read_call 1 two_calls = Inr (new_command_call 1 [''wc''] ''wc'')"
    by (simp_all add: two_calls_def alloc_call_def read_call_def initial_shell_def)
  then obtain st' where d: "destroy_command (Some (new_command [0] [] ''ls'')) two_calls = Inr st'"
    using destroy_command_exact [of "new_command [0] [] ''ls''" two_calls] by (auto simp: new_command_def)
  then have "\<forall>a. read_call a st' = (if a \<in> {0} then Inl Use_After_Free else read_call a two_calls)"
    "destroy_command_call (Some 0) st' = Inl Use_After_Free"
    using destroy_command_exact [of "new_command [0] [] ''ls''" two_calls] by (auto simp: new_command_def)
  moreover have "destroy_command (Some (new_command [0, 0] [] ''ls'')) two_calls \<noteq> Inr st'" for st'
    using destroy_command_exact [of "new_command [0, 0] [] ''ls''" two_calls] by (auto simp: new_command_def)
  ultimately show ?thesis using d r by auto
qed

end
