(* ===== verification/Parser.thy ===== *)
theory Parser
  imports Command
begin

text \<open>
  The parser of the command language (\<^verbatim>\<open>src/command.c\<close>): \<^verbatim>\<open>parse_command_call\<close>, which
  calls itself on the rest of a pipeline and, through \<^verbatim>\<open>parse_command_substitution\<close>, on the
  inside of a substitution; \<^verbatim>\<open>parse_command\<close>; and \<^verbatim>\<open>parse_read_line\<close>.
\<close>

section \<open>Substitutions\<close>

text \<open>
  The loop that looks for the end of a substitution: \<open>i\<close> and \<open>starts_found\<close> when it
  leaves, at the closing token or at the end of the array.
\<close>

fun scan_substitution :: "string list \<Rightarrow> nat \<Rightarrow> nat \<Rightarrow> nat \<times> nat" where
  "scan_substitution [] i starts_found = (i, starts_found)"
| "scan_substitution (t # ts) i starts_found =
     (let starts_found = (if t = COMMAND_SUBSTITUTION_START then starts_found + 1 else starts_found)
      in if t = COMMAND_SUBSTITUTION_END
         then if starts_found = 0 then (i, starts_found)
              else scan_substitution ts (i + 1) (starts_found - 1)
         else scan_substitution ts (i + 1) starts_found)"

text \<open>
  What \<^verbatim>\<open>parse_command_substitution\<close> does once the inner call is parsed; \<open>l\<close> is
  \<^verbatim>\<open>last_parsed_command_call_substitution\<close>. When that call redirects its output, the inner
  call is destroyed and then its descriptors are read.
\<close>

definition finish_substitution ::
  "command_call_builder \<Rightarrow> nat \<Rightarrow> nat \<Rightarrow> fd \<times> fd \<Rightarrow> addr option \<Rightarrow> command \<Rightarrow> shell \<Rightarrow>
     ((nat \<times> string) option \<times> command_call_builder \<times> command \<times> shell) cres" where
  "finish_substitution builder i pipe_pos p call cmd st =
     (case last_parsed_command_call_substitution st of
        None \<Rightarrow> Inr (None, builder, cmd, st)
      | Some l \<Rightarrow>
          (case call of
             None \<Rightarrow> Inr (None, builder, cmd, st)
           | Some a \<Rightarrow>
               bindU (read_call l st) (\<lambda>last.
                 if cc_stdout last \<noteq> STDOUT_FILENO
                 then bindU (destroy_command_call call st) (\<lambda>st.
                      bindU (read_call a st) (\<lambda>c.
                        let st = close_unused_file_descriptors_from_array
                                   (Some [cc_stdin c, cc_stdout c, cc_stderr c]) st
                        in Inr (None, builder, cmd,
                                dprintf STDERR_FILENO (''jsh: parse error'' @ nl) st)))
                 else bindU (update_call l (\<lambda>c. c\<lparr>cc_stdout := snd p\<rparr>) st) (\<lambda>st.
                      let dev_file = ''/dev/fd/'' @ show_int (fst p)
                      in bindU (update_dependencies builder l pipe_pos st) (\<lambda>(builder, st).
                           let st = st\<lparr>last_parsed_command_call_substitution := None\<rparr>
                           in Inr (Some (i, dev_file), builder,
                                   add_call_at_the_end cmd (Some a), st))))))"

section \<open>Command calls\<close>

text \<open>The errors that leave the loop over the tokens.\<close>

definition parse_error :: "string \<Rightarrow> shell \<Rightarrow> shell" where
  "parse_error loc st = dprintf STDERR_FILENO (''jsh: parse error'' @ loc @ nl) st"

text \<open>
  What \<^verbatim>\<open>parse_command_call\<close> does after the loop with the tokens that are not null, which
  are the arguments. The label \<^verbatim>\<open>error\<close> closes what the builder holds.
\<close>

definition finish_call ::
  "bool \<Rightarrow> bool \<Rightarrow> string \<Rightarrow> string list \<Rightarrow> command_call_builder \<Rightarrow> command \<Rightarrow> shell \<Rightarrow>
     (addr option \<times> command \<times> shell) cres" where
  "finish_call inside_substitution inside_pipeline command_string args builder cmd st =
     (if inside_pipeline \<and> b_fds builder ! 0 \<noteq> UNINITIALIZED_FD
      then Inr (None, cmd, close_unused_file_descriptors_from_array (Some (b_fds builder))
                             (parse_error [] st))
      else if inside_pipeline \<and>
              \<not> (last_parsed_command_call st = None \<or>
                  last_parsed_command_call_substitution st = None) \<and>
              b_fds builder ! 1 \<noteq> UNINITIALIZED_FD
      then Inr (None, cmd, close_unused_file_descriptors_from_array (Some (b_fds builder))
                             (parse_error [] st))
      else bindU (sanitize_command_string (Some command_string)) (\<lambda>trimmed.
           case trimmed of
             None \<Rightarrow> Inr (None, cmd, st)
           | Some trimmed_command_string \<Rightarrow>
               let (call, st) = build_command builder (length args) args
                                  (remove_extra_pipes trimmed_command_string) st;
                   st = (if last_parsed_command_call st = None \<and> \<not> inside_substitution
                         then st\<lparr>last_parsed_command_call := Some call\<rparr> else st);
                   st = (if last_parsed_command_call_substitution st = None \<and> inside_substitution
                         then st\<lparr>last_parsed_command_call_substitution := Some call\<rparr> else st)
               in Inr (Some call, cmd, st)))"

text \<open>The size of an array of tokens, for the termination of the parser.\<close>

definition tokens_size :: "string list \<Rightarrow> nat" where
  "tokens_size ts = sum_list (map (\<lambda>t. length t + 1) ts)"

lemma tokens_size_simps [simp]:
  "tokens_size [] = 0" "tokens_size (t # ts) = length t + 1 + tokens_size ts"
  by (simp_all add: tokens_size_def)

lemma tokens_size_append [simp]: "tokens_size (ts @ us) = tokens_size ts + tokens_size us"
  by (simp add: tokens_size_def)

lemma tokens_size_drop: "tokens_size (drop n ts) \<le> tokens_size ts"
  by (metis append_take_drop_id le_add2 tokens_size_append)

lemma tokens_size_words_aux:
  "tokens_size (words s [c]) \<le> length s + (if s = [] \<or> hd s = c then 0 else 1)"
proof (induction s rule: length_induct)
  case (1 s)
  show ?case
  proof (cases s)
    case (Cons x xs)
    let ?w = "takeWhile (\<lambda>y. y \<noteq> c) xs" and ?r = "dropWhile (\<lambda>y. y \<noteq> c) xs"
    have len: "length ?w + length ?r = length xs"
      by (metis length_append takeWhile_dropWhile_id)
    have r: "?r = [] \<or> hd ?r = c"
      using hd_dropWhile [of "\<lambda>y. y \<noteq> c" xs] by auto
    have "tokens_size (words xs [c]) \<le> length xs + 1"
      using "1.IH" [rule_format, of xs] Cons by (auto split: if_splits)
    moreover have "tokens_size (words ?r [c]) \<le> length ?r"
      using "1.IH" [rule_format, of ?r] Cons len r by auto
    ultimately show ?thesis using Cons len by (auto simp: words_single_Cons)
  qed simp
qed

lemma tokens_size_words: "tokens_size (words s [c]) \<le> length s + 1"
  using tokens_size_words_aux [of s c] by (simp split: if_splits)

lemma length_join:
  "join_strings ts [c] = Inr j \<Longrightarrow> ts \<noteq> [] \<Longrightarrow> length (cstr_text j) + 1 = tokens_size ts"
proof (induction ts arbitrary: j)
  case (Cons t ts)
  then show ?case by (cases ts) (auto simp: join_strings_intercalate)
qed simp

lemma scan_substitution_le:
  "scan_substitution ts i n = (k, m) \<Longrightarrow> i \<le> k \<and> k \<le> i + length ts"
  by (induction ts i n rule: scan_substitution.induct) (fastforce simp: Let_def split: if_splits)+

lemma scan_substitution_end:
  "scan_substitution ts i n = (k, m) \<Longrightarrow> k < i + length ts \<Longrightarrow>
     i \<le> k \<and> ts ! (k - i) = COMMAND_SUBSTITUTION_END"
proof (induction ts i n rule: scan_substitution.induct)
  case (2 t ts i n)
  show ?case
  proof (cases "t = '')'' \<and> n = 0")
    case True
    with "2.prems" show ?thesis by simp
  next
    case False
    then obtain n' where "scan_substitution ts (i + 1) n' = (k, m)"
      and "i + 1 \<le> k \<and> ts ! (k - (i + 1)) = COMMAND_SUBSTITUTION_END"
      using 2 by (auto simp: Let_def split: if_splits)
    moreover then have "k - i = Suc (k - (i + 1))" by linarith
    ultimately show ?thesis by simp
  qed
qed simp

lemma tokens_size_take:
  assumes "scan_substitution ts 0 0 = (i, n)" and "i \<noteq> length ts"
    and "join_strings (take i ts) [c] = Inr j"
  shows "length (cstr_text j) + 1 < tokens_size ts"
proof -
  have i: "i \<le> length ts" using scan_substitution_le [OF assms(1)] by simp
  then have e: "ts ! i = '')''" using scan_substitution_end [OF assms(1)] assms(2) by simp
  have "ts = take i ts @ ts ! i # drop (Suc i) ts" using i assms(2) by (intro id_take_nth_drop) simp
  then have "tokens_size ts = tokens_size (take i ts) + (2 + tokens_size (drop (Suc i) ts))"
    using e by (metis (no_types, lifting) One_nat_def Suc_1 length_Cons list.size(3) plus_1_eq_Suc
        tokens_size_append tokens_size_simps(2) add.commute)
  moreover have "length (cstr_text j) + 1 \<le> tokens_size (take i ts) + 1"
    using length_join [OF assms(3)] assms(3) by (cases "take i ts = []") (auto simp: join_strings_def)
  ultimately show ?thesis by simp
qed

function (sequential)
  parse_command_call :: "os \<Rightarrow> command \<Rightarrow> string \<Rightarrow> bool \<Rightarrow> bool \<Rightarrow> shell \<Rightarrow>
    (addr option \<times> command \<times> shell) cres"
and parse_tokens :: "os \<Rightarrow> bool \<Rightarrow> nat \<Rightarrow> string list \<Rightarrow> string list \<Rightarrow> command_call_builder \<Rightarrow>
    command \<Rightarrow> shell \<Rightarrow> (bool \<times> string list \<times> command_call_builder \<times> command \<times> shell) cres"
and parse_command_substitution :: "os \<Rightarrow> command \<Rightarrow> command_call_builder \<Rightarrow> string list \<Rightarrow> shell \<Rightarrow>
    ((nat \<times> string) option \<times> command_call_builder \<times> command \<times> shell) cres"
where
  "parse_command_call OS cmd command_string inside_substitution inside_pipeline st =
     bindU (split_string command_string COMMAND_SEPARATOR) (\<lambda>parsed_command_string.
       case parsed_command_string of
         None \<Rightarrow> Inr (None, cmd, st)
       | Some tokens \<Rightarrow>
           bindU (parse_tokens OS inside_substitution 0 [] tokens new_command_call_builder cmd st)
             (\<lambda>(ok, args, builder, cmd, st).
                if \<not> ok
                then Inr (None, cmd,
                          close_unused_file_descriptors_from_array (Some (b_fds builder)) st)
                else finish_call inside_substitution inside_pipeline command_string args builder cmd st))"

| "parse_tokens OS inside_substitution index args [] builder cmd st =
     Inr (True, args, builder, cmd, st)"
| "parse_tokens OS inside_substitution index args (t # rest) builder cmd st =
     (if \<not> contains_string redirection_caret_symbols t
      then parse_tokens OS inside_substitution (index + 1) (args @ [t]) rest builder cmd st
      else if rest = [] \<or> index = 0
      then Inr (False, args, builder, cmd, parse_error [] st)
      else if contains_string redirection_caret_symbols (hd rest)
      then Inr (False, args, builder, cmd, parse_error ('' near '' @ t) st)
      else if t = COMMAND_SUBSTITUTION_START
      then bindU (parse_command_substitution OS cmd builder rest st) (\<lambda>(r, builder, cmd, st).
             case r of
               None \<Rightarrow> Inr (False, args, builder, cmd, parse_error '' near (null)'' st)
             | Some (i, dev_file) \<Rightarrow>
                 parse_tokens OS inside_substitution (index + i + 2) (args @ [dev_file])
                   (drop (i + 1) rest) builder cmd st)
      else if t = PIPE_SYMBOL
      then if b_fds builder ! 1 \<noteq> UNINITIALIZED_FD
           then Inr (False, args, builder, cmd, parse_error ('' near '' @ t) st)
           else bindU (join_strings rest '' '') (\<lambda>joined.
                bindU (parse_command_call OS cmd (cstr_text joined) inside_substitution True st)
                  (\<lambda>(pipped_command_call, cmd, st).
                bindU (c_free joined) (\<lambda>_.
                  case pipped_command_call of
                    None \<Rightarrow> Inr (False, args, builder, cmd, parse_error ('' near '' @ t) st)
                  | Some call \<Rightarrow>
                      bindU (link_pipelines OS cmd builder call st) (\<lambda>(status, cmd, builder, st).
                        if status = -1
                        then Inr (False, args, builder, cmd, parse_error ('' near '' @ t) st)
                        else let cmd = (if last_parsed_command_call st \<noteq> Some call \<or>
                                           inside_substitution
                                        then add_call_at_the_end cmd (Some call) else cmd)
                             in Inr (True, args, builder, cmd, st)))))
      else let (status, fds, st) = parse_redirections OS (b_fds builder) t (hd rest) st;
               builder = builder\<lparr>b_fds := fds\<rparr>
           in if status < 0 then Inr (False, args, builder, cmd, st)
              else parse_tokens OS inside_substitution (index + 2) args (tl rest) builder cmd st)"

| "parse_command_substitution OS cmd builder tokens st =
     (let st = st\<lparr>last_parsed_command_call_substitution := None\<rparr>;
          (i, starts_found) = scan_substitution tokens 0 0
      in if i = length tokens \<or> starts_found \<noteq> 0 then Inr (None, builder, cmd, st)
         else let pipe_pos = open_pipes_size cmd;
                  (p, st) = sys_pipe OS st
              in case p of
                   None \<Rightarrow> Inr (None, builder, cmd, perror OS ''pipe'' st)
                 | Some fd \<Rightarrow>
                     let cmd = add_pipe cmd fd
                     in bindU (join_strings (take i tokens) '' '') (\<lambda>joined_command.
                        bindU (parse_command_call OS cmd (cstr_text joined_command) True False st)
                          (\<lambda>(call, cmd, st).
                        bindU (c_free joined_command) (\<lambda>_.
                          finish_substitution builder i pipe_pos fd call cmd st))))"
  by pat_completeness auto

termination
  apply (relation "measures [\<lambda>x. case x of
      Inl (OS, cmd, s, a, b, st) \<Rightarrow> length s + 1
    | Inr (Inl (OS, a, index, args, ts, builder, cmd, st)) \<Rightarrow> tokens_size ts
    | Inr (Inr (OS, cmd, builder, ts, st)) \<Rightarrow> tokens_size ts,
    \<lambda>x. case x of Inl _ \<Rightarrow> 1 | Inr _ \<Rightarrow> 0]")
         apply (simp_all add: split_string_words split: if_splits)
        subgoal for command_string using tokens_size_words [of command_string "CHR '' ''"] by auto
       subgoal for OS index t rest b cmd st x xa y xb ya xc yb r i yc
         using tokens_size_drop [of "Suc i" rest] by simp
      subgoal for index t rest b joined using length_join [of rest "CHR '' ''" joined] by simp
     subgoal for OS index t rest using tokens_size_drop [of 1 rest] by (simp add: drop_Suc)
    subgoal for OS cmd tokens st x xa i xaa xab xc ya x2 xd joined
      using tokens_size_take [of tokens i 0 "CHR '' ''" joined] by simp
  done

declare parse_command_call.simps [simp del] parse_tokens.simps [simp del]
  parse_command_substitution.simps [simp del]

section \<open>Commands\<close>

text \<open>The label \<^verbatim>\<open>error\<close> of \<^verbatim>\<open>parse_command\<close>.\<close>

definition parse_command_error :: "command \<Rightarrow> shell \<Rightarrow> (command option \<times> shell) cres" where
  "parse_command_error cmd st =
     bindU (close_unused_file_descriptors (Some cmd) st) (\<lambda>st.
     let st = close_pipes (cmd_open_pipes cmd) st
     in bindU (destroy_command (Some cmd) st) (\<lambda>st. Inr (None, st)))"

definition parse_command :: "os \<Rightarrow> string \<Rightarrow> shell \<Rightarrow> (command option \<times> shell) cres" where
  "parse_command OS command_string st =
     bindU (new_empty_command (Some command_string)) (\<lambda>new.
       case new of
         None \<Rightarrow> Inr (None, st)
       | Some cmd \<Rightarrow>
           bindU (sanitize_command_string (Some command_string)) (\<lambda>sanitized_command_string.
             case sanitized_command_string of
               None \<Rightarrow> bindU (destroy_command (Some cmd) st) (\<lambda>st. Inr (None, st))
             | Some s \<Rightarrow>
                 let cmd = cmd\<lparr>cmd_string := Some s\<rparr>;
                     st = st\<lparr>last_parsed_command_call := None\<rparr>
                 in bindU (parse_command_call OS cmd command_string False False st)
                      (\<lambda>(call, cmd, st).
                    case call of
                      None \<Rightarrow>
                        parse_command_error
                          (add_call_at_the_end cmd (last_parsed_command_call st)) st
                    | Some a \<Rightarrow>
                        (if last_parsed_command_call st = None
                         then parse_command_error (add_call_at_the_end cmd (Some a)) st
                         else let cmd = (if last_parsed_command_call st \<noteq> Some a
                                         then add_call_at_the_end cmd (Some a) else cmd);
                                  cmd = add_call_at_the_beginning cmd (last_parsed_command_call st)
                              in Inr (Some cmd, st\<lparr>last_parsed_command_call := None\<rparr>)))))"

section \<open>Lines\<close>

text \<open>
  The loop of \<^verbatim>\<open>parse_read_line\<close> over the pieces from \<open>index\<close> on: the commands, and the flags
  \<open>abort\<close> and \<open>trim_last\<close>.
\<close>

fun parse_pieces ::
  "os \<Rightarrow> int \<Rightarrow> nat \<Rightarrow> string list \<Rightarrow> bool \<Rightarrow> shell \<Rightarrow>
     (command option list \<times> bool \<times> bool \<times> shell) cres" where
  "parse_pieces OS last_background index [] abort st = Inr ([], abort, False, st)"
| "parse_pieces OS last_background index (piece # pieces) abort st =
     (if abort
      then bindU (parse_pieces OS last_background (index + 1) pieces True st)
             (\<lambda>(commands, abort, trim_last, st). Inr (None # commands, abort, trim_last, st))
      else bindU (parse_command OS piece st) (\<lambda>(cmd, st).
             case cmd of
               None \<Rightarrow>
                 (let st = st\<lparr>last_exit_code := 1\<rparr>
                  in if pieces = [] then Inr ([None], False, True, st)
                     else bindU (parse_pieces OS last_background (index + 1) pieces True st)
                            (\<lambda>(commands, abort, trim_last, st).
                               Inr (None # commands, abort, trim_last, st)))
             | Some c \<Rightarrow>
                 (let c = (if int index \<le> last_background then c\<lparr>cmd_background := True\<rparr> else c)
                  in bindU (parse_pieces OS last_background (index + 1) pieces False st)
                       (\<lambda>(commands, abort, trim_last, st).
                          Inr (Some c # commands, abort, trim_last, st)))))"

text \<open>
  The commands of a line. On the way out of \<^verbatim>\<open>abort\<close> only the \<^verbatim>\<open>command\<close> structs are freed:
  their calls and descriptors stay.
\<close>

definition parse_read_line :: "os \<Rightarrow> string \<Rightarrow> shell \<Rightarrow> (command option list option \<times> shell) cres" where
  "parse_read_line OS command_string st =
     (if starts_with command_string BACKGROUND_FLAG then Inr (None, st)
      else bindU (split_string_keep_trace command_string BACKGROUND_FLAG)
             (\<lambda>(bg_flag_parsed, last_background_command_index).
             case bg_flag_parsed of
               None \<Rightarrow> Inr (None, st)
             | Some pieces \<Rightarrow>
                 bindU (parse_pieces OS last_background_command_index 0 pieces False st)
                   (\<lambda>(commands, abort, trim_last, st).
                      if abort then Inr (None, st)
                      else if \<not> trim_last then Inr (Some commands, st)
                      else if length pieces = 1 then Inr (None, st)
                      else Inr (Some (take (length pieces - 1) commands), st))))"

end
