(* ===== verification/Jobs.thy ===== *)
theory Jobs
  imports Shell_State String_Utils
begin

unbundle bit_operations_syntax

text \<open>
  The jobs of the shell (\<^verbatim>\<open>src/jobs.c\<close>): the statuses of processes and jobs, the job
  table, waiting for jobs, and moving a job to the foreground or the background. The
  \<^verbatim>\<open>jobs\<close> command itself is in theory \<open>Jobs_Command\<close>. A job is a value that its owner
  passes along: a slot of the table, or the function that is running the job.
\<close>

section \<open>Statuses\<close>

definition job_status_to_string :: "job_status \<Rightarrow> string" where
  "job_status_to_string status =
     (case status of
        RUNNING \<Rightarrow> ''Running''
      | STOPPED \<Rightarrow> ''Stopped''
      | DONE \<Rightarrow> ''Done''
      | KILLED \<Rightarrow> ''Killed''
      | DETACHED \<Rightarrow> ''Detached'')"

text \<open>The macros of \<^verbatim>\<open><sys/wait.h>\<close> that decode the status word of \<^verbatim>\<open>waitpid\<close>.\<close>

definition WIFEXITED :: "32 word \<Rightarrow> bool" where
  "WIFEXITED status \<longleftrightarrow> status AND 0x7f = 0"

definition WEXITSTATUS :: "32 word \<Rightarrow> int" where
  "WEXITSTATUS status = uint (drop_bit 8 (status AND 0xff00))"

definition WIFSTOPPED :: "32 word \<Rightarrow> bool" where
  "WIFSTOPPED status \<longleftrightarrow> status AND 0xff = 0x7f"

definition WIFCONTINUED :: "32 word \<Rightarrow> bool" where
  "WIFCONTINUED status \<longleftrightarrow> status = 0xffff"

definition WIFSIGNALED :: "32 word \<Rightarrow> bool" where
  "WIFSIGNALED status \<longleftrightarrow> sint (ucast ((status AND 0x7f) + 1) :: 8 word) div 2 > 0"

definition job_status_from_int :: "32 word \<Rightarrow> job_status" where
  "job_status_from_int status =
     (if WIFEXITED status then DONE
      else if WIFSTOPPED status then STOPPED
      else if WIFCONTINUED status then RUNNING
      else if WIFSIGNALED status then KILLED
      else RUNNING)"

section \<open>Jobs\<close>

definition new_subjob :: "command_call \<Rightarrow> pid \<Rightarrow> job_status \<Rightarrow> subjob" where
  "new_subjob call p status =
     \<lparr>sj_command = cc_command_string call, sj_pid = p, sj_last_status = status\<rparr>"

definition new_job :: "nat \<Rightarrow> string \<Rightarrow> job" where
  "new_job count command_string =
     \<lparr>job_id = 0, job_status = RUNNING, job_pgid = 0,
      job_command_string = command_string, job_subjobs = replicate count None\<rparr>"

definition print_subjob :: "subjob \<Rightarrow> fd \<Rightarrow> shell \<Rightarrow> shell" where
  "print_subjob j fd =
     dprintf fd (tab @ show_int (sj_pid j) @ tab @ job_status_to_string (sj_last_status j) @ tab @
                 sj_command j @ nl)"

definition print_job :: "job \<Rightarrow> fd \<Rightarrow> shell \<Rightarrow> shell" where
  "print_job j fd =
     dprintf fd (''['' @ show_nat (job_id j) @ '']'' @ tab @ show_int (job_pgid j) @ tab @
                 job_status_to_string (job_status j) @ tab @ job_command_string j @ nl)"

text \<open>The loops over the subjobs skip null entries and leave at the first hit.\<close>

fun any_subjob :: "(job_status \<Rightarrow> bool) \<Rightarrow> subjob option list \<Rightarrow> bool" where
  "any_subjob P [] = False"
| "any_subjob P (None # subjobs) = any_subjob P subjobs"
| "any_subjob P (Some s # subjobs) = (if P (sj_last_status s) then True else any_subjob P subjobs)"

fun is_job_alive :: "job option \<Rightarrow> bool" where
  "is_job_alive None = False"
| "is_job_alive (Some j) = any_subjob (\<lambda>s. s = RUNNING \<or> s = STOPPED) (job_subjobs j)"

definition is_finished_status :: "job_status \<Rightarrow> bool" where
  "is_finished_status status \<longleftrightarrow> status = DONE \<or> status = KILLED \<or> status = DETACHED"

fun is_job_finished :: "job option \<Rightarrow> bool" where
  "is_job_finished None = True"
| "is_job_finished (Some j) = (\<not> any_subjob (\<lambda>s. \<not> is_finished_status s) (job_subjobs j))"

fun is_job_killed :: "job option \<Rightarrow> bool" where
  "is_job_killed None = False"
| "is_job_killed (Some j) =
     (if \<not> is_job_finished (Some j) then False else any_subjob (\<lambda>s. s = KILLED) (job_subjobs j))"

fun is_job_suspended :: "job option \<Rightarrow> bool" where
  "is_job_suspended None = False"
| "is_job_suspended (Some j) =
     (if is_job_finished (Some j) then False else \<not> any_subjob (\<lambda>s. s = RUNNING) (job_subjobs j))"

fun is_job_running :: "job option \<Rightarrow> bool" where
  "is_job_running None = False"
| "is_job_running (Some j) = any_subjob (\<lambda>s. s = RUNNING) (job_subjobs j)"

definition update_job_status :: "os \<Rightarrow> job \<Rightarrow> shell \<Rightarrow> job \<times> shell" where
  "update_job_status OS j st =
     (if is_job_running (Some j) then (j\<lparr>job_status := RUNNING\<rparr>, st)
      else if is_job_suspended (Some j) then (j\<lparr>job_status := STOPPED\<rparr>, st)
      else if is_job_finished (Some j)
      then let (r, st) = sys_kill OS (- job_pgid j) 0 st
           in if r = 0 then (j\<lparr>job_status := DETACHED\<rparr>, st)
              else if is_job_killed (Some j) then (j\<lparr>job_status := KILLED\<rparr>, st)
              else (j\<lparr>job_status := DONE\<rparr>, st)
      else (j\<lparr>job_status := RUNNING\<rparr>, st))"

section \<open>Waiting\<close>

text \<open>\<^verbatim>\<open>*last_status\<close> is passed in and returned.\<close>

definition process_waitpid_response ::
  "os \<Rightarrow> pid \<Rightarrow> 32 word \<Rightarrow> job_status \<Rightarrow> shell \<Rightarrow> int \<times> job_status \<times> shell" where
  "process_waitpid_response OS p status last_status st =
     (if p = -1 then (-1, last_status, perror OS ''waitpid'' st)
      else if p = 0 then (0, last_status, st)
      else (0, job_status_from_int status, st))"

text \<open>
  The loop of \<^verbatim>\<open>wait_for_job\<close>. An error leaves the loop; the subjobs already visited
  keep their new statuses.
\<close>

fun wait_loop :: "os \<Rightarrow> subjob option list \<Rightarrow> shell \<Rightarrow> int \<times> subjob option list \<times> shell" where
  "wait_loop OS [] st = (0, [], st)"
| "wait_loop OS (None # subjobs) st =
     (let (r, subjobs', st) = wait_loop OS subjobs st in (r, None # subjobs', st))"
| "wait_loop OS (Some s # subjobs) st =
     (if is_finished_status (sj_last_status s)
      then let (r, subjobs', st) = wait_loop OS subjobs st in (r, Some s # subjobs', st)
      else let ((p, status), st) = sys_waitpid OS (sj_pid s) [WNOHANG, WUNTRACED, WCONTINUED] st;
               (r, last_status, st) =
                 process_waitpid_response OS p status (sj_last_status s) st;
               s' = s\<lparr>sj_last_status := last_status\<rparr>
           in if r = -1 then (-1, Some s' # subjobs, st)
              else let (r, subjobs', st) = wait_loop OS subjobs st in (r, Some s' # subjobs', st))"

definition wait_for_job :: "os \<Rightarrow> job \<Rightarrow> shell \<Rightarrow> int \<times> job \<times> shell" where
  "wait_for_job OS j st =
     (let (r, subjobs', st) = wait_loop OS (job_subjobs j) st;
          j' = j\<lparr>job_subjobs := subjobs'\<rparr>
      in if r = -1 then (-1, j', st)
         else let (j'', st) = update_job_status OS j' st in (0, j'', st))"

text \<open>
  The loop of \<^verbatim>\<open>blocking_wait_for_job\<close> from index \<open>i\<close>; only the first subjob sets the
  exit status. \<^const>\<open>None\<close> is the early return of -1.
\<close>

fun blocking_wait_loop ::
  "os \<Rightarrow> nat \<Rightarrow> subjob option list \<Rightarrow> int \<Rightarrow> shell \<Rightarrow> int option \<times> subjob option list \<times> shell" where
  "blocking_wait_loop OS i [] exit_status st = (Some exit_status, [], st)"
| "blocking_wait_loop OS i (None # subjobs) exit_status st =
     (let (r, subjobs', st) = blocking_wait_loop OS (i + 1) subjobs exit_status st
      in (r, None # subjobs', st))"
| "blocking_wait_loop OS i (Some s # subjobs) exit_status st =
     (if is_finished_status (sj_last_status s)
      then let (r, subjobs', st) = blocking_wait_loop OS (i + 1) subjobs exit_status st
           in (r, Some s # subjobs', st)
      else let ((p, status), st) = sys_waitpid OS (sj_pid s) [WUNTRACED] st;
               (r, last_status, st) =
                 process_waitpid_response OS p status (sj_last_status s) st;
               s' = s\<lparr>sj_last_status := last_status\<rparr>
           in if r = -1 then (None, Some s' # subjobs, st)
              else let exit_status' =
                         (if i = 0 \<and> last_status \<noteq> RUNNING \<and> last_status \<noteq> STOPPED
                          then WEXITSTATUS status else exit_status);
                       (r, subjobs', st) = blocking_wait_loop OS (i + 1) subjobs exit_status' st
                   in (r, Some s' # subjobs', st))"

definition blocking_wait_for_job :: "os \<Rightarrow> job \<Rightarrow> shell \<Rightarrow> int \<times> job \<times> shell" where
  "blocking_wait_for_job OS j st =
     (let (r, subjobs', st) = blocking_wait_loop OS 0 (job_subjobs j) 0 st;
          j' = j\<lparr>job_subjobs := subjobs'\<rparr>
      in case r of
           None \<Rightarrow> (-1, j', st)
         | Some exit_status \<Rightarrow>
             let (j'', st) = update_job_status OS j' st in (exit_status, j'', st))"

section \<open>The job table\<close>

definition INITIAL_JOB_TABLE_CAPACITY :: nat where
  "INITIAL_JOB_TABLE_CAPACITY = 64"

definition destroy_job_table :: "shell \<Rightarrow> shell cres" where
  "destroy_job_table st =
     (case job_table_ptr st of
        Null_Table \<Rightarrow> Inr st
      | Dangling_Table \<Rightarrow> Inl Use_After_Free
      | Live_Table \<Rightarrow>
          Inr (st\<lparr>job_table := map (\<lambda>_. None) (job_table st), job_table_ptr := Dangling_Table\<rparr>))"

definition init_job_table :: "shell \<Rightarrow> shell cres" where
  "init_job_table st =
     bindU (destroy_job_table st) (\<lambda>st.
       Inr (st\<lparr>job_table := replicate INITIAL_JOB_TABLE_CAPACITY None,
               job_table_ptr := Live_Table, job_table_size := 0\<rparr>))"

text \<open>The search of \<^verbatim>\<open>add_job\<close> for the first null slot, from index \<open>i\<close>.\<close>

fun free_slot :: "job option list \<Rightarrow> nat \<Rightarrow> nat option" where
  "free_slot [] i = None"
| "free_slot (None # slots) i = Some i"
| "free_slot (Some j # slots) i = free_slot slots (i + 1)"

fun add_job :: "job option \<Rightarrow> shell \<Rightarrow> int \<times> shell" where
  "add_job None st = (-1, st)"
| "add_job (Some j) st =
     (let table = (if job_table_size st = job_table_capacity st
                   then job_table st @ replicate INITIAL_JOB_TABLE_CAPACITY None
                   else job_table st)
      in case free_slot table 0 of
           Some i \<Rightarrow> (int (i + 1),
                      st\<lparr>job_table := table[i := Some (j\<lparr>job_id := i + 1\<rparr>)],
                         job_table_size := job_table_size st + 1\<rparr>)
         | None \<Rightarrow> (-1, st\<lparr>job_table := table\<rparr>))"

definition remove_job :: "nat \<Rightarrow> shell \<Rightarrow> int \<times> shell" where
  "remove_job jid st =
     (if jid < 1 \<or> jid > job_table_capacity st \<or> job_table_size st = 0 \<or>
         job_table_ptr st = Null_Table
      then (1, st)
      else if job_table st ! (jid - 1) = None then (1, st)
      else (0, st\<lparr>job_table := (job_table st)[jid - 1 := None],
                  job_table_size := job_table_size st - 1\<rparr>))"

definition are_jobs_running :: "shell \<Rightarrow> bool" where
  "are_jobs_running st \<longleftrightarrow> list_ex is_job_alive (job_table st)"

text \<open>One round of the loop of \<^verbatim>\<open>fd_update_jobs\<close>: the slot \<open>i\<close>.\<close>

definition update_slot :: "os \<Rightarrow> fd \<Rightarrow> nat \<Rightarrow> shell \<Rightarrow> shell" where
  "update_slot OS fd i st =
     (case job_table st ! i of
        None \<Rightarrow> st
      | Some j \<Rightarrow>
          let (r, j', st) = wait_for_job OS j st;
              st = st\<lparr>job_table := (job_table st)[i := Some j']\<rparr>
          in if r = -1 then st
             else let st = (if job_status j \<noteq> job_status j' then print_job j' fd st else st)
                  in if is_job_finished (Some j') then snd (remove_job (job_id j') st) else st)"

definition fd_update_jobs :: "os \<Rightarrow> fd \<Rightarrow> shell \<Rightarrow> shell" where
  "fd_update_jobs OS fd st = fold (update_slot OS fd) [0..<job_table_capacity st] st"

definition update_jobs :: "os \<Rightarrow> shell \<Rightarrow> shell" where
  "update_jobs OS = fd_update_jobs OS STDERR_FILENO"

section \<open>Foreground, background, job numbers\<close>

definition SIGCONT :: int where "SIGCONT = 18"

text \<open>A pointer to a job of the table is the index of its slot; \<^const>\<open>None\<close> is null.\<close>

fun put_job_in_foreground :: "os \<Rightarrow> nat option \<Rightarrow> shell \<Rightarrow> int \<times> shell" where
  "put_job_in_foreground OS None st = (0, st)"
| "put_job_in_foreground OS (Some i) st =
     (let j = the (job_table st ! i);
          (r, st) = sys_tcsetpgrp OS STDERR_FILENO (job_pgid j) st
      in if r = -1 then (0, perror OS ''tcsetpgrp'' st)
         else let (r, st) = sys_kill OS (- job_pgid j) SIGCONT st
         in if r = -1 then (0, perror OS ''kill (SIGCONT)'' st)
         else let (exit_code, j, st) = blocking_wait_for_job OS j st;
                  st = st\<lparr>job_table := (job_table st)[i := Some j]\<rparr>
         in if exit_code = -1 then (0, st)
         else let st = (if is_job_finished (Some j) then snd (remove_job (job_id j) st)
                        else print_job j STDERR_FILENO st);
                  (shell_pgid, st) = sys_getpgrp OS st
         in if shell_pgid = -1 then (0, perror OS ''getpgrp'' st)
         else let (r, st) = sys_tcsetpgrp OS STDERR_FILENO shell_pgid st
         in if r = -1 then (0, perror OS ''tcsetpgrp'' st)
         else (1, st))"

fun continue_job_in_background :: "os \<Rightarrow> nat option \<Rightarrow> shell \<Rightarrow> int \<times> shell" where
  "continue_job_in_background OS None st = (0, st)"
| "continue_job_in_background OS (Some i) st =
     (let (r, st) = sys_kill OS (- job_pgid (the (job_table st ! i))) SIGCONT st
      in if r = -1 then (0, perror OS ''kill (SIGCONT)'' st) else (1, st))"

definition get_job :: "string \<Rightarrow> fd \<Rightarrow> shell \<Rightarrow> nat option \<times> shell" where
  "get_job job_id_string error_fd st =
     (if \<not> starts_with job_id_string ''%''
      then (None, dprintf error_fd (''invalid job id (missing %)'' @ nl) st)
      else case parse_intmax_t (drop 1 job_id_string) of
        Inl msg \<Rightarrow> (None, dprintf error_fd msg st)
      | Inr parsed_value \<Rightarrow>
          if parsed_value < 0
          then (None, dprintf error_fd (show_nat (to_uint64 parsed_value) @
                                        '':%job can't be negative.'' @ nl) st)
          else let jid = nat parsed_value
               in if jid < 1 \<or> jid > job_table_capacity st \<or> job_table_size st = 0 \<or>
                     job_table_ptr st = Null_Table
                  then (None, dprintf error_fd (''%'' @ show_nat jid @ '': invalid job_id.'' @ nl) st)
                  else if job_table st ! (jid - 1) = None
                  then (None, dprintf error_fd (''%'' @ show_nat jid @ '': no such job.'' @ nl) st)
                  else (Some (jid - 1), st))"

section \<open>Facts: statuses\<close>

lemma any_subjob_iff:
  "any_subjob P subjobs \<longleftrightarrow> (\<exists>s. Some s \<in> set subjobs \<and> P (sj_last_status s))"
  by (induction P subjobs rule: any_subjob.induct) auto

lemma is_finished_status_iff: "is_finished_status s \<longleftrightarrow> s \<noteq> RUNNING \<and> s \<noteq> STOPPED"
  by (cases s) (simp_all add: is_finished_status_def)

lemma is_job_alive_iff: "is_job_alive (Some j) \<longleftrightarrow> \<not> is_job_finished (Some j)"
  by (auto simp: any_subjob_iff is_finished_status_iff)

text \<open>
  The enumerators in their order in \<^verbatim>\<open>jobs.h\<close>, which is the order in which the project
  description looks at them.
\<close>

fun status_rank :: "job_status \<Rightarrow> nat" where
  "status_rank RUNNING = 0" | "status_rank STOPPED = 1" | "status_rank DETACHED = 2"
| "status_rank KILLED = 3" | "status_rank DONE = 4"

instantiation job_status :: linorder
begin

definition less_eq_job_status :: "job_status \<Rightarrow> job_status \<Rightarrow> bool" where
  "s \<le> t \<longleftrightarrow> status_rank s \<le> status_rank t"

definition less_job_status :: "job_status \<Rightarrow> job_status \<Rightarrow> bool" where
  "s < t \<longleftrightarrow> status_rank s < status_rank t"

instance
proof
  fix s t :: job_status
  show "s \<le> t \<Longrightarrow> t \<le> s \<Longrightarrow> s = t"
    by (cases s; cases t) (simp_all add: less_eq_job_status_def)
qed (auto simp: less_eq_job_status_def less_job_status_def)

end

text \<open>
  The rule the project description gives for the status of a job: the least of the statuses
  of its processes, where the process group, if it still exists, counts as detached. (No
  single process is ever detached.)
\<close>

definition specified_status :: "job_status list \<Rightarrow> bool \<Rightarrow> job_status" where
  "specified_status statuses group_exists =
     Min (insert DONE (set statuses - {DETACHED} \<union> (if group_exists then {DETACHED} else {})))"

lemma specified_status_cases:
  "specified_status statuses group_exists =
     (if RUNNING \<in> set statuses then RUNNING
      else if STOPPED \<in> set statuses then STOPPED
      else if group_exists then DETACHED
      else if KILLED \<in> set statuses then KILLED
      else DONE)"
  (is "_ = ?least")
  unfolding specified_status_def
proof (rule Min_eqI)
  fix t assume "t \<in> insert DONE (set statuses - {DETACHED} \<union> (if group_exists then {DETACHED} else {}))"
  then show "?least \<le> t" by (cases t) (auto simp: less_eq_job_status_def split: if_split_asm)
qed auto

definition subjob_statuses :: "job \<Rightarrow> job_status list" where
  "subjob_statuses j = map (\<lambda>s. sj_last_status (the s)) (filter (\<lambda>s. s \<noteq> None) (job_subjobs j))"

lemma any_subjob_statuses:
  "any_subjob P (job_subjobs j) \<longleftrightarrow> (\<exists>s \<in> set (subjob_statuses j). P s)"
proof -
  have "(\<exists>s. Some s \<in> set subjobs \<and> P (sj_last_status s)) \<longleftrightarrow>
      (\<exists>s \<in> set (map (\<lambda>s. sj_last_status (the s)) (filter (\<lambda>s. s \<noteq> None) subjobs)). P s)"
    for subjobs :: "subjob option list"
    by force
  then show ?thesis by (simp add: any_subjob_iff subjob_statuses_def)
qed

lemma update_job_status_frame:
  "update_job_status OS j st = (j', st') \<Longrightarrow>
     (\<exists>s. j' = j\<lparr>job_status := s\<rparr>) \<and> same_globals st st'"
  by (auto simp: update_job_status_def sys_kill_def Let_def split: if_splits prod.splits)

lemma update_job_status_status:
  "job_status (fst (update_job_status OS j st)) =
     specified_status (subjob_statuses j) (os_kill OS (trace st) (- job_pgid j) 0 = 0)"
proof -
  have "is_job_running (Some j) \<longleftrightarrow> RUNNING \<in> set (subjob_statuses j)"
    by (simp add: any_subjob_statuses)
  moreover have "is_job_finished (Some j) \<longleftrightarrow>
      RUNNING \<notin> set (subjob_statuses j) \<and> STOPPED \<notin> set (subjob_statuses j)"
    by (auto simp: any_subjob_statuses is_finished_status_iff)
  moreover have "is_job_suspended (Some j) \<longleftrightarrow>
      \<not> is_job_finished (Some j) \<and> RUNNING \<notin> set (subjob_statuses j)"
    by (simp add: any_subjob_statuses)
  moreover have "is_job_killed (Some j) \<longleftrightarrow> is_job_finished (Some j) \<and> KILLED \<in> set (subjob_statuses j)"
    by (simp add: any_subjob_statuses)
  ultimately show ?thesis
    by (simp add: update_job_status_def specified_status_cases sys_kill_def Let_def
        del: is_job_running.simps is_job_finished.simps is_job_suspended.simps is_job_killed.simps)
qed

section \<open>Facts: waiting\<close>

lemma process_waitpid_response_cases:
  "process_waitpid_response OS p status ls st = (r, ls', st') \<Longrightarrow>
     same_globals st st' \<and> (r = -1 \<or> r = 0) \<and> (r = -1 \<longrightarrow> p = -1 \<and> ls' = ls)"
  by (auto simp: process_waitpid_response_def split: if_splits)

lemma same_globals_sys_waitpid: "sys_waitpid OS p opts st = (r, st') \<Longrightarrow> same_globals st st'"
  by (auto simp: sys_waitpid_def Let_def split: prod.splits)

definition same_process :: "subjob option \<Rightarrow> subjob option \<Rightarrow> bool" where
  "same_process a b \<longleftrightarrow>
     (a = None \<longleftrightarrow> b = None) \<and>
     (\<forall>s t. a = Some s \<longrightarrow> b = Some t \<longrightarrow>
        sj_pid t = sj_pid s \<and> sj_command t = sj_command s \<and>
        (is_finished_status (sj_last_status s) \<longrightarrow> t = s))"

lemma same_process_refl [simp]: "same_process a a"
  by (simp add: same_process_def)

lemma same_processes_refl: "list_all2 same_process subjobs subjobs"
  by (simp add: list_all2_refl)

text \<open>
  A round of waiting touches no global but the trace, keeps every process in its place,
  never changes a finished status, and reports an error only after a failed \<^verbatim>\<open>waitpid\<close> on
  an unfinished subjob.
\<close>

lemma wait_loop_frame:
  "wait_loop OS subjobs st = (r, subjobs', st') \<Longrightarrow>
     same_globals st st' \<and> list_all2 same_process subjobs subjobs' \<and>
     (r = -1 \<longrightarrow> any_subjob (\<lambda>s. \<not> is_finished_status s) subjobs')"
proof (induction OS subjobs st arbitrary: r subjobs' st' rule: wait_loop.induct)
  case (1 OS st)
  then show ?case by simp
next
  case (2 OS subjobs st)
  then show ?case by (auto split: prod.splits)
next
  case (3 OS s subjobs st)
  show ?case
  proof (cases "is_finished_status (sj_last_status s)")
    case True
    with "3.IH"(1) "3.prems" show ?thesis by (auto split: prod.splits)
  next
    case False
    obtain p status st1 where w: "sys_waitpid OS (sj_pid s) [WNOHANG, WUNTRACED, WCONTINUED] st = ((p, status), st1)"
      by (metis surj_pair)
    obtain r2 ls st2 where pr: "process_waitpid_response OS p status (sj_last_status s) st1 = (r2, ls, st2)"
      by (metis prod_cases3)
    have g: "same_globals st st2"
      using same_globals_sys_waitpid [OF w] process_waitpid_response_cases [OF pr] same_globals_trans by blast
    have sp: "same_process (Some s) (Some (s\<lparr>sj_last_status := ls\<rparr>))"
      using False by (simp add: same_process_def)
    show ?thesis
    proof (cases "r2 = -1")
      case True
      then show ?thesis
        using "3.prems" False w pr g sp process_waitpid_response_cases [OF pr] same_processes_refl
        by auto
    next
      case r2: False
      obtain r3 sub3 st3 where l: "wait_loop OS subjobs st2 = (r3, sub3, st3)" by (metis prod_cases3)
      have "same_globals st2 st3 \<and> list_all2 same_process subjobs sub3 \<and>
          (r3 = -1 \<longrightarrow> any_subjob (\<lambda>s. \<not> is_finished_status s) sub3)"
        using "3.IH"(2) [OF False w [symmetric] _ _ pr [symmetric]] r2 l by simp
      then show ?thesis
        using "3.prems" False w pr g sp r2 l same_globals_trans by (auto simp: any_subjob_iff)
    qed
  qed
qed

text \<open>What waiting for a job keeps of it.\<close>

definition same_job :: "job \<Rightarrow> job \<Rightarrow> bool" where
  "same_job j j' \<longleftrightarrow>
     job_id j' = job_id j \<and> job_pgid j' = job_pgid j \<and>
     job_command_string j' = job_command_string j \<and>
     list_all2 same_process (job_subjobs j) (job_subjobs j')"

lemma is_job_finished_status_update [simp]:
  "is_job_finished (Some (j\<lparr>job_status := s\<rparr>)) = is_job_finished (Some j)"
  by simp

lemma wait_for_job_frame:
  assumes "wait_for_job OS j st = (r, j', st')"
  shows "same_globals st st'" and "same_job j j'" and "r = -1 \<or> r = 0"
    and "r = -1 \<Longrightarrow> \<not> is_job_finished (Some j')"
proof -
  obtain r1 sub st1 where w: "wait_loop OS (job_subjobs j) st = (r1, sub, st1)" by (metis prod_cases3)
  obtain j2 st2 where u: "update_job_status OS (j\<lparr>job_subjobs := sub\<rparr>) st1 = (j2, st2)" by fastforce
  have res: "(r, j', st') =
      (if r1 = -1 then (-1, j\<lparr>job_subjobs := sub\<rparr>, st1) else (0, j2, st2))"
    using assms w u by (simp add: wait_for_job_def Let_def split: if_splits)
  note wl = wait_loop_frame [OF w] and us = update_job_status_frame [OF u]
  have "same_globals st st2" using wl us same_globals_trans by blast
  then show "same_globals st st'" using res wl by (simp split: if_splits)
  show "same_job j j'" using res wl us by (auto simp: same_job_def split: if_splits)
  show "r = -1 \<or> r = 0" using res by (simp split: if_splits)
  show "r = -1 \<Longrightarrow> \<not> is_job_finished (Some j')" using res wl by (simp split: if_splits)
qed

lemma blocking_wait_loop_frame:
  "blocking_wait_loop OS i subjobs e st = (r, subjobs', st') \<Longrightarrow>
     same_globals st st' \<and> list_all2 same_process subjobs subjobs' \<and>
     (r = None \<longrightarrow> any_subjob (\<lambda>s. \<not> is_finished_status s) subjobs') \<and>
     (\<forall>x. r = Some x \<longrightarrow> 0 \<le> e \<longrightarrow> 0 \<le> x)"
proof (induction OS i subjobs e st arbitrary: r subjobs' st' rule: blocking_wait_loop.induct)
  case (1 OS i e st)
  then show ?case by auto
next
  case (2 OS i subjobs e st)
  then show ?case by (auto split: prod.splits)
next
  case (3 OS i s subjobs e st)
  show ?case
  proof (cases "is_finished_status (sj_last_status s)")
    case True
    with "3.IH"(1) "3.prems" show ?thesis by (auto split: prod.splits)
  next
    case False
    obtain p status st1 where w: "sys_waitpid OS (sj_pid s) [WUNTRACED] st = ((p, status), st1)"
      by (metis surj_pair)
    obtain r2 ls st2 where pr: "process_waitpid_response OS p status (sj_last_status s) st1 = (r2, ls, st2)"
      by (metis prod_cases3)
    have g: "same_globals st st2"
      using same_globals_sys_waitpid [OF w] process_waitpid_response_cases [OF pr] same_globals_trans by blast
    have sp: "same_process (Some s) (Some (s\<lparr>sj_last_status := ls\<rparr>))"
      using False by (simp add: same_process_def)
    show ?thesis
    proof (cases "r2 = -1")
      case True
      then show ?thesis
        using "3.prems" False w pr g sp process_waitpid_response_cases [OF pr] same_processes_refl
        by auto
    next
      case r2: False
      define e' where "e' = (if i = 0 \<and> ls \<noteq> RUNNING \<and> ls \<noteq> STOPPED then WEXITSTATUS status else e)"
      obtain r3 sub3 st3 where l: "blocking_wait_loop OS (i + 1) subjobs e' st2 = (r3, sub3, st3)"
        by (metis prod_cases3)
      have "same_globals st2 st3 \<and> list_all2 same_process subjobs sub3 \<and>
          (r3 = None \<longrightarrow> any_subjob (\<lambda>s. \<not> is_finished_status s) sub3) \<and>
          (\<forall>x. r3 = Some x \<longrightarrow> 0 \<le> e' \<longrightarrow> 0 \<le> x)"
        using "3.IH"(2) [OF False w [symmetric] _ _ pr [symmetric] _ _ _ r2] l e'_def by simp
      moreover have "0 \<le> e \<Longrightarrow> 0 \<le> e'" by (simp add: e'_def WEXITSTATUS_def)
      ultimately show ?thesis
        using "3.prems" False w pr g sp r2 l same_globals_trans
        by (auto simp: any_subjob_iff simp flip: e'_def)
    qed
  qed
qed

lemma blocking_wait_for_job_frame:
  assumes "blocking_wait_for_job OS j st = (r, j', st')"
  shows "same_globals st st'" and "same_job j j'" and "-1 \<le> r"
    and "r = -1 \<Longrightarrow> \<not> is_job_finished (Some j')"
proof -
  obtain r1 sub st1 where w: "blocking_wait_loop OS 0 (job_subjobs j) 0 st = (r1, sub, st1)"
    by (metis prod_cases3)
  obtain j2 st2 where u: "update_job_status OS (j\<lparr>job_subjobs := sub\<rparr>) st1 = (j2, st2)" by fastforce
  have res: "(r, j', st') =
      (case r1 of None \<Rightarrow> (-1, j\<lparr>job_subjobs := sub\<rparr>, st1) | Some e \<Rightarrow> (e, j2, st2))"
    using assms w u by (simp add: blocking_wait_for_job_def Let_def split: option.splits)
  note wl = blocking_wait_loop_frame [OF w] and us = update_job_status_frame [OF u]
  have "same_globals st st2" using wl us same_globals_trans by blast
  then show "same_globals st st'" using res wl by (simp split: option.splits)
  show "same_job j j'" using res wl us by (auto simp: same_job_def split: option.splits)
  show "-1 \<le> r" and "r = -1 \<Longrightarrow> \<not> is_job_finished (Some j')"
    using res wl by (auto split: option.splits)
qed

section \<open>Facts: the table\<close>

definition occupied :: "job option list \<Rightarrow> nat" where
  "occupied table = length (filter (\<lambda>s. s \<noteq> None) table)"

text \<open>
  The invariant of the table: it is allocated, its counter is right, and every job sits in
  the slot its number names.
\<close>

definition table_wf :: "shell \<Rightarrow> bool" where
  "table_wf st \<longleftrightarrow>
     job_table_ptr st = Live_Table \<and>
     job_table_size st = occupied (job_table st) \<and>
     (\<forall>i j. i < job_table_capacity st \<longrightarrow> job_table st ! i = Some j \<longrightarrow> job_id j = i + 1)"

text \<open>What the table stands for: a finite map from job numbers to jobs.\<close>

definition jobs_of :: "shell \<Rightarrow> nat \<Rightarrow> job option" where
  "jobs_of st jid =
     (if 1 \<le> jid \<and> jid \<le> job_table_capacity st then job_table st ! (jid - 1) else None)"

lemma table_wf_same_globals: "same_globals st st' \<Longrightarrow> table_wf st' = table_wf st"
  by (auto simp: same_globals_iff table_wf_def)

lemma same_globals_job_table:
  "same_globals st st' \<Longrightarrow> job_table st' = job_table st \<and> job_table_size st' = job_table_size st \<and>
     job_table_ptr st' = job_table_ptr st"
  by (auto simp: same_globals_iff)

lemma occupied_le: "occupied table \<le> length table"
  by (simp add: occupied_def)

lemma occupied_simps [simp]:
  "occupied [] = 0" "occupied (s # table) = (if s = None then occupied table else Suc (occupied table))"
  by (simp_all add: occupied_def)

lemma occupied_full: "occupied table = length table \<longleftrightarrow> None \<notin> set table"
proof (induction table)
  case (Cons s table)
  then show ?case
    using occupied_le [of table] by (cases s) auto
qed simp

lemma occupied_update:
  "i < length table \<Longrightarrow>
     occupied (table[i := x]) + (if table ! i = None then 0 else 1) =
       occupied table + (if x = None then 0 else 1)"
proof -
  assume i: "i < length table"
  have "occupied (take i table @ table ! i # drop (Suc i) table) = occupied (take i table) +
      (if table ! i = None then 0 else 1) + occupied (drop (Suc i) table)"
    by (simp add: occupied_def)
  then have "occupied table = occupied (take i table) +
      (if table ! i = None then 0 else 1) + occupied (drop (Suc i) table)"
    by (simp only: id_take_nth_drop [OF i, symmetric])
  moreover have "occupied (table[i := x]) = occupied (take i table) +
      (if x = None then 0 else 1) + occupied (drop (Suc i) table)"
    using i by (simp add: upd_conv_take_nth_drop occupied_def)
  ultimately show ?thesis by simp
qed

lemma occupied_append_free [simp]: "occupied (table @ replicate n None) = occupied table"
  by (simp add: occupied_def)

lemma free_slot_None: "free_slot table i = None \<longleftrightarrow> None \<notin> set table"
  by (induction table i rule: free_slot.induct) auto

lemma free_slot_Some:
  "free_slot table i = Some k \<Longrightarrow>
     i \<le> k \<and> k - i < length table \<and> table ! (k - i) = None \<and> (\<forall>m < k - i. table ! m \<noteq> None)"
proof (induction table i rule: free_slot.induct)
  case (3 j slots i)
  then have "i + 1 \<le> k" and k: "k - i = Suc (k - (i + 1))" by auto
  with 3 show ?case by (auto simp: nth_Cons split: nat.splits)
qed auto

lemma init_job_table_wf:
  "init_job_table st = Inr st' \<Longrightarrow> table_wf st' \<and> jobs_of st' = (\<lambda>_. None)"
  by (auto simp: init_job_table_def bindU_eq_Inr table_wf_def occupied_def jobs_of_def fun_eq_iff)

lemma table_wf_free_slot:
  assumes "table_wf st"
  defines "table \<equiv> (if job_table_size st = job_table_capacity st
                    then job_table st @ replicate INITIAL_JOB_TABLE_CAPACITY None else job_table st)"
  obtains i where "free_slot table 0 = Some i"
proof -
  have "None \<in> set table"
    using assms occupied_full [of "job_table st"]
    by (auto simp: table_wf_def INITIAL_JOB_TABLE_CAPACITY_def)
  then show ?thesis using that free_slot_None [of table 0] by auto
qed

lemma jobs_of_grown:
  "jobs_of (st\<lparr>job_table := job_table st @ replicate n None\<rparr>) = jobs_of st"
  by (auto simp: jobs_of_def fun_eq_iff nth_append)

text \<open>
  Adding a job succeeds and gives it the least number that is not in use.
\<close>

lemma add_job_correct:
  assumes wf: "table_wf st"
  shows "\<exists>n st'. add_job (Some j) st = (int n, st') \<and> 1 \<le> n \<and> jobs_of st n = None \<and>
           (\<forall>m. 1 \<le> m \<longrightarrow> m < n \<longrightarrow> jobs_of st m \<noteq> None) \<and>
           jobs_of st' = (jobs_of st)(n \<mapsto> j\<lparr>job_id := n\<rparr>) \<and> table_wf st' \<and>
           job_table_size st' = job_table_size st + 1 \<and>
           job_table_capacity st \<le> job_table_capacity st' \<and>
           st' = st\<lparr>job_table := job_table st', job_table_size := job_table_size st'\<rparr>"
proof -
  define table where "table = (if job_table_size st = job_table_capacity st
    then job_table st @ replicate INITIAL_JOB_TABLE_CAPACITY None else job_table st)"
  obtain i where i: "free_slot table 0 = Some i"
    using table_wf_free_slot [OF wf] by (auto simp: table_def)
  define st' where "st' = st\<lparr>job_table := table[i := Some (j\<lparr>job_id := i + 1\<rparr>)],
                             job_table_size := job_table_size st + 1\<rparr>"
  have add: "add_job (Some j) st = (int (i + 1), st')"
    using i by (simp add: table_def st'_def Let_def)
  have fs: "i < length table" "table ! i = None" "\<forall>m < i. table ! m \<noteq> None"
    using free_slot_Some [OF i] by simp_all
  have occ: "occupied table = occupied (job_table st)"
    by (simp add: table_def)
  have jo: "jobs_of st m = (if 1 \<le> m \<and> m \<le> length table then table ! (m - 1) else None)" for m
    by (auto simp: jobs_of_def table_def nth_append)
  have jo': "jobs_of st' = (jobs_of st)(i + 1 \<mapsto> j\<lparr>job_id := i + 1\<rparr>)"
  proof
    fix m
    show "jobs_of st' m = ((jobs_of st)(i + 1 \<mapsto> j\<lparr>job_id := i + 1\<rparr>)) m"
      using fs(1) jo [of m] by (cases m) (auto simp: jobs_of_def st'_def nth_list_update)
  qed
  have slots: "table ! k = Some x \<Longrightarrow> k < length table \<Longrightarrow> job_id x = k + 1" for k x
    using wf by (auto simp: table_def table_wf_def nth_append split: if_splits)
  have "table_wf st'"
    using wf fs slots occupied_update [OF fs(1), of "Some (j\<lparr>job_id := i + 1\<rparr>)"] occ
    by (auto simp: table_wf_def st'_def nth_list_update)
  moreover have "jobs_of st (i + 1) = None" and "\<forall>m. 1 \<le> m \<longrightarrow> m < i + 1 \<longrightarrow> jobs_of st m \<noteq> None"
    using fs by (auto simp: jo)
  moreover have "job_table_capacity st \<le> job_table_capacity st'"
    by (simp add: st'_def table_def)
  ultimately show ?thesis
    using add jo' by (intro exI [of _ "i + 1"] exI [of _ st']) (simp add: st'_def)
qed

lemma remove_job_correct:
  assumes wf: "table_wf st" and "remove_job jid st = (r, st')"
  shows "jobs_of st' = (jobs_of st)(jid := None)" and "table_wf st'"
    and "r = 0 \<longleftrightarrow> jobs_of st jid \<noteq> None" and "r = 0 \<or> r = 1 \<and> st' = st"
    and "st' = st\<lparr>job_table := job_table st', job_table_size := job_table_size st'\<rparr>"
    and "job_table_size st' = (if r = 0 then job_table_size st - 1 else job_table_size st)"
    and "job_table_capacity st' = job_table_capacity st"
proof -
  have occ: "job_table_size st = occupied (job_table st)" using wf by (simp add: table_wf_def)
  have nz: "jobs_of st jid \<noteq> None \<Longrightarrow> job_table_size st \<noteq> 0"
    using occ by (auto simp: jobs_of_def occupied_def filter_empty_conv split: if_splits)
      (metis Suc_le_eq Suc_pred nth_mem option.distinct(1))
  have live: "job_table_ptr st = Live_Table" using wf by (simp add: table_wf_def)
  show c: "r = 0 \<or> r = 1 \<and> st' = st"
    using assms(2) by (auto simp: remove_job_def split: if_splits)
  show "r = 0 \<longleftrightarrow> jobs_of st jid \<noteq> None"
    using assms(2) nz live
    by (cases "job_table st ! (jid - 1)") (auto simp: remove_job_def jobs_of_def split: if_splits)
  have none: "r \<noteq> 0 \<Longrightarrow> jobs_of st jid = None"
    using \<open>r = 0 \<longleftrightarrow> jobs_of st jid \<noteq> None\<close> by blast
  show "jobs_of st' = (jobs_of st)(jid := None)"
  proof (cases "r = 0")
    case True
    then show ?thesis
      using assms(2)
      by (auto simp: remove_job_def jobs_of_def fun_eq_iff nth_list_update split: if_splits)
  next
    case False
    then show ?thesis using c none by (simp add: fun_upd_idem)
  qed
  show "st' = st\<lparr>job_table := job_table st', job_table_size := job_table_size st'\<rparr>"
    and "job_table_size st' = (if r = 0 then job_table_size st - 1 else job_table_size st)"
    and "job_table_capacity st' = job_table_capacity st"
    using assms(2) by (auto simp: remove_job_def split: if_splits)
  show "table_wf st'"
  proof (cases "r = 0")
    case True
    then have st': "st' = st\<lparr>job_table := (job_table st)[jid - 1 := None],
                  job_table_size := job_table_size st - 1\<rparr>" and b: "jid - 1 < job_table_capacity st"
        "job_table st ! (jid - 1) \<noteq> None"
      using assms(2) by (auto simp: remove_job_def split: if_splits)
    then show ?thesis
      using wf occupied_update [OF b(1), of None]
      by (auto simp: table_wf_def nth_list_update)
  next
    case False
    then show ?thesis using c wf by simp
  qed
qed

section \<open>Facts: updating the table\<close>

text \<open>What an operation on the table leaves alone: every global but the table and the trace.\<close>

definition table_only :: "shell \<Rightarrow> shell \<Rightarrow> bool" where
  "table_only st st' \<longleftrightarrow> (\<exists>h t n. st' = st\<lparr>trace := h, job_table := t, job_table_size := n\<rparr>)"

lemma table_only_refl [simp, intro]: "table_only st st"
  unfolding table_only_def
  by (intro exI [of _ "trace st"] exI [of _ "job_table st"] exI [of _ "job_table_size st"]) simp

lemma table_only_trans [trans]: "table_only a b \<Longrightarrow> table_only b c \<Longrightarrow> table_only a c"
  by (fastforce simp: table_only_def)

interpretation tables: frame_relation table_only
  by unfold_locales (auto intro: table_only_trans)

lemma table_only_same_globals: "same_globals a b \<Longrightarrow> table_only a b"
  unfolding same_globals_iff table_only_def
  by (metis shell.surjective shell.update_convs(1,6,7))

lemma table_only_update:
  "st' = st\<lparr>job_table := t, job_table_size := n\<rparr> \<Longrightarrow> table_only st st'"
  unfolding table_only_def by (intro exI [of _ "trace st"] exI [of _ t] exI [of _ n]) simp

lemma table_wf_put:
  assumes "table_wf st" and "i < job_table_capacity st" and "job_table st ! i = Some j"
    and "job_id j' = job_id j"
  shows "table_wf (st\<lparr>job_table := (job_table st)[i := Some j']\<rparr>)"
  using assms occupied_update [of i "job_table st" "Some j'"]
  by (auto simp: table_wf_def nth_list_update)

lemma nth_jobs_of: "i < job_table_capacity st \<Longrightarrow> job_table st ! i = jobs_of st (i + 1)"
  by (simp add: jobs_of_def)

lemma job_table_print_job [simp]:
  "job_table (print_job j fd st) = job_table st"
  "job_table_size (print_job j fd st) = job_table_size st"
  by (simp_all add: print_job_def dprintf_def record_event_def)

lemma same_globals_print_job [simp]: "same_globals st (print_job j fd st)"
  by (simp add: print_job_def)

text \<open>What is left of a job whose turn comes in the state \<open>st\<close>: nothing once it has finished.\<close>

definition job_after_wait :: "os \<Rightarrow> shell \<Rightarrow> job \<Rightarrow> job option" where
  "job_after_wait OS st j =
     (case wait_for_job OS j st of
        (_, j', _) \<Rightarrow> if is_job_finished (Some j') then None else Some j')"

lemma job_after_wait_Some:
  assumes "job_after_wait OS st j = Some j'"
  shows "\<not> is_job_finished (Some j') \<and> same_job j j'"
proof -
  obtain r j2 st1 where w: "wait_for_job OS j st = (r, j2, st1)" by (metis prod_cases3)
  then have "j2 = j'" "\<not> is_job_finished (Some j')" using assms by (simp_all add: job_after_wait_def split: if_splits)
  then show ?thesis using wait_for_job_frame(2) [OF w] by simp
qed

text \<open>The slot \<open>i\<close> after its round, and the other slots.\<close>

lemma update_slot_correct:
  fixes OS :: os and fd :: fd and i :: nat and st :: shell
  assumes wf: "table_wf st" and i: "i < job_table_capacity st"
  defines "st' \<equiv> update_slot OS fd i st"
  shows "table_wf st'" and "job_table_capacity st' = job_table_capacity st"
    and "\<forall>k < job_table_capacity st. k \<noteq> i \<longrightarrow> job_table st' ! k = job_table st ! k"
    and "job_table st' ! i = Option.bind (job_table st ! i) (job_after_wait OS st)"
    and "table_only st st'"
proof -
  have "table_wf st' \<and> job_table_capacity st' = job_table_capacity st \<and>
      (\<forall>k < job_table_capacity st. k \<noteq> i \<longrightarrow> job_table st' ! k = job_table st ! k) \<and>
      job_table st' ! i = Option.bind (job_table st ! i) (job_after_wait OS st) \<and> table_only st st'"
  proof (cases "job_table st ! i")
    case None
    then show ?thesis using wf by (simp add: st'_def update_slot_def)
  next
    case (Some j)
    obtain r j' st1 where w: "wait_for_job OS j st = (r, j', st1)" by (metis prod_cases3)
    note fr = wait_for_job_frame [OF w]
    define st2 where "st2 = st1\<lparr>job_table := (job_table st1)[i := Some j']\<rparr>"
    define st3 where "st3 = (if job_status j \<noteq> job_status j' then print_job j' fd st2 else st2)"
    have wj: "job_after_wait OS st j = (if is_job_finished (Some j') then None else Some j')"
      using w by (simp add: job_after_wait_def)
    have t1: "job_table st1 = job_table st" using same_globals_job_table [OF fr(1)] by simp
    have id: "job_id j' = i + 1" using fr(2) wf i Some by (simp add: same_job_def table_wf_def)
    have wf2: "table_wf st2"
      unfolding st2_def
    proof (rule table_wf_put [of st1 i j])
      show "table_wf st1" using wf table_wf_same_globals [OF fr(1)] by simp
      show "job_id j' = job_id j" using fr(2) by (simp add: same_job_def)
    qed (use i t1 Some in auto)
    have g3: "same_globals st2 st3" by (simp add: st3_def)
    have wf3: "table_wf st3" using wf2 table_wf_same_globals [OF g3] by simp
    have t3: "job_table st3 = (job_table st)[i := Some j']"
      using same_globals_job_table [OF g3] t1 by (simp add: st2_def)
    have "table_only st st1" using fr(1) by (rule table_only_same_globals)
    also have "table_only st1 st2"
      unfolding st2_def by (rule table_only_update [where n = "job_table_size st1"]) simp
    finally have o2: "table_only st st2" .
    then have o3: "table_only st st3" using table_only_same_globals [OF g3] table_only_trans by blast
    have st': "st' = (if r = -1 then st2
        else if is_job_finished (Some j') then snd (remove_job (job_id j') st3) else st3)"
      using Some w by (simp add: st'_def update_slot_def st2_def st3_def Let_def)
    show ?thesis
    proof (cases "r = -1")
      case True
      then show ?thesis using st' wf2 fr i Some o2 t1 wj by (simp add: st2_def)
    next
      case r: False
      show ?thesis
      proof (cases "is_job_finished (Some j')")
        case False
        then show ?thesis using st' r wf3 fr(2) i Some t3 o3 wj by simp
      next
        case True
        obtain rr st4 where rm: "remove_job (job_id j') st3 = (rr, st4)" by fastforce
        note rc = remove_job_correct [OF wf3 rm]
        have st4: "st' = st4" using st' r True rm by simp
        have jo: "job_table st4 ! k = (if k = i then None else job_table st ! k)"
          if "k < job_table_capacity st" for k
          using that rc(1,7) t3 id nth_jobs_of [of k st4] nth_jobs_of [of k st3]
          by (cases "k = i") auto
        have "table_only st3 st4" using rc(5) by (intro table_only_update) auto
        then have o4: "table_only st st4" using o3 table_only_trans by blast
        have "job_table st4 ! i = None" using jo [OF i] by simp
        then show ?thesis
          unfolding st4 using rc(2,7) jo o4 t3 Some wj True by simp
      qed
    qed
  qed
  then show "table_wf st'" "job_table_capacity st' = job_table_capacity st"
    "\<forall>k < job_table_capacity st. k \<noteq> i \<longrightarrow> job_table st' ! k = job_table st ! k"
    "job_table st' ! i = Option.bind (job_table st ! i) (job_after_wait OS st)"
    "table_only st st'" by blast+
qed

lemma fd_update_rounds:
  fixes OS :: os and fd :: fd and n :: nat and st :: shell
  assumes "table_wf st" and "n \<le> job_table_capacity st"
  defines "st' \<equiv> fold (update_slot OS fd) [0..<n] st"
  shows "table_wf st' \<and> job_table_capacity st' = job_table_capacity st \<and> table_only st st' \<and>
    (\<forall>k < n. job_table st' ! k =
       Option.bind (job_table st ! k) (job_after_wait OS (fold (update_slot OS fd) [0..<k] st))) \<and>
    (\<forall>k < job_table_capacity st. n \<le> k \<longrightarrow> job_table st' ! k = job_table st ! k)"
  using assms(2) unfolding st'_def
proof (induction n)
  case 0
  then show ?case using assms(1) by simp
next
  case (Suc n)
  define st1 where "st1 = fold (update_slot OS fd) [0..<n] st"
  have IH: "table_wf st1" "job_table_capacity st1 = job_table_capacity st" "table_only st st1"
    "\<forall>k < n. job_table st1 ! k =
       Option.bind (job_table st ! k) (job_after_wait OS (fold (update_slot OS fd) [0..<k] st))"
    "\<forall>k < job_table_capacity st. n \<le> k \<longrightarrow> job_table st1 ! k = job_table st ! k"
    using Suc unfolding st1_def by simp_all
  have n: "n < job_table_capacity st1" using Suc.prems IH(2) by simp
  note u = update_slot_correct [OF IH(1) n, of OS fd]
  have "fold (update_slot OS fd) [0..<Suc n] st = update_slot OS fd n st1"
    by (simp add: st1_def)
  moreover have "table_only st (update_slot OS fd n st1)"
    using IH(3) u(5) by (rule table_only_trans)
  moreover have "job_table st1 ! n = job_table st ! n" using IH(5) n IH(2) by simp
  ultimately show ?case
    using u IH n Suc.prems unfolding st1_def [symmetric] by (auto simp: less_Suc_eq st1_def)
qed

lemma fd_update_jobs_correct:
  fixes OS :: os and fd :: fd and st :: shell
  assumes wf: "table_wf st"
  defines "st' \<equiv> fd_update_jobs OS fd st"
  shows "table_wf st'" and "table_only st st'"
    and "jobs_of st' jid = Some j' \<Longrightarrow>
           \<not> is_job_finished (Some j') \<and> (\<exists>j. jobs_of st jid = Some j \<and> same_job j j')"
    and "job_table_capacity st' = job_table_capacity st"
    and "jobs_of st' jid =
           Option.bind (jobs_of st jid) (job_after_wait OS (fold (update_slot OS fd) [0..<jid - 1] st))"
proof -
  note r = fd_update_rounds [OF wf order_refl, of OS fd, folded fd_update_jobs_def, folded st'_def]
  show "table_wf st'" "table_only st st'" "job_table_capacity st' = job_table_capacity st"
    using r by simp_all
  show j: "jobs_of st' jid =
      Option.bind (jobs_of st jid) (job_after_wait OS (fold (update_slot OS fd) [0..<jid - 1] st))" for jid
    using r by (auto simp: jobs_of_def)
  show "\<not> is_job_finished (Some j') \<and> (\<exists>j. jobs_of st jid = Some j \<and> same_job j j')"
    if "jobs_of st' jid = Some j'"
    using that job_after_wait_Some unfolding j by (metis bind_eq_Some_conv)
qed

lemma are_jobs_running_iff:
  "are_jobs_running st \<longleftrightarrow> (\<exists>jid j. jobs_of st jid = Some j \<and> \<not> is_job_finished (Some j))"
proof
  assume "are_jobs_running st"
  then obtain i j where "i < job_table_capacity st" "job_table st ! i = Some j" "is_job_alive (Some j)"
    unfolding are_jobs_running_def list_ex_length by (metis is_job_alive.elims(2))
  then show "\<exists>jid j. jobs_of st jid = Some j \<and> \<not> is_job_finished (Some j)"
    using is_job_alive_iff by (intro exI [of _ "i + 1"] exI [of _ j]) (simp add: jobs_of_def)
next
  assume "\<exists>jid j. jobs_of st jid = Some j \<and> \<not> is_job_finished (Some j)"
  then obtain jid j where "jobs_of st jid = Some j" "is_job_alive (Some j)"
    using is_job_alive_iff by blast
  then have "is_job_alive (job_table st ! (jid - 1))" and "jid - 1 < job_table_capacity st"
    by (auto simp: jobs_of_def split: if_splits)
  then show "are_jobs_running st"
    unfolding are_jobs_running_def list_ex_length by blast
qed

text \<open>After an update, a job runs exactly when the table is not empty.\<close>

lemma job_table_size_zero:
  "table_wf st \<Longrightarrow> job_table_size st = 0 \<longleftrightarrow> jobs_of st = (\<lambda>_. None)"
proof -
  assume wf: "table_wf st"
  have "occupied t = 0 \<longleftrightarrow> (\<forall>i < length t. t ! i = None)" for t
    by (auto simp: occupied_def filter_empty_conv all_set_conv_all_nth)
  moreover have "(\<forall>i < job_table_capacity st. job_table st ! i = None) \<longleftrightarrow> jobs_of st = (\<lambda>_. None)"
  proof
    assume "jobs_of st = (\<lambda>_. None)"
    then show "\<forall>i < job_table_capacity st. job_table st ! i = None" by (simp add: nth_jobs_of)
  next
    assume a: "\<forall>i < job_table_capacity st. job_table st ! i = None"
    show "jobs_of st = (\<lambda>_. None)"
    proof
      fix jid show "jobs_of st jid = None" using a by (cases jid) (auto simp: jobs_of_def)
    qed
  qed
  ultimately show ?thesis using wf by (simp add: table_wf_def)
qed

lemma are_jobs_running_after_update:
  fixes OS :: os and fd :: fd and st :: shell
  assumes "table_wf st"
  defines "st' \<equiv> fd_update_jobs OS fd st"
  shows "are_jobs_running st' \<longleftrightarrow> job_table_size st' \<noteq> 0"
proof -
  note u = fd_update_jobs_correct [OF assms(1), of OS fd, folded st'_def]
  have "are_jobs_running st' \<longleftrightarrow> jobs_of st' \<noteq> (\<lambda>_. None)"
  proof
    assume "are_jobs_running st'"
    then obtain jid j where "jobs_of st' jid = Some j" using are_jobs_running_iff by blast
    then show "jobs_of st' \<noteq> (\<lambda>_. None)" by auto
  next
    assume "jobs_of st' \<noteq> (\<lambda>_. None)"
    then obtain jid j where j: "jobs_of st' jid = Some j" by (auto simp: fun_eq_iff)
    then show "are_jobs_running st'" using u(3) [OF j] are_jobs_running_iff by blast
  qed
  then show ?thesis using job_table_size_zero [OF u(1)] by simp
qed

section \<open>The table as a store\<close>

text \<open>
  The contract of the table for the components that use it: a finite map from numbers to
  jobs, in which a job gets the least free number.
\<close>

locale job_store =
  fixes inv :: "'st \<Rightarrow> bool"
    and lookup :: "'st \<Rightarrow> nat \<Rightarrow> 'j option"
    and add :: "'j \<Rightarrow> 'st \<Rightarrow> nat \<times> 'st"
    and remove :: "nat \<Rightarrow> 'st \<Rightarrow> bool \<times> 'st"
    and numbered :: "nat \<Rightarrow> 'j \<Rightarrow> 'j"
  assumes add_inv: "inv s \<Longrightarrow> inv (snd (add j s))"
    and add_free: "inv s \<Longrightarrow> 0 < fst (add j s) \<and> lookup s (fst (add j s)) = None"
    and add_least: "inv s \<Longrightarrow> 0 < m \<Longrightarrow> m < fst (add j s) \<Longrightarrow> lookup s m \<noteq> None"
    and add_lookup: "inv s \<Longrightarrow> lookup (snd (add j s)) = (lookup s)(fst (add j s) \<mapsto> numbered (fst (add j s)) j)"
    and remove_inv: "inv s \<Longrightarrow> inv (snd (remove n s))"
    and remove_lookup: "inv s \<Longrightarrow> lookup (snd (remove n s)) = (lookup s)(n := None)"
    and remove_found: "inv s \<Longrightarrow> fst (remove n s) \<longleftrightarrow> lookup s n \<noteq> None"
begin

text \<open>Removing the job just added undoes the addition.\<close>

lemma add_remove:
  assumes "inv s"
  shows "fst (remove (fst (add j s)) (snd (add j s)))"
    and "lookup (snd (remove (fst (add j s)) (snd (add j s)))) = lookup s"
  using assms add_inv add_free add_lookup remove_found remove_lookup
  by (auto simp: fun_upd_idem)

text \<open>A number that has been freed is not passed over by the next job.\<close>

lemma number_reused:
  assumes "inv s" and "lookup s n \<noteq> None" and "0 < n"
  shows "fst (add j (snd (remove n s))) \<le> n"
proof (rule ccontr)
  assume "\<not> ?thesis"
  then have "lookup (snd (remove n s)) n \<noteq> None"
    using assms remove_inv by (intro add_least [of _ _ j]) simp_all
  then show False using assms by (simp add: remove_lookup)
qed

text \<open>The number that a job gets, as a function of the map.\<close>

lemma add_is_least:
  assumes "inv s"
  shows "fst (add j s) = (LEAST n. 0 < n \<and> lookup s n = None)"
proof (rule Least_equality [symmetric])
  show "fst (add j s) \<le> n" if "0 < n \<and> lookup s n = None" for n
    using add_least [OF assms, of n j] that by (meson not_less)
qed (use add_free [OF assms] in simp)

text \<open>Adding keeps every job that is there.\<close>

lemma add_keeps: "inv s \<Longrightarrow> lookup s n = Some j' \<Longrightarrow> lookup (snd (add j s)) n = Some j'"
  using add_free [of s j] by (auto simp: add_lookup)

end

definition add_numbered :: "job \<Rightarrow> shell \<Rightarrow> nat \<times> shell" where
  "add_numbered j st = map_prod nat id (add_job (Some j) st)"

definition remove_found :: "nat \<Rightarrow> shell \<Rightarrow> bool \<times> shell" where
  "remove_found n st = map_prod (\<lambda>r. r = 0) id (remove_job n st)"

interpretation table: job_store table_wf jobs_of add_numbered remove_found "\<lambda>n j. j\<lparr>job_id := n\<rparr>"
proof
  fix s :: shell and j :: job and n m :: nat
  assume wf: "table_wf s"
  obtain k s' where a: "add_job (Some j) s = (int k, s')" "1 \<le> k" "jobs_of s k = None"
    "\<forall>m. 1 \<le> m \<longrightarrow> m < k \<longrightarrow> jobs_of s m \<noteq> None" "jobs_of s' = (jobs_of s)(k \<mapsto> j\<lparr>job_id := k\<rparr>)" "table_wf s'"
    using add_job_correct [OF wf, of j] by blast
  have add: "add_numbered j s = (k, s')" by (simp add: add_numbered_def a(1) del: add_job.simps)
  show "table_wf (snd (add_numbered j s))" "0 < fst (add_numbered j s) \<and> jobs_of s (fst (add_numbered j s)) = None"
    "jobs_of (snd (add_numbered j s)) =
       (jobs_of s)(fst (add_numbered j s) \<mapsto> j\<lparr>job_id := fst (add_numbered j s)\<rparr>)"
    using a add by simp_all
  show "jobs_of s m \<noteq> None" if "0 < m" "m < fst (add_numbered j s)" using that a(4) add by simp
  obtain r s2 where r: "remove_job n s = (r, s2)" by fastforce
  note rc = remove_job_correct [OF wf r]
  have rem: "remove_found n s = (r = 0, s2)" by (simp add: remove_found_def r)
  show "table_wf (snd (remove_found n s))" "jobs_of (snd (remove_found n s)) = (jobs_of s)(n := None)"
    "fst (remove_found n s) \<longleftrightarrow> jobs_of s n \<noteq> None"
    using rc(1-3) rem by simp_all
qed

text \<open>Status words, as the kernel builds them from a code or a signal.\<close>

lemma and_127: "(of_nat n :: 32 word) AND 127 = of_nat (n mod 128)"
proof -
  have "(of_nat n :: 32 word) AND mask 7 = of_nat (take_bit 7 n)"
    by (simp add: take_bit_eq_mask [symmetric] take_bit_of_nat)
  then show ?thesis by (simp add: mask_eq_exp_minus_1 take_bit_eq_mod)
qed

lemma and_255: "(of_nat n :: 32 word) AND 255 = of_nat (n mod 256)"
proof -
  have "(of_nat n :: 32 word) AND mask 8 = of_nat (take_bit 8 n)"
    by (simp add: take_bit_eq_mask [symmetric] take_bit_of_nat)
  then show ?thesis by (simp add: mask_eq_exp_minus_1 take_bit_eq_mod)
qed

lemma of_nat_small: "m < 2 ^ 32 \<Longrightarrow> n < 2 ^ 32 \<Longrightarrow> (of_nat m :: 32 word) = of_nat n \<longleftrightarrow> m = n"
  by (simp add: word_of_nat_eq_iff take_bit_nat_eq_self)

lemma sint_signal:
  assumes "n < 127" shows "sint (ucast (of_nat n + 1 :: 32 word) :: 8 word) = int n + 1"
proof -
  have "uint (of_nat (n + 1) :: 32 word) = int (n + 1)"
    using assms by (simp add: unsigned_of_nat take_bit_nat_eq_self del: of_nat_add of_nat_Suc)
  moreover have "(of_nat n + 1 :: 32 word) = of_nat (n + 1)" by simp
  ultimately have "(ucast (of_nat n + 1 :: 32 word) :: 8 word) = of_nat (n + 1)"
    by (metis of_int_of_nat_eq of_int_uint)
  then show ?thesis using assms
    by (simp add: signed_of_nat signed_take_bit_int_eq_self del: of_nat_add of_nat_Suc)
qed

text \<open>The macros on a status word that fits 16 bits, in terms of its number.\<close>

lemma WIFEXITED_of_nat: "WIFEXITED (of_nat n) \<longleftrightarrow> n mod 128 = 0"
  using of_nat_small [of "n mod 128" 0]
  by (simp add: WIFEXITED_def and_127 order.strict_trans [OF mod_less_divisor])

lemma WIFSTOPPED_of_nat: "WIFSTOPPED (of_nat n) \<longleftrightarrow> n mod 256 = 127"
  using of_nat_small [of "n mod 256" 127]
  by (simp add: WIFSTOPPED_def and_255 order.strict_trans [OF mod_less_divisor])

lemma WIFCONTINUED_of_nat: "n < 2 ^ 16 \<Longrightarrow> WIFCONTINUED (of_nat n) \<longleftrightarrow> n = 0xffff"
  using of_nat_small [of n "0xffff"] by (simp add: WIFCONTINUED_def)

lemma WIFSIGNALED_of_nat: "n mod 128 < 127 \<Longrightarrow> WIFSIGNALED (of_nat n) \<longleftrightarrow> 0 < n mod 128"
  using sint_signal [of "n mod 128"] by (auto simp: WIFSIGNALED_def and_127)

lemma WEXITSTATUS_of_nat:
  assumes "code < 256" shows "WEXITSTATUS (of_nat (code * 256)) = int code"
proof -
  have "uint (of_nat (code * 256) div 256 :: 32 word) = int code"
    using assms by (simp add: uint_div unsigned_of_nat take_bit_nat_eq_self del: of_nat_mult)
  then have "(of_nat (code * 256) div 256 :: 32 word) = of_nat code"
    using assms by (intro word_uint_eqI) (simp add: unsigned_of_nat take_bit_nat_eq_self del: of_nat_mult)
  then have "drop_bit 8 (of_nat (code * 256) AND 0xff00 :: 32 word) = of_nat code AND 255"
    by (subst drop_bit_and) (simp add: drop_bit_eq_div del: of_nat_mult)
  then show ?thesis
    using assms by (simp add: WEXITSTATUS_def and_255 take_bit_nat_eq_self unsigned_of_nat del: of_nat_mult)
qed

lemmas status_words = job_status_from_int_def WIFEXITED_of_nat WIFSTOPPED_of_nat WIFCONTINUED_of_nat
  WIFSIGNALED_of_nat WEXITSTATUS_of_nat

section \<open>Properties\<close>

text \<open>
  C22. \<^verbatim>\<open>update_job_status\<close> gives a job the status that the project description specifies, for
  every combination of statuses of its processes: running if one runs, otherwise stopped
  if one is stopped, otherwise detached if the process group still exists, otherwise
  killed if one was killed, otherwise done.
\<close>

theorem update_job_status_specified:
  "job_status (fst (update_job_status OS j st)) =
     specified_status (subjob_statuses j) (os_kill OS (trace st) (- job_pgid j) 0 = 0)"
  by (rule update_job_status_status)

text \<open>
  C34. The status word of \<^verbatim>\<open>waitpid\<close> is decoded exhaustively: an exit with any code is done, a
  stop by any signal is stopped, a death by a signal from 1 to 126 is killed (with or
  without a core dump), a continuation is running.
\<close>

theorem job_status_from_int_decodes:
  "(\<forall>code < 256. job_status_from_int (of_nat (code * 256)) = DONE \<and>
                  WEXITSTATUS (of_nat (code * 256)) = int code) \<and>
   (\<forall>signal < 256. job_status_from_int (of_nat (signal * 256 + 127)) = STOPPED) \<and>
   (\<forall>signal \<in> {1..<127}. \<forall>core \<in> {0, 128}. job_status_from_int (of_nat (signal + core)) = KILLED) \<and>
   job_status_from_int 65535 = RUNNING"
proof (intro conjI allI ballI impI)
  fix code :: nat assume "code < 256"
  then show "job_status_from_int (of_nat (code * 256)) = DONE" "WEXITSTATUS (of_nat (code * 256)) = int code"
    by (simp_all add: status_words del: of_nat_mult)
next
  fix signal :: nat assume "signal < 256"
  moreover have "(signal * 256 + 127) mod 128 = 127" "(signal * 256 + 127) mod 256 = 127" by presburger+
  ultimately show "job_status_from_int (of_nat (signal * 256 + 127)) = STOPPED"
    by (simp add: status_words del: of_nat_add of_nat_mult)
next
  fix signal core :: nat assume s: "signal \<in> {1..<127}" "core \<in> {0, 128}"
  then have "(signal + core) mod 128 = signal" "(signal + core) mod 256 \<noteq> 127" "signal + core < 65535" by auto
  then show "job_status_from_int (of_nat (signal + core)) = KILLED"
    using s by (simp add: status_words del: of_nat_add)
next
  show "job_status_from_int 65535 = RUNNING"
    by (simp add: job_status_from_int_def WIFEXITED_def WIFSTOPPED_def WIFCONTINUED_def)
qed

lemma job_status_from_int_decodes_witness:
  "job_status_from_int (of_nat (3 * 256)) = DONE \<and> job_status_from_int (of_nat (20 * 256 + 127)) = STOPPED \<and>
   job_status_from_int (of_nat (11 + 128)) = KILLED"
proof -
  have "(3 :: nat) < 256" "(20 :: nat) < 256" "(11 :: nat) \<in> {1..<127}" "(128 :: nat) \<in> {0, 128}" by simp_all
  then show ?thesis using job_status_from_int_decodes by blast
qed

definition two_jobs :: shell where
  "two_jobs =
     initial_shell\<lparr>job_table_ptr := Live_Table, job_table_size := 2,
       job_table := [Some ((new_job 0 ''a'')\<lparr>job_id := 1\<rparr>), None, Some ((new_job 0 ''b'')\<lparr>job_id := 3\<rparr>)]\<rparr>"

lemma two_jobs_wf: "table_wf two_jobs"
  by (auto simp: table_wf_def two_jobs_def new_job_def nth_Cons split: nat.splits)

text \<open>
  Removing a job empties exactly its number, reports whether there was a job, keeps the
  table well-formed and its counter right.
\<close>

theorem remove_job_exact:
  assumes "table_wf st" and "remove_job jid st = (r, st')"
  shows "jobs_of st' = (jobs_of st)(jid := None) \<and> table_wf st' \<and>
         (r = 0 \<longleftrightarrow> jobs_of st jid \<noteq> None) \<and>
         job_table_size st' = (if r = 0 then job_table_size st - 1 else job_table_size st)"
  using remove_job_correct [OF assms] by blast

lemma remove_job_exact_witness:
  "jobs_of (snd (remove_job 3 two_jobs)) = (jobs_of two_jobs)(3 := None)"
  using remove_job_exact [OF two_jobs_wf, of 3 "fst (remove_job 3 two_jobs)" "snd (remove_job 3 two_jobs)"]
  by simp

text \<open>
  The table is a store: a job that is added and removed again leaves the map of the jobs
  as it was, and a number that has been freed is given again before any greater one.
\<close>

theorem job_numbers_reused:
  assumes "table_wf st"
  shows "jobs_of (snd (remove_found (fst (add_numbered j st)) (snd (add_numbered j st)))) = jobs_of st \<and>
         (\<forall>n. 0 < n \<and> jobs_of st n \<noteq> None \<longrightarrow> fst (add_numbered j (snd (remove_found n st))) \<le> n)"
  using table.add_remove(2) [OF assms] table.number_reused [OF assms] by blast

lemma job_numbers_reused_witness:
  "jobs_of (snd (remove_found (fst (add_numbered (new_job 0 ''c'') two_jobs))
      (snd (add_numbered (new_job 0 ''c'') two_jobs)))) = jobs_of two_jobs"
  using job_numbers_reused [OF two_jobs_wf] by blast

text \<open>
  C13. Updating the jobs leaves under each number exactly what the wait for its job, made when
  the loop comes to its slot, says: the job with the statuses that the wait has found, or
  nothing when all its processes have ended. It keeps the table well-formed and of the
  same size, changes no job's number, group, text and processes, adds no job, and touches
  no other global.
\<close>

theorem fd_update_jobs_cleans:
  fixes OS :: os and fd :: fd and st :: shell
  assumes "table_wf st"
  defines "st' \<equiv> fd_update_jobs OS fd st"
    and "reached \<equiv> (\<lambda>n. fold (update_slot OS fd) [0..<n - 1] st)"
  shows "table_wf st' \<and> table_only st st' \<and> job_table_capacity st' = job_table_capacity st \<and>
         (\<forall>n. case jobs_of st n of
            None \<Rightarrow> jobs_of st' n = None
          | Some j \<Rightarrow> \<exists>r j' mid. wait_for_job OS j (reached n) = (r, j', mid) \<and> same_job j j' \<and>
              jobs_of st' n = (if is_job_finished (Some j') then None else Some j'))"
proof -
  note u = fd_update_jobs_correct [OF assms(1), of OS fd, folded st'_def]
  have "case jobs_of st n of
            None \<Rightarrow> jobs_of st' n = None
          | Some j \<Rightarrow> \<exists>r j' mid. wait_for_job OS j (reached n) = (r, j', mid) \<and> same_job j j' \<and>
              jobs_of st' n = (if is_job_finished (Some j') then None else Some j')" for n
  proof (cases "jobs_of st n")
    case (Some j)
    obtain r j' mid where w: "wait_for_job OS j (reached n) = (r, j', mid)" by (metis prod_cases3)
    then show ?thesis
      using u(5) [of n] wait_for_job_frame(2) [OF w] Some by (simp add: job_after_wait_def reached_def)
  qed (use u(5) [of n] in simp)
  then show ?thesis using u(1,2,4) by blast
qed

lemma fd_update_jobs_cleans_witness:
  "case jobs_of two_jobs 3 of
     None \<Rightarrow> jobs_of (fd_update_jobs sample_os 2 two_jobs) 3 = None
   | Some j \<Rightarrow> \<exists>r j' mid. wait_for_job sample_os j (fold (update_slot sample_os 2) [0..<3 - 1] two_jobs) =
         (r, j', mid) \<and> same_job j j' \<and>
       jobs_of (fd_update_jobs sample_os 2 two_jobs) 3 = (if is_job_finished (Some j') then None else Some j')"
  using fd_update_jobs_cleans [OF two_jobs_wf, of sample_os 2] by blast

end
