(* ===== verification/Proc.thy ===== *)
theory Proc
  imports Shell_State String_Utils
begin

text \<open>
  The children of a process, read from \<^verbatim>\<open>/proc\<close> (\<^verbatim>\<open>src/proc.c\<close>). The loop over the reads
  may not end, so the definitions are partial functions: \<^const>\<open>None\<close> is a run that
  never returns.
\<close>

definition BUFSIZ :: nat where "BUFSIZ = 8192"

text \<open>The string at the start of a zero-filled buffer in which the bytes \<open>bs\<close> are written.\<close>

definition c_string :: "string \<Rightarrow> string" where
  "c_string bs = takeWhile (\<lambda>c. c \<noteq> CHR 0x00) bs"

text \<open>\<^verbatim>\<open>snprintf(new_string, n, "%s%s", string, buf)\<close>: at most \<open>n - 1\<close> characters.\<close>

definition snprintf2 :: "nat \<Rightarrow> string \<Rightarrow> string \<Rightarrow> string" where
  "snprintf2 n s t = take (n - 1) (s @ t)"

text \<open>
  The loop over the reads, after the first test of \<^verbatim>\<open>nb_read\<close>. \<^verbatim>\<open>buf\<close> is not cleared
  between reads, so a short read leaves the end of an earlier one behind; a full buffer has
  no terminating zero and \<^verbatim>\<open>snprintf\<close> reads past it. \<^const>\<open>Inr\<close> \<^const>\<open>None\<close> is the early return
  after a failed read.
\<close>

partial_function (option) read_all ::
  "os \<Rightarrow> fd \<Rightarrow> string \<Rightarrow> nat \<Rightarrow> string \<Rightarrow> shell \<Rightarrow> (string option \<times> shell) cres option" where
  "read_all OS fd buf total_size s st =
     (let (r, st) = sys_read OS fd BUFSIZ st
      in case r of
           None \<Rightarrow> Some (Inr (None, sys_close fd (perror OS ''read'' st)))
         | Some bytes \<Rightarrow>
             let buf = bytes @ drop (length bytes) buf;
                 nb_read = length bytes
             in if length buf \<ge> BUFSIZ \<and> CHR 0x00 \<notin> set buf then Some (Inl Out_Of_Bounds)
                else let s = (if total_size + nb_read = 0 then s
                              else snprintf2 (total_size + nb_read) s (c_string buf));
                         total_size = total_size + nb_read
                     in if nb_read = 0 then Some (Inr (Some (take total_size s), st))
                        else read_all OS fd buf total_size s st)"

declare read_all.simps [code]

text \<open>The loop that converts the words; a word that is not an \<^verbatim>\<open>int\<close> gives the null pointer.\<close>

fun parse_children :: "string list \<Rightarrow> shell \<Rightarrow> int list option \<times> shell" where
  "parse_children [] st = (Some [], st)"
| "parse_children (w # ws) st =
     (case parse_intmax_t w of
        Inl msg \<Rightarrow> (None, dprintf STDERR_FILENO msg st)
      | Inr cast \<Rightarrow>
          if - (2 ^ 31) \<le> cast \<and> cast \<le> 2 ^ 31 - 1
          then let (r, st) = parse_children ws st in (map_option ((#) cast) r, st)
          else (None, st))"

definition children_path :: "pid \<Rightarrow> string" where
  "children_path p = ''/proc/'' @ show_int p @ ''/task/'' @ show_int p @ ''/children''"

definition get_children :: "os \<Rightarrow> pid \<Rightarrow> shell \<Rightarrow> (int list option \<times> shell) cres option" where
  "get_children OS p st =
     (let (fd, st) = sys_open OS (children_path p) [O_RDONLY] st
      in if fd < 0 then Some (Inr (None, st))
         else Option.bind (read_all OS fd [] 0 [] st) (\<lambda>r. Some (
              bindU r (\<lambda>(s, st).
                case s of
                  None \<Rightarrow> Inr (None, st)
                | Some s \<Rightarrow>
                    bindU (split_string s '' '') (\<lambda>ws.
                      Inr (parse_children (case ws of None \<Rightarrow> [] | Some ws \<Rightarrow> ws)
                             (sys_close fd st)))))))"

definition has_children :: "os \<Rightarrow> pid \<Rightarrow> shell \<Rightarrow> (int \<times> shell) cres option" where
  "has_children OS p st =
     Option.bind (get_children OS p st) (\<lambda>r. Some (
       bindU r (\<lambda>(children, st).
         Inr (case children of None \<Rightarrow> -1 | Some cs \<Rightarrow> if length cs > 0 then 1 else 0, st))))"

section \<open>Facts\<close>

text \<open>The file as the kernel writes it: every number is followed by a space.\<close>

definition children_file :: "int list \<Rightarrow> string" where
  "children_file ps = concat (map (\<lambda>p. show_int p @ '' '') ps)"

lemma show_int_no_space: "set (show_int p) \<inter> {CHR '' '', CHR 0x00} = {}" "show_int p \<noteq> []"
proof -
  have d: "\<forall>c \<in> set (show_nat n). is_digit c" for n using show_nat_digits [of n] by (simp add: list_all_iff)
  have "c \<in> {CHR '' '', CHR 0x00} \<Longrightarrow> \<not> is_digit c" for c by (auto simp: is_digit_def)
  then have "set (show_nat n) \<inter> {CHR '' '', CHR 0x00} = {}" for n using d by blast
  then show "set (show_int p) \<inter> {CHR '' '', CHR 0x00} = {}" "show_int p \<noteq> []"
    by (auto simp: show_int_def)
qed

lemma children_file_no_zero: "CHR 0x00 \<notin> set (children_file ps)"
  using show_int_no_space(1) by (auto simp: children_file_def)

lemma words_children_file: "words (children_file ps @ t) '' '' = map show_int ps @ words t '' ''"
proof (induction ps)
  case (Cons p ps)
  have "words (show_int p @ CHR '' '' # (children_file ps @ t)) '' '' = show_int p # words (children_file ps @ t) '' ''"
    using show_int_no_space [of p] by (intro words_append_sep) auto
  with Cons show ?case by (simp add: children_file_def)
qed (simp add: children_file_def)

text \<open>The last character, which the truncation of \<^verbatim>\<open>snprintf\<close> drops, is a space.\<close>

lemma words_without_last: "words (take (length (children_file ps) - 1) (children_file ps)) '' '' = map show_int ps"
proof (cases ps rule: rev_cases)
  case (snoc qs p)
  have "children_file ps = (children_file qs @ show_int p) @ '' ''" by (simp add: snoc children_file_def)
  moreover have "words (show_int p) '' '' = [show_int p]"
    using show_int_no_space [of p] by (intro words_single_word) auto
  ultimately show ?thesis using words_children_file [of qs "show_int p"] by (simp add: snoc)
qed (simp add: children_file_def)

lemma parse_children_show_int:
  "list_all (\<lambda>p. - (2 ^ 31) \<le> p \<and> p < 2 ^ 31) ps \<Longrightarrow> parse_children (map show_int ps) st = (Some ps, st)"
proof (induction ps)
  case (Cons p ps)
  then have "parse_intmax_t (show_int p) = Inr p"
    by (intro parse_intmax_t_show_int) (simp_all add: INTMAX_MIN_def INTMAX_MAX_def)
  with Cons show ?case by simp
qed simp

section \<open>Properties\<close>

text \<open>
  C29. When \<^verbatim>\<open>open\<close> succeeds and the file of the children, each a decimal number and a space,
  arrives in one \<^verbatim>\<open>read\<close> that does not fill the buffer, with the end of the file behind it,
  \<^verbatim>\<open>get_children\<close> ends and returns exactly the children, in their order. It closes the file
  and changes no global.
\<close>

theorem get_children_roundtrip:
  fixes OS :: os and st :: shell and p :: pid and ps :: "int list"
  defines "fd \<equiv> os_open OS (trace st) (children_path p) [O_RDONLY]"
  defines "h1 \<equiv> Ev_Open (children_path p) [O_RDONLY] fd # trace st"
  defines "h2 \<equiv> Ev_Read fd BUFSIZ (Some (children_file ps)) # h1"
  assumes "0 \<le> fd" and "length (children_file ps) < BUFSIZ"
    and "list_all (\<lambda>p. - (2 ^ 31) \<le> p \<and> p < 2 ^ 31) ps"
    and "os_read OS h1 fd BUFSIZ = Some (children_file ps)" and "os_read OS h2 fd BUFSIZ = Some []"
  shows "\<exists>st'. get_children OS p st = Some (Inr (Some ps, st')) \<and> same_globals st st' \<and>
           open_fds (trace st') = open_fds (trace st)"
proof -
  let ?f = "children_file ps" and ?s = "take (length (children_file ps) - 1) (children_file ps)"
  have zero: "c_string ?f = ?f"
    using children_file_no_zero [of ps] by (auto simp: c_string_def takeWhile_eq_all_conv)
  define st1 where "st1 = st\<lparr>trace := h1\<rparr>"
  have r1: "sys_read OS fd BUFSIZ st1 = (Some ?f, st\<lparr>trace := h2\<rparr>)"
    using assms(5,7) by (simp add: sys_read_def record_event_def st1_def h2_def Let_def)
  have r2: "sys_read OS fd BUFSIZ (st\<lparr>trace := h2\<rparr>) = (Some [], st\<lparr>trace := Ev_Read fd BUFSIZ (Some []) # h2\<rparr>)"
    using assms(8) by (simp add: sys_read_def record_event_def Let_def)
  have "\<exists>h. read_all OS fd [] 0 [] st1 = Some (Inr (Some ?s, st\<lparr>trace := h\<rparr>)) \<and> open_fds h = open_fds h1"
  proof (cases "?f = []")
    case True
    then show ?thesis
      using r1 by (intro exI [of _ h2], subst read_all.simps) (simp add: BUFSIZ_def h2_def)
  next
    case False
    have "read_all OS fd [] 0 [] st1 = read_all OS fd ?f (length ?f) ?s (st\<lparr>trace := h2\<rparr>)"
      using False assms(5) zero by (subst read_all.simps) (simp add: r1 snprintf2_def Let_def)
    also have "\<dots> = Some (Inr (Some ?s, st\<lparr>trace := Ev_Read fd BUFSIZ (Some []) # h2\<rparr>))"
      using False assms(5) zero by (subst read_all.simps) (simp add: r2 snprintf2_def Let_def)
    finally show ?thesis by (intro exI [of _ "Ev_Read fd BUFSIZ (Some []) # h2"]) (simp add: h2_def)
  qed
  then obtain h where h: "read_all OS fd [] 0 [] st1 = Some (Inr (Some ?s, st\<lparr>trace := h\<rparr>))" "open_fds h = open_fds h1"
    by blast
  have "split_string ?s '' '' = Inr (if ps = [] then None else Some (map show_int ps))"
    using words_without_last [of ps] by (simp add: split_string_words)
  moreover have "sys_open OS (children_path p) [O_RDONLY] st = (fd, st1)"
    by (simp add: sys_open_def record_event_def Let_def fd_def h1_def st1_def)
  ultimately have "get_children OS p st = Some (Inr (Some ps, sys_close fd (st\<lparr>trace := h\<rparr>)))"
    using assms(4) h(1) parse_children_show_int [OF assms(6)]
    by (cases "ps = []") (simp_all add: get_children_def)
  then show ?thesis
    using h(2) assms(4) by (auto simp: sys_close_def record_event_def same_globals_iff h1_def)
qed

text \<open>A kernel on which process 7 has two children.\<close>

definition children_os :: os where
  "children_os =
     sample_os\<lparr>os_read := (\<lambda>h fd n. case h of Ev_Open path flags r # h \<Rightarrow> Some (children_file [12, 34]) | _ \<Rightarrow> Some [])\<rparr>"

lemma get_children_roundtrip_witness:
  "\<exists>st'. get_children children_os 7 initial_shell = Some (Inr (Some [12, 34], st'))"
proof -
  have "length (children_file [12, 34]) = 6" by code_simp
  then show ?thesis
    using get_children_roundtrip [of children_os initial_shell 7 "[12, 34]"]
    by (simp add: children_os_def sample_os_def initial_shell_def next_fd_def BUFSIZ_def) blast
qed

end
