(* ===== verification/Jobs_Command.thy ===== *)
theory Jobs_Command
  imports Jobs Proc
begin

text \<open>
  The built-in \<^verbatim>\<open>jobs\<close> (\<^verbatim>\<open>src/jobs.c\<close>: \<^verbatim>\<open>print_children\<close>, \<^verbatim>\<open>print_job_tree\<close> and
  \<^verbatim>\<open>jobs_command\<close>). The tree of the processes comes from \<^verbatim>\<open>/proc\<close> and is walked without a
  bound, so the walk is a partial function.
\<close>

text \<open>
  The loop of \<^verbatim>\<open>print_children\<close> over the children of a process, with the recursive call
  written out: the line of a child, its own children one tabulation deeper, the next child.
\<close>

partial_function (option) print_children_loop ::
  "os \<Rightarrow> subjob \<Rightarrow> nat \<Rightarrow> fd \<Rightarrow> pid list \<Rightarrow> shell \<Rightarrow> shell cres option" where
  "print_children_loop OS j tabulation fd children st =
     (case children of
        [] \<Rightarrow> Some (Inr st)
      | child # rest \<Rightarrow>
          let st = dprintf fd (tab @ repeat_str tab tabulation @ ''| '' @ tab @ show_int child @ tab @
                               job_status_to_string (sj_last_status j) @ tab @ sj_command j @ nl) st
          in Option.bind (get_children OS child st) (\<lambda>r.
             case r of
               Inl u \<Rightarrow> Some (Inl u)
             | Inr (grandchildren, st) \<Rightarrow>
                 Option.bind (print_children_loop OS j (tabulation + 1) fd
                                (case grandchildren of None \<Rightarrow> [] | Some cs \<Rightarrow> cs) st) (\<lambda>r.
                 case r of
                   Inl u \<Rightarrow> Some (Inl u)
                 | Inr st \<Rightarrow> print_children_loop OS j tabulation fd rest st)))"

declare print_children_loop.simps [code]

definition print_children :: "os \<Rightarrow> subjob \<Rightarrow> pid \<Rightarrow> nat \<Rightarrow> fd \<Rightarrow> shell \<Rightarrow> shell cres option" where
  "print_children OS j p tabulation fd st =
     Option.bind (get_children OS p st) (\<lambda>r.
       case r of
         Inl u \<Rightarrow> Some (Inl u)
       | Inr (children, st) \<Rightarrow>
           print_children_loop OS j tabulation fd
             (case children of None \<Rightarrow> [] | Some cs \<Rightarrow> cs) st)"

text \<open>A walk that never ends is the error \<^const>\<open>Diverges\<close>.\<close>

definition finished :: "'a cres option \<Rightarrow> 'a cres" where
  "finished r = (case r of None \<Rightarrow> Inl Diverges | Some x \<Rightarrow> x)"

lemma finished_Some [simp]: "finished (Some x) = x"
  by (simp add: finished_def)

text \<open>
  The loop of \<^verbatim>\<open>print_job_tree\<close> from \<open>index\<close>. A subjob that ran inside the shell is a null
  pointer, which \<^verbatim>\<open>print_subjob\<close> dereferences.
\<close>

fun print_job_tree_loop ::
  "os \<Rightarrow> job \<Rightarrow> fd \<Rightarrow> nat \<Rightarrow> subjob option list \<Rightarrow> shell \<Rightarrow> shell cres" where
  "print_job_tree_loop OS j fd index [] st = Inr st"
| "print_job_tree_loop OS j fd index (s # subjobs) st =
     (let st = (if index = 0 then dprintf fd (''['' @ show_nat (job_id j) @ '']'') st else st)
      in case s of
           None \<Rightarrow> Inl Null_Deref
         | Some s \<Rightarrow>
             bindU (finished (print_children OS s (sj_pid s) 0 fd (print_subjob s fd st)))
               (print_job_tree_loop OS j fd (index + 1) subjobs))"

definition print_job_tree :: "os \<Rightarrow> job \<Rightarrow> fd \<Rightarrow> shell \<Rightarrow> shell cres" where
  "print_job_tree OS j fd = print_job_tree_loop OS j fd 0 (job_subjobs j)"

text \<open>The last loop of \<^verbatim>\<open>jobs_command\<close>, over the slots of the table.\<close>

fun print_jobs :: "os \<Rightarrow> bool \<Rightarrow> fd \<Rightarrow> job option list \<Rightarrow> shell \<Rightarrow> shell cres" where
  "print_jobs OS tree fd [] st = Inr st"
| "print_jobs OS tree fd (None # slots) st = print_jobs OS tree fd slots st"
| "print_jobs OS tree fd (Some j # slots) st =
     bindU (if tree then print_job_tree OS j fd st else Inr (print_job j fd st))
       (print_jobs OS tree fd slots)"

definition jobs_command :: "os \<Rightarrow> command_call \<Rightarrow> shell \<Rightarrow> (int \<times> shell) cres" where
  "jobs_command OS call st =
     (let st = fd_update_jobs OS (cc_stdout call) st
      in if cc_argc call > 3
         then Inr (1, dprintf (cc_stderr call) (''jobs: too many arguments'' @ nl) st)
         else let (tree, string_job_index) =
                    (if cc_argc call > 1
                     then if cc_argv call ! 1 = ''-t'' then (True, 2)
                          else if cc_argc call = 3 \<and> cc_argv call ! 2 = ''-t'' then (True, 1)
                          else (False, 1 :: nat)
                     else (False, 1))
         in if cc_argc call > 1 \<and> cc_argc call > string_job_index \<and>
               starts_with (cc_argv call ! string_job_index) ''%''
            then let (j, st) = get_job (cc_argv call ! string_job_index) (cc_stderr call) st
                 in case j of
                      None \<Rightarrow> Inr (1, st)
                    | Some i \<Rightarrow>
                        let j = the (job_table st ! i)
                        in if tree
                           then bindU (print_job_tree OS j (cc_stdout call) st) (\<lambda>st. Inr (0, st))
                           else Inr (0, print_job j (cc_stdout call) st)
            else bindU (print_jobs OS tree (cc_stdout call) (job_table st) st) (\<lambda>st. Inr (0, st)))"

end
