(* ===== verification/Cd.thy ===== *)
theory Cd
  imports Shell_State String_Utils
begin

text \<open>The built-in \<^verbatim>\<open>cd\<close> (\<^verbatim>\<open>src/cd.c\<close>).\<close>

definition PATH_MAX :: nat where "PATH_MAX = 4096"

text \<open>\<^verbatim>\<open>is_valid_path\<close>, with what \<^verbatim>\<open>stat\<close> found: whether the path is a directory.\<close>

definition is_valid_path :: "os \<Rightarrow> string \<Rightarrow> fd \<Rightarrow> shell \<Rightarrow> bool \<times> bool \<times> shell" where
  "is_valid_path OS path call_stderr st =
     (let (p_stat, st) = sys_stat OS path st
      in case p_stat of
           Some is_dir \<Rightarrow> (True, is_dir, st)
         | None \<Rightarrow>
             (case os_errno OS (trace st) of
                EACCES \<Rightarrow> (False, False, dprintf call_stderr
                            (''cd: invalid path: '' @ path @ '' no access.'' @ nl) st)
              | ENOENT \<Rightarrow> (False, False, dprintf call_stderr
                            (''cd: invalid path: '' @ path @ '' does not exist.'' @ nl) st)
              | _ \<Rightarrow> (False, False, dprintf call_stderr
                       (''cd: lstat failure. ('' @ strerror_errno OS st @ '')'' @ nl) st)))"

definition is_valid_target_dir :: "os \<Rightarrow> string \<Rightarrow> fd \<Rightarrow> shell \<Rightarrow> bool \<times> shell" where
  "is_valid_target_dir OS target call_stderr st =
     (let (valid, is_dir, st) = is_valid_path OS target call_stderr st
      in if \<not> valid then (False, st)
         else if \<not> is_dir
         then (False, dprintf call_stderr (''cd: '' @ target @ '' is not a directory.'' @ nl) st)
         else (True, st))"

text \<open>\<^verbatim>\<open>memmove\<close> copies the current directory to the \<^verbatim>\<open>PATH_MAX\<close> bytes of \<^verbatim>\<open>lwd\<close>.\<close>

definition set_new_cwd :: "os \<Rightarrow> string \<Rightarrow> fd \<Rightarrow> shell \<Rightarrow> (bool \<times> shell) cres" where
  "set_new_cwd OS new_cwd call_stderr st =
     (let (valid, st) = is_valid_target_dir OS new_cwd call_stderr st
      in if \<not> valid then Inr (False, st)
         else let (cwd, st) = sys_getcwd OS st
         in case cwd of
              None \<Rightarrow> Inr (False, dprintf call_stderr
                        (''cd: getcwd failure. ('' @ strerror_errno OS st @ '')'' @ nl) st)
            | Some cwd \<Rightarrow>
                if length cwd > PATH_MAX then Inl Out_Of_Bounds
                else let st = st\<lparr>lwd := cwd\<rparr>;
                         (r, st) = sys_chdir OS new_cwd st
                     in if r = -1
                        then Inr (False, dprintf call_stderr
                               (''cd: chdir failure. ('' @ strerror_errno OS st @ '')'' @ nl) st)
                        else Inr (True, st))"

definition is_lwd_set :: "shell \<Rightarrow> bool" where
  "is_lwd_set st \<longleftrightarrow> lwd st \<noteq> []"

text \<open>The label \<^verbatim>\<open>valid_path\<close>.\<close>

definition cd_to :: "os \<Rightarrow> command_call \<Rightarrow> string \<Rightarrow> shell \<Rightarrow> (int \<times> shell) cres" where
  "cd_to OS call path st =
     bindU (set_new_cwd OS path (cc_stderr call) st) (\<lambda>(res, st). Inr (if res then 0 else 1, st))"

definition cd :: "os \<Rightarrow> command_call \<Rightarrow> shell \<Rightarrow> (int \<times> shell) cres" where
  "cd OS call st =
     (if cc_argc call = 1
      then case os_getenv OS ''HOME'' of
             None \<Rightarrow> Inr (1, dprintf (cc_stderr call)
                       (''cd: HOME environment variable is not defined.'' @ nl) st)
           | Some env_home \<Rightarrow> cd_to OS call env_home st
      else if cc_argc call = 2 \<and> cc_argv call ! 1 = ''-''
      then if is_lwd_set st then cd_to OS call (lwd st) st
           else let (path, st) = sys_getcwd OS st
                in case path of
                     None \<Rightarrow> Inr (1, dprintf (cc_stderr call)
                               (''cd: getcwd failure. ('' @ strerror_errno OS st @ '')'' @ nl) st)
                   | Some path \<Rightarrow> cd_to OS call path st
      else if cc_argc call = 2 then cd_to OS call (cc_argv call ! 1) st
      else let st = dprintf (cc_stderr call) (''cd: incorrect usage of cd command.'' @ nl) st;
               st = dprintf (cc_stderr call) (''cd: correct usage: cd [directory|-]'' @ nl) st
           in Inr (1, perror OS ''cd'' st))"

section \<open>Facts\<close>

text \<open>A successful change: the old directory is remembered, and \<^verbatim>\<open>chdir\<close> is the last event.\<close>

lemma is_valid_target_dir_iff:
  "fst (is_valid_target_dir OS path err st) \<longleftrightarrow> os_stat OS (trace st) path = Some True"
  by (auto simp: is_valid_target_dir_def is_valid_path_def sys_stat_def Let_def split: option.splits errno.splits)

lemma is_valid_target_dir_frame:
  "same_globals st (snd (is_valid_target_dir OS path err st))"
  "os_stat OS (trace st) path = Some True \<Longrightarrow>
     snd (is_valid_target_dir OS path err st) = st\<lparr>trace := Ev_Stat path (Some True) # trace st\<rparr>"
  by (auto simp: is_valid_target_dir_def is_valid_path_def sys_defs same_globals_iff
      split: option.splits errno.splits)

lemma set_new_cwd_step:
  "set_new_cwd OS path err st =
     (if os_stat OS (trace st) path \<noteq> Some True then Inr (False, snd (is_valid_target_dir OS path err st))
      else let h1 = Ev_Stat path (Some True) # trace st;
               h2 = Ev_Getcwd (os_getcwd OS h1) # h1
      in case os_getcwd OS h1 of
           None \<Rightarrow> Inr (False, dprintf err (''cd: getcwd failure. ('' @ os_strerror OS (os_errno OS h2) @ '')'' @ nl)
                                 (st\<lparr>trace := h2\<rparr>))
         | Some d \<Rightarrow>
             if length d > PATH_MAX then Inl Out_Of_Bounds
             else let r = os_chdir OS h2 path; st' = st\<lparr>trace := Ev_Chdir path r # h2, lwd := d\<rparr>
             in if r = -1
                then Inr (False, dprintf err (''cd: chdir failure. ('' @ strerror_errno OS st' @ '')'' @ nl) st')
                else Inr (True, st'))"
proof -
  obtain valid st1 where v: "is_valid_target_dir OS path err st = (valid, st1)" by fastforce
  show ?thesis
    using is_valid_target_dir_iff [of OS path err st] is_valid_target_dir_frame(2) [of OS st path err] v
    by (auto simp: set_new_cwd_def sys_getcwd_def sys_chdir_def record_event_def strerror_errno_def dprintf_def Let_def
        split: option.splits)
qed

lemma set_new_cwd_True:
  assumes "set_new_cwd OS path err st = Inr (True, st')"
  obtains d r where "os_stat OS (trace st) path = Some True"
    and "os_getcwd OS (Ev_Stat path (Some True) # trace st) = Some d" and "r \<noteq> -1"
    and "st' = st\<lparr>trace := [Ev_Chdir path r, Ev_Getcwd (Some d), Ev_Stat path (Some True)] @ trace st, lwd := d\<rparr>"
  using assms that unfolding set_new_cwd_step Let_def by (auto split: option.splits if_splits)

lemma cd_to_0: "cd_to OS call path st = Inr (0, st') \<longleftrightarrow> set_new_cwd OS path (cc_stderr call) st = Inr (True, st')"
  by (auto simp: cd_to_def bindU_eq_Inr split: if_splits)

section \<open>Properties\<close>

text \<open>
  C35. \<^verbatim>\<open>cd dir\<close> succeeds exactly when the target is an existing directory, the current directory
  can be read and \<^verbatim>\<open>chdir\<close> succeeds; it then remembers the directory it leaves. It never
  writes past the buffer of the last directory when \<^verbatim>\<open>getcwd\<close> keeps to its bound.
\<close>

theorem cd_changes_directory:
  fixes OS :: os and st :: shell and path :: string
  assumes "cc_argc call = 2" and "cc_argv call ! 1 = path" and "path \<noteq> ''-''"
    and "\<And>h d. os_getcwd OS h = Some d \<Longrightarrow> length d < PATH_MAX"
  defines "h1 \<equiv> Ev_Stat path (os_stat OS (trace st) path) # trace st"
  defines "h2 \<equiv> Ev_Getcwd (os_getcwd OS h1) # h1"
  shows "\<exists>code st'. cd OS call st = Inr (code, st') \<and> (code = 0 \<or> code = 1) \<and>
           (code = 0 \<longleftrightarrow> os_stat OS (trace st) path = Some True \<and> os_getcwd OS h1 \<noteq> None \<and>
                         os_chdir OS h2 path \<noteq> -1) \<and>
           (code = 0 \<longrightarrow> os_getcwd OS h1 = Some (lwd st')) \<and>
           st' = st\<lparr>trace := trace st', lwd := lwd st'\<rparr>"
proof -
  have "cd OS call st = cd_to OS call path st" using assms(1-3) by (simp add: cd_def)
  moreover have "\<not> length d > PATH_MAX" if "os_getcwd OS h = Some d" for h d
    using assms(4) [OF that] by simp
  moreover have "b = a\<lparr>trace := trace b, lwd := lwd b\<rparr>" if "same_globals a b" for a b
    using that by (cases a; cases b) (simp add: same_globals_def)
  ultimately show ?thesis using is_valid_target_dir_frame(1)
    by (auto simp: cd_to_def set_new_cwd_step h1_def h2_def Let_def dprintf_def record_event_def
        split: option.splits)
qed

definition cd_call :: "string \<Rightarrow> command_call" where
  "cd_call path =
     \<lparr>cc_name = ''cd'', cc_argc = 2, cc_argv = [''cd'', path], cc_command_string = ''cd '' @ path,
      cc_reading_pipes = None, cc_writing_pipes = None, cc_stdin = 0, cc_stdout = 1, cc_stderr = 2\<rparr>"

lemma cd_changes_directory_witness:
  "\<exists>st'. cd sample_os (cd_call ''/tmp'') initial_shell = Inr (0, st') \<and> lwd st' = ''/''"
  using cd_changes_directory [of "cd_call ''/tmp''" "''/tmp''" sample_os initial_shell]
  by (auto simp: cd_call_def sample_os_def PATH_MAX_def split: if_splits)

text \<open>
  C36. \<^verbatim>\<open>cd -\<close> after a successful \<^verbatim>\<open>cd dir\<close> goes back to the directory that was left.
\<close>

theorem cd_dash_returns:
  assumes "cc_argc call = 2" and "cc_argv call ! 1 \<noteq> ''-''" and "cd OS call st = Inr (0, st1)"
    and "cc_argc back = 2" and "cc_argv back ! 1 = ''-''" and "cd OS back st1 = Inr (0, st2)"
    and "lwd st1 \<noteq> []"
  shows "\<exists>d r r' h h'. os_getcwd OS h = Some d \<and> Ev_Getcwd (Some d) # h = drop 1 (trace st1) \<and>
           hd (trace st1) = Ev_Chdir (cc_argv call ! 1) r \<and> r \<noteq> -1 \<and>
           trace st2 = Ev_Chdir d r' # h' @ trace st1 \<and> r' \<noteq> -1"
proof -
  have s1: "set_new_cwd OS (cc_argv call ! 1) (cc_stderr call) st = Inr (True, st1)"
    using assms(1-3) by (simp add: cd_def cd_to_0)
  have s2: "set_new_cwd OS (lwd st1) (cc_stderr back) st1 = Inr (True, st2)"
    using assms(4-7) by (simp add: cd_def cd_to_0 is_lwd_set_def)
  obtain d r where d: "os_getcwd OS (Ev_Stat (cc_argv call ! 1) (Some True) # trace st) = Some d" "r \<noteq> -1"
    "st1 = st\<lparr>trace := [Ev_Chdir (cc_argv call ! 1) r, Ev_Getcwd (Some d),
                Ev_Stat (cc_argv call ! 1) (Some True)] @ trace st, lwd := d\<rparr>"
    using set_new_cwd_True [OF s1] by metis
  obtain d' r' where d': "r' \<noteq> -1"
    "st2 = st1\<lparr>trace := [Ev_Chdir (lwd st1) r', Ev_Getcwd (Some d'),
                Ev_Stat (lwd st1) (Some True)] @ trace st1, lwd := d'\<rparr>"
    using set_new_cwd_True [OF s2] by metis
  have "lwd st1 = d" using d(3) by simp
  then have "trace st2 = Ev_Chdir d r' # [Ev_Getcwd (Some d'), Ev_Stat d (Some True)] @ trace st1"
    using d'(2) by simp
  moreover have "Ev_Getcwd (Some d) # (Ev_Stat (cc_argv call ! 1) (Some True) # trace st) = drop 1 (trace st1)"
    "hd (trace st1) = Ev_Chdir (cc_argv call ! 1) r"
    using d(3) by simp_all
  ultimately show ?thesis using d(1,2) d'(1) by metis
qed

lemma cd_dash_returns_witness:
  "\<exists>d r' h'. trace (snd (projr (cd sample_os (cd_call ''-'')
      (snd (projr (cd sample_os (cd_call ''/tmp'') initial_shell)))))) =
    Ev_Chdir d r' # h' @ trace (snd (projr (cd sample_os (cd_call ''/tmp'') initial_shell)))"
proof -
  let ?st1 = "snd (projr (cd sample_os (cd_call ''/tmp'') initial_shell))"
  have "cd sample_os (cd_call ''/tmp'') initial_shell = Inr (0, ?st1)"
    "cd sample_os (cd_call ''-'') ?st1 = Inr (0, snd (projr (cd sample_os (cd_call ''-'') ?st1)))"
    "lwd ?st1 \<noteq> []"
    by code_simp+
  then show ?thesis
    using cd_dash_returns [of "cd_call ''/tmp''" sample_os initial_shell ?st1 "cd_call ''-''"
        "snd (projr (cd sample_os (cd_call ''-'') ?st1))"]
    by (auto simp: cd_call_def)
qed

end
