(* ===== verification/Signals.thy ===== *)
theory Signals
  imports Shell_State
begin

text \<open>
  The signal dispositions of the shell and of its children (\<^verbatim>\<open>src/signals.c\<close>).
\<close>

definition SIGINT :: int where "SIGINT = 2"
definition SIGQUIT :: int where "SIGQUIT = 3"
definition SIGKILL :: int where "SIGKILL = 9"
definition SIGTERM :: int where "SIGTERM = 15"
definition SIGTSTP :: int where "SIGTSTP = 20"
definition SIGTTIN :: int where "SIGTTIN = 21"
definition SIGTTOU :: int where "SIGTTOU = 22"

definition signals_to_ignore :: "int list" where
  "signals_to_ignore = [SIGINT, SIGTERM, SIGTTIN, SIGQUIT, SIGTTOU, SIGTSTP]"

text \<open>The loop of \<^verbatim>\<open>set_signal_actions\<close> over the signals.\<close>

fun set_signal_actions_loop :: "os \<Rightarrow> sig_handler \<Rightarrow> int list \<Rightarrow> shell \<Rightarrow> shell proc" where
  "set_signal_actions_loop OS h [] st = ret st"
| "set_signal_actions_loop OS h (sig # sigs) st =
     (let (r, st) = sys_sigaction OS sig h st
      in if r = -1 then Inr (Exited 1 (perror OS ''sigaction'' st))
         else set_signal_actions_loop OS h sigs st)"

definition set_signal_actions :: "os \<Rightarrow> sig_handler \<Rightarrow> shell \<Rightarrow> shell proc" where
  "set_signal_actions OS h = set_signal_actions_loop OS h signals_to_ignore"

definition ignore_signals :: "os \<Rightarrow> shell \<Rightarrow> shell proc" where
  "ignore_signals OS = set_signal_actions OS SIG_IGN"

definition restore_signals :: "os \<Rightarrow> shell \<Rightarrow> shell proc" where
  "restore_signals OS = set_signal_actions OS SIG_DFL"

section \<open>Facts\<close>

text \<open>The disposition of a signal after a history: what the last successful call set.\<close>

fun disposition :: "history \<Rightarrow> int \<Rightarrow> sig_handler" where
  "disposition [] sig = SIG_DFL"
| "disposition (Ev_Sigaction s h r # hist) sig =
     (if s = sig \<and> r \<noteq> -1 then h else disposition hist sig)"
| "disposition (e # hist) sig = disposition hist sig"

lemma set_signal_actions_loop_running:
  "set_signal_actions_loop OS h sigs st = ret st' \<Longrightarrow>
     same_globals st st' \<and>
     (\<forall>sig. disposition (trace st') sig =
              (if sig \<in> set sigs then h else disposition (trace st) sig))"
proof (induction sigs arbitrary: st)
  case (Cons s sigs)
  obtain st1 where st1: "set_signal_actions_loop OS h sigs st1 = ret st'"
      "st1 = st\<lparr>trace := Ev_Sigaction s h (os_sigaction OS (trace st) s h) # trace st\<rparr>"
    and ok: "os_sigaction OS (trace st) s h \<noteq> -1"
    using Cons.prems by (auto simp: sys_sigaction_def record_event_def Let_def split: if_splits)
  have "same_globals st st1" by (auto simp: st1(2) same_globals_iff)
  moreover have "disposition (trace st1) sig = (if sig = s then h else disposition (trace st) sig)" for sig
    using ok by (simp add: st1(2))
  ultimately show ?case using Cons.IH [OF st1(1)] same_globals_trans by auto
qed simp

lemma set_signal_actions_running:
  "set_signal_actions OS h st = ret st' \<Longrightarrow>
     same_globals st st' \<and>
     (\<forall>sig. disposition (trace st') sig =
              (if sig \<in> set signals_to_ignore then h else disposition (trace st) sig))"
  unfolding set_signal_actions_def by (rule set_signal_actions_loop_running)

end
