(* ===== verification/Builtins.thy ===== *)
theory Builtins
  imports Jobs Utils Signals
begin

text \<open>
  The built-ins \<^verbatim>\<open>pwd\<close>, \<^verbatim>\<open>?\<close>, \<^verbatim>\<open>exit\<close>, \<^verbatim>\<open>fg\<close>, \<^verbatim>\<open>bg\<close> and \<^verbatim>\<open>kill\<close> (the files of \<^verbatim>\<open>src/\<close> with these
  names; \<^verbatim>\<open>?\<close> is \<^verbatim>\<open>src/last_exit_code_command.c\<close>).
\<close>

section \<open>pwd\<close>

text \<open>\<^verbatim>\<open>get_current_wd\<close> never returns the null pointer, so its test is never true.\<close>

definition pwd :: "os \<Rightarrow> command_call \<Rightarrow> shell \<Rightarrow> (int \<times> shell) cres" where
  "pwd OS call st =
     (if cc_argc call > 1
      then Inr (1, dprintf (cc_stderr call) (''pwd: too many arguments'' @ nl) st)
      else let (cwd, st) = get_current_wd OS st;
               st = dprintf (cc_stdout call) (cstr_text cwd @ nl) st
           in bindU (c_free cwd) (\<lambda>_. Inr (0, st)))"

section \<open>The last exit code\<close>

definition last_exit_code_command :: "command_call \<Rightarrow> shell \<Rightarrow> int \<times> shell" where
  "last_exit_code_command call st =
     (if cc_argc call \<noteq> 1 then (1, dprintf (cc_stderr call) (''?: too many arguments'' @ nl) st)
      else (0, dprintf (cc_stdout call) (show_int (last_exit_code st) @ nl) st))"

section \<open>exit\<close>

definition exit_command :: "os \<Rightarrow> command_call option \<Rightarrow> shell \<Rightarrow> int \<times> shell" where
  "exit_command OS call st =
     (case call of
        None \<Rightarrow> (1, st)
      | Some call \<Rightarrow>
          if cc_argc call > 2
          then (1, dprintf (cc_stderr call) (''exit: too many arguments'' @ nl) st)
          else let st = update_jobs OS st
          in if are_jobs_running st
          then (1, dprintf (cc_stderr call) (''jsh: you have running jobs.'' @ nl) st)
          else if cc_argc call = 1 then (last_exit_code st, st\<lparr>should_exit := True\<rparr>)
          else if cc_argc call = 2
          then case parse_intmax_t (cc_argv call ! 1) of
                 Inl msg \<Rightarrow> (1, dprintf (cc_stderr call) msg st)
               | Inr parsed_value \<Rightarrow>
                   if parsed_value < 0 \<or> parsed_value > 255
                   then (1, dprintf (cc_stderr call)
                           (''exit: '' @ cc_argv call ! 1 @
                            '': number between 0 and 255 (inclusive) required'' @ nl) st)
                   else (parsed_value, st\<lparr>last_exit_code := parsed_value, should_exit := True\<rparr>)
          else (last_exit_code st, st))"

section \<open>fg and bg\<close>

definition fg_command :: "os \<Rightarrow> command_call \<Rightarrow> shell \<Rightarrow> int \<times> shell" where
  "fg_command OS call st =
     (if cc_argc call = 1 then (1, dprintf (cc_stderr call) (''fg: missing argument'' @ nl) st)
      else if cc_argc call > 2 then (1, dprintf (cc_stderr call) (''fg: too many arguments'' @ nl) st)
      else let (j, st) = get_job (cc_argv call ! 1) (cc_stderr call) st
           in if j = None then (1, st)
              else let (r, st) = put_job_in_foreground OS j st in (if r \<noteq> 0 then 0 else 1, st))"

definition bg_command :: "os \<Rightarrow> command_call \<Rightarrow> shell \<Rightarrow> int \<times> shell" where
  "bg_command OS call st =
     (if cc_argc call = 1 then (1, dprintf (cc_stderr call) (''bg: missing argument'' @ nl) st)
      else if cc_argc call > 2 then (1, dprintf (cc_stderr call) (''bg: too many arguments'' @ nl) st)
      else let (j, st) = get_job (cc_argv call ! 1) (cc_stderr call) st
           in if j = None then (1, st)
              else let (r, st) = continue_job_in_background OS j st in (if r \<noteq> 0 then 0 else 1, st))"

section \<open>kill\<close>

text \<open>The message for \<^const>\<open>ESRCH\<close> prints the signal, as the source does.\<close>

definition kill_query :: "os \<Rightarrow> fd \<Rightarrow> pid \<Rightarrow> int \<Rightarrow> shell \<Rightarrow> int \<times> shell" where
  "kill_query OS call_stderr p sig st =
     (let (r, st) = sys_kill OS p sig st
      in if r = -1
         then (case os_errno OS (trace st) of
                 EINVAL \<Rightarrow> (0, dprintf call_stderr (''kill: '' @ show_int sig @ '': invalid signal.'' @ nl) st)
               | ESRCH \<Rightarrow> (0, dprintf call_stderr (''kill: '' @ show_int sig @ '': no such process.'' @ nl) st)
               | _ \<Rightarrow> (0, dprintf call_stderr
                        (''kill: kill failure. ('' @ strerror_errno OS st @ '')'' @ nl) st))
         else (1, st))"

text \<open>The second half of \<^verbatim>\<open>kill_command\<close>: the target, then the signal.\<close>

definition kill_target :: "os \<Rightarrow> command_call \<Rightarrow> nat \<Rightarrow> int \<Rightarrow> shell \<Rightarrow> int \<times> shell" where
  "kill_target OS call identifier_index sig st =
     (let target = cc_argv call ! identifier_index
      in if starts_with target ''%''
         then let (j, st) = get_job target (cc_stderr call) st
              in case j of
                   None \<Rightarrow> (1, st)
                 | Some i \<Rightarrow>
                     let (r, st) = kill_query OS (cc_stderr call)
                                     (- job_pgid (the (job_table st ! i))) sig st
                     in (if r \<noteq> 0 then 0 else 1, st)
         else case parse_intmax_t target of
                Inl msg \<Rightarrow> (1, dprintf (cc_stderr call) msg st)
              | Inr parsed_value \<Rightarrow>
                  let (r, st) = kill_query OS (cc_stderr call) (to_int32 parsed_value) sig st
                  in (if r \<noteq> 0 then 0 else 1, st))"

definition kill_command :: "os \<Rightarrow> command_call \<Rightarrow> shell \<Rightarrow> int \<times> shell" where
  "kill_command OS call st =
     (if cc_argc call < 2 \<or> cc_argc call > 3
      then (1, dprintf (cc_stderr call) (''kill: correct usage: kill [-sig] %job|pid'' @ nl)
                 (dprintf (cc_stderr call) (''kill: incorrect usage of kill command.'' @ nl) st))
      else if starts_with (cc_argv call ! 1) ''-''
      then case parse_intmax_t (drop 1 (cc_argv call ! 1)) of
             Inl msg \<Rightarrow> (1, dprintf (cc_stderr call) msg st)
           | Inr parsed_value \<Rightarrow>
               if cc_argc call \<noteq> 3
               then (0, dprintf (cc_stderr call) (''kill: missing %job|pid argument.'' @ nl) st)
               else kill_target OS call 2 (to_int32 parsed_value) st
      else kill_target OS call 1 SIGTERM st)"

end
