(* ===== verification/Internals.thy ===== *)
theory Internals
  imports Parser Jobs_Command Cd Builtins
begin

text \<open>
  The execution of commands (\<^verbatim>\<open>src/internals.c\<close>) and the results they give
  (\<^verbatim>\<open>command_result\<close> of \<^verbatim>\<open>src/command.c\<close>).
\<close>

section \<open>Results\<close>

abbreviation (input) UNINITIALIZED_EXIT_CODE :: int where "UNINITIALIZED_EXIT_CODE \<equiv> -1"
abbreviation (input) UNINITIALIZED_JOB_ID :: int where "UNINITIALIZED_JOB_ID \<equiv> 0"

record command_result =
  r_exit_code :: int
  r_pid :: pid
  r_job_id :: int
  r_command :: command

definition new_command_result :: "int \<Rightarrow> command \<Rightarrow> command_result" where
  "new_command_result exit_code cmd =
     \<lparr>r_exit_code = exit_code, r_pid = UNINITIALIZED_PID, r_job_id = UNINITIALIZED_JOB_ID,
      r_command = cmd\<rparr>"

definition destroy_command_result :: "command_result option \<Rightarrow> shell \<Rightarrow> shell cres" where
  "destroy_command_result r st =
     (case r of None \<Rightarrow> Inr st | Some r \<Rightarrow> destroy_command (Some (r_command r)) st)"

record internal_exit_info =
  ie_pid :: pid
  ie_exit_code :: int

definition new_internal_exit_info :: "pid \<Rightarrow> int \<Rightarrow> internal_exit_info" where
  "new_internal_exit_info p exit_code = \<lparr>ie_pid = p, ie_exit_code = exit_code\<rparr>"

definition has_exit_code :: "internal_exit_info option \<Rightarrow> bool" where
  "has_exit_code info \<longleftrightarrow>
     (case info of None \<Rightarrow> False | Some i \<Rightarrow> ie_exit_code i \<noteq> UNINITIALIZED_EXIT_CODE)"

definition init_internals :: "shell \<Rightarrow> shell cres" where
  "init_internals st = init_job_table (st\<lparr>last_exit_code := 0, should_exit := False\<rparr>)"

section \<open>Internal commands\<close>

definition execute_internal_command :: "os \<Rightarrow> command_call \<Rightarrow> shell \<Rightarrow> (int \<times> shell) cres" where
  "execute_internal_command OS call st =
     (if cc_name call = ''cd'' then cd OS call st
      else if cc_name call = ''?'' then Inr (last_exit_code_command call st)
      else if cc_name call = ''exit'' then Inr (exit_command OS (Some call) st)
      else if cc_name call = ''pwd'' then pwd OS call st
      else if cc_name call = ''jobs'' then jobs_command OS call st
      else if cc_name call = ''kill'' then Inr (kill_command OS call st)
      else if cc_name call = ''fg'' then Inr (fg_command OS call st)
      else if cc_name call = ''bg'' then Inr (bg_command OS call st)
      else Inr (0, st))"

section \<open>Processes\<close>

text \<open>The loops over the pipes of a command from index \<open>i\<close>.\<close>

fun close_unlisted :: "(fd \<times> fd \<Rightarrow> fd) \<Rightarrow> pipe_info \<Rightarrow> nat \<Rightarrow> (fd \<times> fd) list \<Rightarrow> shell \<Rightarrow> shell" where
  "close_unlisted side pipes i [] st = st"
| "close_unlisted side pipes i (p # ps) st =
     close_unlisted side pipes (i + 1) ps
       (if contains (map int pipes) (int i) then st else sys_close (side p) st)"

definition close_reading_pipes :: "command option \<Rightarrow> command_call option \<Rightarrow> shell \<Rightarrow> shell cres" where
  "close_reading_pipes cmd call st =
     (case (cmd, call) of
        (Some cmd, Some call) \<Rightarrow>
          (if cmd_open_pipes cmd = [] then Inr st
           else case cc_reading_pipes call of
                  None \<Rightarrow> Inl Null_Deref
                | Some pipes \<Rightarrow> Inr (close_unlisted fst pipes 0 (cmd_open_pipes cmd) st))
      | _ \<Rightarrow> Inr st)"

definition close_writing_pipes :: "command option \<Rightarrow> command_call option \<Rightarrow> shell \<Rightarrow> shell cres" where
  "close_writing_pipes cmd call st =
     (case (cmd, call) of
        (Some cmd, Some call) \<Rightarrow>
          (if cmd_open_pipes cmd = [] then Inr st
           else case cc_writing_pipes call of
                  None \<Rightarrow> Inl Null_Deref
                | Some pipes \<Rightarrow> Inr (close_unlisted snd pipes 0 (cmd_open_pipes cmd) st))
      | _ \<Rightarrow> Inr st)"

text \<open>The end of the child: its descriptors, and the program that replaces it.\<close>

definition exec_call :: "os \<Rightarrow> command_call \<Rightarrow> shell \<Rightarrow> 'a proc" where
  "exec_call OS call st =
     (let st = sys_dup2 (cc_stdin call) STDIN_FILENO st;
          st = sys_dup2 (cc_stdout call) STDOUT_FILENO st;
          st = sys_dup2 (cc_stderr call) STDERR_FILENO st;
          (replaced, st) = sys_execvp OS (cc_name call) (cc_argv call) st
      in if replaced then Inr (Replaced (cc_name call) (cc_argv call) st)
         else Inr (Exited 1 (dprintf (cc_stderr call)
                (''jsh: '' @ cc_name call @ '': '' @ strerror_errno OS st @ nl) st)))"

text \<open>
  The branch of \<^verbatim>\<open>execute_single_command\<close> in which \<^verbatim>\<open>fork\<close> answered 0; \<open>p1\<close> and \<open>p2\<close> are
  \<^verbatim>\<open>fd\<close> and \<^verbatim>\<open>fd_2\<close>.
\<close>

definition child_process ::
  "os \<Rightarrow> command \<Rightarrow> command_call \<Rightarrow> fd \<times> fd \<Rightarrow> fd \<times> fd \<Rightarrow> shell \<Rightarrow> 'a proc" where
  "child_process OS cmd call p1 p2 st =
     (let st = sys_close (snd p1) st;
          st = sys_close (fst p2) st;
          (r, st) = sys_read_int OS (fst p1) st
      in case r of
           None \<Rightarrow> Inr (Exited 1 (perror OS ''read'' st))
         | Some pgid \<Rightarrow>
             let st = sys_close (fst p1) st;
                 (r, st) = sys_setpgid OS 0 pgid st
             in if r = -1 then Inr (Exited 1 (perror OS ''setpgid'' st))
                else let (ok, st) = sys_write_int OS (snd p2) pgid st
                in if \<not> ok then Inr (Exited 1 (perror OS ''write'' st))
                else let st = sys_close (snd p2) st
                in bindP (lift_cres (close_reading_pipes (Some cmd) (Some call) st)) (\<lambda>st.
                   bindP (lift_cres (close_writing_pipes (Some cmd) (Some call) st)) (\<lambda>st.
                     let (r, st) = (if \<not> cmd_background cmd
                                    then sys_tcsetpgrp OS STDERR_FILENO pgid st else (0, st))
                     in if r = -1 then Inr (Exited 1 (perror OS ''tcsetpgrp'' st))
                        else bindP (restore_signals OS st) (exec_call OS call))))"

text \<open>The branch of the parent, for a child \<open>p\<close>.\<close>

definition parent_process ::
  "os \<Rightarrow> pid \<Rightarrow> fd \<times> fd \<Rightarrow> fd \<times> fd \<Rightarrow> job \<Rightarrow> shell \<Rightarrow>
     (internal_exit_info option \<times> job \<times> shell) proc" where
  "parent_process OS p p1 p2 j st =
     (let j = (if job_pgid j = 0 then j\<lparr>job_pgid := p\<rparr> else j);
          st = sys_close (fst p1) st;
          st = sys_close (snd p2) st;
          (ok, st) = sys_write_int OS (snd p1) (job_pgid j) st
      in if \<not> ok then ret (None, j, snd (sys_kill OS p SIGKILL (perror OS ''write'' st)))
         else let st = sys_close (snd p1) st;
                  (r, st) = sys_read_int OS (fst p2) st
              in case r of
                   None \<Rightarrow> ret (None, j, snd (sys_kill OS p SIGKILL (perror OS ''read'' st)))
                 | Some dump \<Rightarrow>
                     ret (Some (new_internal_exit_info p UNINITIALIZED_EXIT_CODE), j,
                          sys_close (fst p2) st))"

definition execute_single_command ::
  "os \<Rightarrow> command \<Rightarrow> command_call \<Rightarrow> job \<Rightarrow> shell \<Rightarrow>
     (internal_exit_info option \<times> job \<times> shell) proc" where
  "execute_single_command OS cmd call j st =
     (if is_internal_command call
      then bindP (lift_cres (execute_internal_command OS call st)) (\<lambda>(exit_code, st).
             ret (Some (new_internal_exit_info UNINITIALIZED_PID exit_code), j, st))
      else let (p1, st) = sys_pipe OS st
      in case p1 of
           None \<Rightarrow> ret (None, j, perror OS ''pipe'' st)
         | Some p1 \<Rightarrow>
             let (p2, st) = sys_pipe OS st
             in case p2 of
                  None \<Rightarrow> ret (None, j, perror OS ''pipe'' st)
                | Some p2 \<Rightarrow>
                    let (p, st) = sys_fork OS st
                    in if p = -1 then ret (None, j, perror OS ''fork'' st)
                       else if p = 0 then child_process OS cmd call p1 p2 st
                       else parent_process OS p p1 p2 j st)"

section \<open>Jobs\<close>

text \<open>The loop of \<^verbatim>\<open>execute_as_job\<close> from call \<open>i\<close>.\<close>

fun execute_calls ::
  "os \<Rightarrow> command \<Rightarrow> nat \<Rightarrow> addr list \<Rightarrow> internal_exit_info option \<Rightarrow> job \<Rightarrow> shell \<Rightarrow>
     (internal_exit_info option \<times> job \<times> shell) proc" where
  "execute_calls OS cmd i [] info j st = ret (info, j, st)"
| "execute_calls OS cmd i (a # calls) info j st =
     bindP (lift_cres (read_call a st)) (\<lambda>call.
     bindP (execute_single_command OS cmd call j st) (\<lambda>(info1, j, st).
       case info1 of
         None \<Rightarrow>
           ret (None, j,
                if job_pgid j \<noteq> 0 then snd (sys_kill OS (- job_pgid j) SIGKILL st) else st)
       | Some info1 \<Rightarrow>
           let info = (if i = 0 then Some (new_internal_exit_info (ie_pid info1) (ie_exit_code info1))
                       else info);
               j = (if ie_pid info1 \<noteq> UNINITIALIZED_PID
                    then j\<lparr>job_subjobs :=
                             (job_subjobs j)[i := Some (new_subjob call (ie_pid info1) RUNNING)]\<rparr>
                    else j)
           in execute_calls OS cmd (i + 1) calls info j st))"

definition execute_as_job ::
  "os \<Rightarrow> command \<Rightarrow> job \<Rightarrow> shell \<Rightarrow> (internal_exit_info option \<times> job \<times> shell) proc" where
  "execute_as_job OS cmd j = execute_calls OS cmd 0 (cmd_calls cmd) None j"

definition setup_job :: "command \<Rightarrow> job" where
  "setup_job cmd =
     new_job (command_call_count cmd) (case cmd_string cmd of None \<Rightarrow> [] | Some s \<Rightarrow> s)"

text \<open>
  \<^verbatim>\<open>add_job\<close>, then \<^verbatim>\<open>print_job\<close> on the job, whose number \<^verbatim>\<open>add_job\<close> set, and the result for
  a job that stays in the table.
\<close>

definition register_job ::
  "job \<Rightarrow> internal_exit_info \<Rightarrow> command_result \<Rightarrow> shell \<Rightarrow> command_result \<times> shell" where
  "register_job j info result st =
     (let (jid, st) = add_job (Some j) st;
          j = (if jid = -1 then j else j\<lparr>job_id := nat jid\<rparr>);
          st = print_job j STDERR_FILENO st
      in (result\<lparr>r_job_id := jid, r_pid := ie_pid info, r_exit_code := 0\<rparr>, st))"

definition execute_external_command :: "os \<Rightarrow> command \<Rightarrow> shell \<Rightarrow> (command_result \<times> shell) proc" where
  "execute_external_command OS cmd st =
     (let result = new_command_result 1 cmd
      in bindP (execute_as_job OS cmd (setup_job cmd) st) (\<lambda>(info, j, st).
         let st = close_pipes (cmd_open_pipes cmd) st
         in case info of
              None \<Rightarrow> ret (result, st)
            | Some info \<Rightarrow>
                if \<not> cmd_background cmd
                then let (exit_code, j, st) = blocking_wait_for_job OS j st;
                         (pgrp, st) = sys_getpgrp OS st;
                         (r, st) = sys_tcsetpgrp OS STDERR_FILENO pgrp st
                     in if r = -1 then Inr (Exited 1 (perror OS ''tcsetpgrp'' st))
                     else if exit_code = -1 then ret (result, perror OS ''waitpid'' st)
                     else if job_status j = DONE \<or> job_status j = KILLED \<or> job_status j = DETACHED
                     then ret (result\<lparr>r_exit_code := (if has_exit_code (Some info)
                                                      then ie_exit_code info else exit_code)\<rparr>, st)
                     else ret (register_job j info result st)
                else ret (register_job j info result st)))"

section \<open>Commands\<close>

definition update_command_history :: "command_result option \<Rightarrow> shell \<Rightarrow> shell" where
  "update_command_history result st =
     (case result of None \<Rightarrow> st | Some r \<Rightarrow> st\<lparr>last_exit_code := r_exit_code r\<rparr>)"

definition execute_command :: "os \<Rightarrow> command \<Rightarrow> shell \<Rightarrow> (command_result option \<times> shell) proc" where
  "execute_command OS cmd st =
     bindP (lift_cres (if command_call_count cmd = 1
                       then bindU (read_call (hd (cmd_calls cmd)) st)
                              (\<lambda>call. Inr (if is_internal_command call then Some call else None))
                       else Inr None)) (\<lambda>internal.
     bindP (case internal of
              Some call \<Rightarrow>
                bindP (lift_cres (execute_internal_command OS call st)) (\<lambda>(exit_code, st).
                  ret (new_command_result exit_code cmd, st))
            | None \<Rightarrow> execute_external_command OS cmd st) (\<lambda>(result, st).
     bindP (lift_cres (close_unused_file_descriptors (Some cmd) st)) (\<lambda>st.
       ret (Some result, update_command_history (Some result) st))))"

end
