(* ===== verification/Job_Control.thy ===== *)
theory Job_Control
  imports Builtins
begin

text \<open>
  What the job control promises: job numbers as the user types them (\<^verbatim>\<open>get_job\<close>), the wait
  for a job in the foreground, \<^verbatim>\<open>fg\<close>, \<^verbatim>\<open>kill\<close> and \<^verbatim>\<open>exit\<close>. The definitions are those of
  \<open>Jobs\<close> and \<open>Builtins\<close>.
\<close>

section \<open>Facts\<close>

lemma get_job_step:
  assumes "table_wf st"
  shows "get_job s fd st =
     (if \<not> starts_with s ''%'' then (None, dprintf fd (''invalid job id (missing %)'' @ nl) st)
      else case parse_intmax_t (drop 1 s) of
        Inl msg \<Rightarrow> (None, dprintf fd msg st)
      | Inr v \<Rightarrow>
          if v < 0 then (None, dprintf fd (show_nat (to_uint64 v) @ '':%job can't be negative.'' @ nl) st)
          else if jobs_of st (nat v) \<noteq> None then (Some (nat v - 1), st)
          else (None, dprintf fd (''%'' @ show_nat (nat v) @
                 (if nat v < 1 \<or> nat v > job_table_capacity st \<or> job_table_size st = 0
                  then '': invalid job_id.'' else '': no such job.'') @ nl) st))"
proof -
  have ptr: "job_table_ptr st \<noteq> Null_Table" using assms by (simp add: table_wf_def)
  show ?thesis
  proof (cases "job_table_size st = 0")
    case True
    then have "jobs_of st = (\<lambda>_. None)" using job_table_size_zero [OF assms] by simp
    with True show ?thesis by (simp add: get_job_def Let_def split: sum.splits)
  next
    case False
    then show ?thesis by (auto simp: get_job_def jobs_of_def ptr Let_def split: sum.splits)
  qed
qed

lemma same_globals_get_job: "get_job s fd st = (r, st') \<Longrightarrow> same_globals st st'"
  by (auto simp: get_job_def Let_def split: sum.splits if_splits)

lemma same_globals_kill_query: "kill_query OS err p sig st = (r, st') \<Longrightarrow> same_globals st st'"
  by (auto simp: kill_query_def sys_defs same_globals_iff split: errno.splits if_splits)

lemma kill_target_job:
  assumes "table_wf st" and "cc_argv call ! i = ''%'' @ show_nat n" and "jobs_of st n = Some j"
    and "int n \<le> INTMAX_MAX"
  shows "kill_target OS call i sig st =
     (let (r, st) = kill_query OS (cc_stderr call) (- job_pgid j) sig st in (if r \<noteq> 0 then 0 else 1, st))"
proof -
  have "parse_intmax_t (show_nat n) = Inr (int n)"
    using parse_intmax_t_show_int [of "int n"] assms(4) by (simp add: INTMAX_MIN_def show_int_def)
  then have "get_job (''%'' @ show_nat n) (cc_stderr call) st = (Some (n - 1), st)"
    using assms(3) by (simp add: get_job_step [OF assms(1)])
  moreover have "job_table st ! (n - 1) = Some j" using assms(3) by (simp add: jobs_of_def split: if_splits)
  ultimately show ?thesis by (simp add: kill_target_def assms(2))
qed

lemma kill_query_step:
  fixes OS :: os and st :: shell and p :: pid and sig :: int
  defines "r \<equiv> os_kill OS (trace st) p sig"
  defines "st1 \<equiv> st\<lparr>trace := Ev_Kill p sig r # trace st\<rparr>"
  shows "r \<noteq> -1 \<Longrightarrow> kill_query OS err p sig st = (1, st1)"
    and "r = -1 \<Longrightarrow> \<exists>msg. kill_query OS err p sig st = (0, dprintf err msg st1)"
proof -
  have "sys_kill OS p sig st = (r, st1)" by (simp add: sys_defs r_def st1_def)
  then show "r \<noteq> -1 \<Longrightarrow> kill_query OS err p sig st = (1, st1)"
    and "r = -1 \<Longrightarrow> \<exists>msg. kill_query OS err p sig st = (0, dprintf err msg st1)"
    by (auto simp: kill_query_def split: errno.split)
qed

text \<open>A blocking wait leaves no process of the job running, if none is reported as running.\<close>

lemma blocking_wait_loop_settles:
  assumes "\<And>h p pid status. os_waitpid OS h p [WUNTRACED] = (pid, status) \<Longrightarrow>
      pid \<noteq> 0 \<and> (pid \<noteq> -1 \<longrightarrow> job_status_from_int status \<noteq> RUNNING)"
  shows "blocking_wait_loop OS i subjobs e st = (Some x, subjobs', st') \<Longrightarrow>
     \<not> any_subjob (\<lambda>s. s = RUNNING) subjobs'"
proof (induction subjobs arbitrary: i e st x subjobs' st')
  case (Cons a subjobs)
  show ?case
  proof (cases "a = None \<or> is_finished_status (sj_last_status (the a))")
    case True
    then show ?thesis
      using Cons.prems Cons.IH by (cases a) (auto simp: is_finished_status_iff split: prod.splits)
  next
    case False
    then obtain s where a: "a = Some s" "\<not> is_finished_status (sj_last_status s)" by auto
    obtain pid status where w: "os_waitpid OS (trace st) (sj_pid s) [WUNTRACED] = (pid, status)" by fastforce
    then have "pid \<noteq> 0" "pid \<noteq> -1 \<Longrightarrow> job_status_from_int status \<noteq> RUNNING" using assms by blast+
    then show ?thesis
      using Cons.prems Cons.IH a w
      by (auto simp: sys_waitpid_def process_waitpid_response_def Let_def split: prod.splits if_splits)
  qed
qed auto

lemma WEXITSTATUS_range: "0 \<le> WEXITSTATUS status" "WEXITSTATUS status \<le> 255"
proof -
  have "drop_bit 8 (status AND 0xff00) = drop_bit 8 status AND (0xff :: 32 word)"
    by (subst drop_bit_and) (simp add: drop_bit_eq_div [of 8 "0xff00 :: 32 word"])
  also have "\<dots> = take_bit 8 (drop_bit 8 status)" by (simp add: take_bit_eq_mask mask_eq_exp_minus_1)
  finally have "WEXITSTATUS status = take_bit 8 (uint (drop_bit 8 status))"
    by (simp add: WEXITSTATUS_def unsigned_take_bit_eq)
  then show "0 \<le> WEXITSTATUS status" "WEXITSTATUS status \<le> 255"
    using take_bit_int_less_exp [of 8 "uint (drop_bit 8 status)"] by simp_all
qed

lemma blocking_wait_loop_code:
  "blocking_wait_loop OS i subjobs e st = (Some x, subjobs', st') \<Longrightarrow> 0 \<le> e \<Longrightarrow> e \<le> 255 \<Longrightarrow> 0 \<le> x \<and> x \<le> 255"
proof (induction subjobs arbitrary: i e st x subjobs' st')
  case (Cons a subjobs)
  have "0 \<le> (if c then WEXITSTATUS status else e) \<and> (if c then WEXITSTATUS status else e) \<le> 255" for c status
    using WEXITSTATUS_range Cons.prems(2,3) by simp
  with Cons show ?case by (cases a) (auto simp: Let_def split: prod.splits if_split_asm)
qed auto

lemma blocking_wait_loop_later:
  "blocking_wait_loop OS i subjobs e st = (Some x, subjobs', st') \<Longrightarrow> 0 < i \<Longrightarrow> x = e"
proof (induction subjobs arbitrary: i e st x subjobs' st')
  case (Cons a subjobs)
  then show ?case by (cases a) (auto simp: Let_def split: prod.splits if_split_asm)
qed auto

text \<open>The exit code of a job is that of its first process.\<close>

lemma blocking_wait_loop_first:
  assumes "\<And>h p pid status. os_waitpid OS h p [WUNTRACED] = (pid, status) \<Longrightarrow>
      pid \<noteq> 0 \<and> (pid \<noteq> -1 \<longrightarrow> job_status_from_int status \<noteq> RUNNING)"
    and "blocking_wait_loop OS 0 (Some s # subjobs) 0 st = (Some x, subjobs', st')"
    and "\<not> is_finished_status (sj_last_status s)"
    and "os_waitpid OS (trace st) (sj_pid s) [WUNTRACED] = (pid, status)"
  shows "x = (if job_status_from_int status = STOPPED then 0 else WEXITSTATUS status)"
  using assms(2-4) assms(1) [OF assms(4)]
  by (auto simp: sys_waitpid_def process_waitpid_response_def Let_def split: prod.splits if_splits
      dest!: blocking_wait_loop_later)

lemma jobs_of_same_globals: "same_globals st st' \<Longrightarrow> jobs_of st' = jobs_of st"
  by (auto simp: same_globals_iff jobs_of_def fun_eq_iff)

section \<open>Properties\<close>

text \<open>
  C27. \<^verbatim>\<open>%n\<close> denotes job \<open>n\<close>, for every job in the table, and every other word is refused with
  one message and no other effect: a word without the sign, a word that is no number, a
  negative number, a number that no job has.
\<close>

theorem get_job_denotes:
  assumes "table_wf st"
  shows "(\<forall>n j. jobs_of st n = Some j \<and> int n \<le> INTMAX_MAX \<longrightarrow>
            get_job (''%'' @ show_nat n) fd st = (Some (n - 1), st) \<and> job_table st ! (n - 1) = Some j \<and>
            job_id j = n) \<and>
         (\<forall>s i st'. get_job s fd st = (Some i, st') \<longrightarrow>
            st' = st \<and> starts_with s ''%'' \<and> parse_intmax_t (drop 1 s) = Inr (int (i + 1)) \<and>
            jobs_of st (i + 1) \<noteq> None) \<and>
         (\<forall>s st'. get_job s fd st = (None, st') \<longrightarrow> (\<exists>msg. st' = dprintf fd msg st))"
proof (intro conjI allI impI; (elim conjE)?)
  fix n j assume n: "jobs_of st n = Some j" "int n \<le> INTMAX_MAX"
  have "show_nat n = show_int (int n)" by (simp add: show_int_def)
  then have "parse_intmax_t (show_nat n) = Inr (int n)"
    using n(2) by (simp add: parse_intmax_t_show_int INTMAX_MIN_def)
  then show "get_job (''%'' @ show_nat n) fd st = (Some (n - 1), st)"
    using n(1) by (simp add: get_job_step [OF assms])
  show j: "job_table st ! (n - 1) = Some j" using n(1) by (simp add: jobs_of_def split: if_splits)
  have "n - 1 < job_table_capacity st" "1 \<le> n" using n(1) by (auto simp: jobs_of_def split: if_splits)
  then show "job_id j = n" using assms j unfolding table_wf_def by fastforce
next
  fix s i st' assume g: "get_job s fd st = (Some i, st')"
  then obtain v where v: "starts_with s ''%''" "parse_intmax_t (drop 1 s) = Inr v" "0 \<le> v"
    "jobs_of st (nat v) \<noteq> None" "i = nat v - 1" "st' = st"
    by (auto simp: get_job_step [OF assms] split: if_splits sum.splits)
  then have "int (i + 1) = v" by (auto simp: jobs_of_def split: if_splits)
  then show "st' = st" "starts_with s ''%''" "parse_intmax_t (drop 1 s) = Inr (int (i + 1))"
    "jobs_of st (i + 1) \<noteq> None"
    using v by auto
qed (auto simp: get_job_step [OF assms] split: if_splits sum.splits)

lemma get_job_denotes_witness: "get_job ''%3'' 2 two_jobs = (Some 2, two_jobs)"
proof -
  have "jobs_of two_jobs 3 = Some ((new_job 0 ''b'')\<lparr>job_id := 3\<rparr>)" "int 3 \<le> INTMAX_MAX"
    by (simp_all add: two_jobs_def jobs_of_def INTMAX_MAX_def)
  then have "get_job (''%'' @ show_nat 3) 2 two_jobs = (Some (3 - 1), two_jobs)"
    using get_job_denotes [OF two_jobs_wf, of 2] by blast
  moreover have "show_nat 3 = ''3''" by code_simp
  ultimately show ?thesis by simp
qed

text \<open>
  C25. \<^verbatim>\<open>kill -sig %n\<close> sends exactly that signal to exactly the process group of job \<open>n\<close>, says
  nothing when the kernel accepts it, writes one message and fails otherwise. The job must
  have a process group of its own: that of a job whose calls are all built-ins is 0, and the
  signal then goes to the group of the shell.
\<close>

theorem kill_command_signals_group:
  fixes OS :: os and st :: shell
  assumes "table_wf st" and "jobs_of st n = Some j" and "1 < job_pgid j"
    and "int n \<le> INTMAX_MAX" and "sig < 2 ^ 31"
    and "cc_argv call = [''kill'', ''-'' @ show_nat sig, ''%'' @ show_nat n]" and "cc_argc call = 3"
  defines "r \<equiv> os_kill OS (trace st) (- job_pgid j) (int sig)"
  defines "st1 \<equiv> st\<lparr>trace := Ev_Kill (- job_pgid j) (int sig) r # trace st\<rparr>"
  shows "if r \<noteq> -1 then kill_command OS call st = (0, st1)
         else \<exists>msg. kill_command OS call st = (1, dprintf (cc_stderr call) msg st1)"
proof -
  have "parse_intmax_t (show_nat sig) = Inr (int sig)"
    using parse_intmax_t_show_int [of "int sig"] assms(5)
    by (simp add: INTMAX_MIN_def INTMAX_MAX_def show_int_def)
  moreover have "to_int32 (int sig) = int sig" using assms(5) by (simp add: to_int32_id)
  ultimately have "kill_command OS call st = kill_target OS call 2 (int sig) st"
    using assms(6,7) by (simp add: kill_command_def)
  also have "\<dots> = (let (r, st) = kill_query OS (cc_stderr call) (- job_pgid j) (int sig) st in (if r \<noteq> 0 then 0 else 1, st))"
    using assms by (intro kill_target_job) simp_all
  finally show ?thesis
    using kill_query_step [of OS st "- job_pgid j" "int sig" "cc_stderr call"]
    by (cases "r = -1") (fastforce simp: r_def st1_def)+
qed

definition kill_call :: command_call where
  "kill_call =
     \<lparr>cc_name = ''kill'', cc_argc = 3, cc_argv = [''kill'', ''-9'', ''%3''], cc_command_string = ''kill -9 %3'',
      cc_reading_pipes = None, cc_writing_pipes = None, cc_stdin = 0, cc_stdout = 1, cc_stderr = 2\<rparr>"

definition killed_shell :: shell where
  "killed_shell = two_jobs\<lparr>job_table :=
     [Some ((new_job 0 ''a'')\<lparr>job_id := 1\<rparr>), None, Some ((new_job 1 ''b'')\<lparr>job_id := 3, job_pgid := 4321\<rparr>)]\<rparr>"

lemma killed_shell_wf: "table_wf killed_shell"
  by (auto simp: table_wf_def killed_shell_def two_jobs_def new_job_def nth_Cons split: nat.splits)

lemma kill_command_signals_group_witness:
  "kill_command sample_os kill_call killed_shell = (0, killed_shell\<lparr>trace := [Ev_Kill (-4321) 9 0]\<rparr>)"
proof -
  have "jobs_of killed_shell 3 = Some ((new_job 1 ''b'')\<lparr>job_id := 3, job_pgid := 4321\<rparr>)" "int 3 \<le> INTMAX_MAX"
    by (simp_all add: killed_shell_def two_jobs_def jobs_of_def INTMAX_MAX_def)
  moreover have "''-9'' = ''-'' @ show_nat 9" "''%3'' = ''%'' @ show_nat 3" by code_simp+
  ultimately show ?thesis
    using kill_command_signals_group [OF killed_shell_wf, of 3 _ 9 kill_call sample_os]
    by (simp add: kill_call_def sample_os_def killed_shell_def two_jobs_def new_job_def initial_shell_def)
qed

text \<open>
  C11. \<^verbatim>\<open>exit\<close> ends the shell exactly when, after an update of the jobs, the table is empty and
  the argument, if there is one, is a number from 0 to 255; that number becomes the exit
  status. Otherwise it fails with status 1 and the shell goes on.
\<close>

theorem exit_command_correct:
  fixes OS :: os and st :: shell
  assumes "table_wf st" and "exit_command OS (Some call) st = (r, st')" and "1 \<le> cc_argc call"
    and "\<not> should_exit st"
  shows "table_wf st' \<and>
         (should_exit st' \<longleftrightarrow>
            cc_argc call \<le> 2 \<and> jobs_of (update_jobs OS st) = (\<lambda>_. None) \<and>
            (cc_argc call = 2 \<longrightarrow> (\<exists>v. parse_intmax_t (cc_argv call ! 1) = Inr v \<and> 0 \<le> v \<and> v \<le> 255))) \<and>
         (if should_exit st'
          then jobs_of st' = (\<lambda>_. None) \<and> r = last_exit_code st' \<and>
            (if cc_argc call = 2 then parse_intmax_t (cc_argv call ! 1) = Inr r else r = last_exit_code st)
          else r = 1 \<and> last_exit_code st' = last_exit_code st)"
proof -
  define st1 where "st1 = update_jobs OS st"
  have wf: "table_wf st1" and only: "table_only st st1"
    and run: "are_jobs_running st1 \<longleftrightarrow> job_table_size st1 \<noteq> 0"
    using fd_update_jobs_correct(1,2) [OF assms(1)] are_jobs_running_after_update [OF assms(1)]
    by (simp_all add: st1_def update_jobs_def)
  have empty: "job_table_size st1 = 0 \<longleftrightarrow> jobs_of st1 = (\<lambda>_. None)" by (rule job_table_size_zero [OF wf])
  have keep: "should_exit st1 = should_exit st" "last_exit_code st1 = last_exit_code st"
    using only by (auto simp: table_only_def)
  have wf': "table_wf (dprintf fd m st1)" "table_wf (st1\<lparr>should_exit := True\<rparr>)"
    "table_wf (st1\<lparr>last_exit_code := v, should_exit := True\<rparr>)" "table_wf (dprintf fd m st)" for fd m v
    using wf assms(1) by (simp_all add: table_wf_def dprintf_def record_event_def)
  have jobs': "jobs_of (st1\<lparr>should_exit := True\<rparr>) = jobs_of st1"
    "jobs_of (st1\<lparr>last_exit_code := v, should_exit := True\<rparr>) = jobs_of st1" for v
    by (simp_all add: jobs_of_def fun_eq_iff)
  show ?thesis
    using assms(2-4) wf' jobs' keep run empty
    unfolding exit_command_def st1_def [symmetric]
    by (auto simp: Let_def dprintf_def record_event_def st1_def [symmetric] split: if_splits sum.splits)
qed

definition exit_call :: "string \<Rightarrow> command_call" where
  "exit_call n =
     \<lparr>cc_name = ''exit'', cc_argc = 2, cc_argv = [''exit'', n], cc_command_string = ''exit '' @ n,
      cc_reading_pipes = None, cc_writing_pipes = None, cc_stdin = 0, cc_stdout = 1, cc_stderr = 2\<rparr>"

lemma exit_command_correct_witness:
  "\<exists>st'. exit_command sample_os (Some (exit_call ''7'')) two_jobs = (7, st') \<and> should_exit st' \<and>
     jobs_of st' = (\<lambda>_. None)"
proof -
  obtain r st' where e: "exit_command sample_os (Some (exit_call ''7'')) two_jobs = (r, st')" by fastforce
  have "fst (exit_command sample_os (Some (exit_call ''7'')) two_jobs) = 7" by code_simp
  then have "r = 7" using e by simp
  moreover have "\<not> should_exit two_jobs" by (simp add: two_jobs_def initial_shell_def)
  ultimately show ?thesis
    using exit_command_correct [OF two_jobs_wf e] e by (auto simp: exit_call_def split: if_splits)
qed

text \<open>
  C24. A successful blocking wait never leaves a process of the job running, when \<^verbatim>\<open>waitpid\<close>
  reports what its flags ask for (processes that ended or stopped): the job is then
  stopped, detached, killed or done, as the statuses of its processes say.
\<close>

theorem blocking_wait_settles:
  fixes OS :: os and j :: job and st :: shell
  assumes "\<And>h p pid status. os_waitpid OS h p [WUNTRACED] = (pid, status) \<Longrightarrow>
      pid \<noteq> 0 \<and> (pid \<noteq> -1 \<longrightarrow> job_status_from_int status \<noteq> RUNNING)"
    and "blocking_wait_for_job OS j st = (code, j', st')" and "code \<noteq> -1"
  shows "same_job j j' \<and> RUNNING \<notin> set (subjob_statuses j') \<and> job_status j' \<noteq> RUNNING \<and>
         (job_status j' = STOPPED \<longleftrightarrow> STOPPED \<in> set (subjob_statuses j')) \<and> 0 \<le> code \<and> code \<le> 255 \<and>
         (\<forall>s rest pid status.
            job_subjobs j = Some s # rest \<longrightarrow> \<not> is_finished_status (sj_last_status s) \<longrightarrow>
            os_waitpid OS (trace st) (sj_pid s) [WUNTRACED] = (pid, status) \<longrightarrow>
            code = (if job_status_from_int status = STOPPED then 0 else WEXITSTATUS status))"
proof -
  obtain r sub st1 where w: "blocking_wait_loop OS 0 (job_subjobs j) 0 st = (r, sub, st1)"
    by (metis prod_cases3)
  obtain x where r: "r = Some x" and u: "update_job_status OS (j\<lparr>job_subjobs := sub\<rparr>) st1 = (j', st')" "code = x"
    using assms(2,3) w by (cases r) (auto simp: blocking_wait_for_job_def Let_def split: prod.splits)
  note w = w [unfolded r]
  have "\<not> any_subjob (\<lambda>s. s = RUNNING) sub" using blocking_wait_loop_settles [OF assms(1) w] .
  moreover have sub: "job_subjobs j' = sub" using update_job_status_frame [OF u(1)] by auto
  ultimately have run: "RUNNING \<notin> set (subjob_statuses j')"
    using any_subjob_statuses [of "\<lambda>s. s = RUNNING" j'] by auto
  have "subjob_statuses (j\<lparr>job_subjobs := sub\<rparr>) = subjob_statuses j'" by (simp add: subjob_statuses_def sub)
  then have "\<exists>b. job_status j' = specified_status (subjob_statuses j') b"
    using update_job_status_status [of OS "j\<lparr>job_subjobs := sub\<rparr>" st1] u(1) by auto
  then have "job_status j' \<noteq> RUNNING \<and> (job_status j' = STOPPED \<longleftrightarrow> STOPPED \<in> set (subjob_statuses j'))"
    using run by (auto simp: specified_status_cases split: if_splits)
  moreover have "code = (if job_status_from_int status = STOPPED then 0 else WEXITSTATUS status)"
    if "job_subjobs j = Some s # rest" "\<not> is_finished_status (sj_last_status s)"
      "os_waitpid OS (trace st) (sj_pid s) [WUNTRACED] = (pid, status)" for s rest pid status
    using blocking_wait_loop_first [OF assms(1) w [unfolded that(1)] that(2,3)] u(2) by simp
  moreover have "same_job j j'" using blocking_wait_for_job_frame(2) [OF assms(2)] .
  ultimately show ?thesis using run blocking_wait_loop_code [OF w] u(2) by simp
qed

definition sleeping :: subjob where
  "sleeping = \<lparr>sj_command = ''sleep'', sj_pid = 6000, sj_last_status = RUNNING\<rparr>"

definition sleep_job :: job where
  "sleep_job = (new_job 1 ''sleep'')\<lparr>job_id := 1, job_pgid := 6000, job_subjobs := [Some sleeping]\<rparr>"

text \<open>A kernel that reports every child as exited with status 3.\<close>

definition reaping_os :: os where
  "reaping_os = sample_os\<lparr>os_waitpid := (\<lambda>h p options. (if p = 0 then -1 else p, 0x300))\<rparr>"

lemma blocking_wait_settles_witness:
  "\<exists>j' st'. blocking_wait_for_job reaping_os sleep_job initial_shell = (3, j', st') \<and>
     RUNNING \<notin> set (subjob_statuses j')"
proof -
  obtain code j' st' where b: "blocking_wait_for_job reaping_os sleep_job initial_shell = (code, j', st')"
    by (metis prod_cases3)
  have "fst (blocking_wait_for_job reaping_os sleep_job initial_shell) = 3" by code_simp
  then have "code = 3" using b by simp
  moreover have "job_status_from_int 0x300 \<noteq> RUNNING" by (simp add: job_status_from_int_def WIFEXITED_def)
  ultimately have "RUNNING \<notin> set (subjob_statuses j')"
    by (intro blocking_wait_settles [OF _ b, THEN conjunct2, THEN conjunct1])
      (auto simp: reaping_os_def split: if_splits)
  then show ?thesis using b \<open>code = 3\<close> by simp
qed

text \<open>
  C23. When \<^verbatim>\<open>fg\<close> reports success it has given the terminal to the job and continued its group,
  then waited for the job with \<^verbatim>\<open>blocking_wait_for_job\<close>, which succeeds with the job \<open>j'\<close>, then
  printed the job if it has not finished, and taken the terminal back as its very last
  action. The job is out of the table if the wait found it finished and in its place with
  the statuses that the wait has found otherwise; the table is well-formed, the other jobs
  and the other globals are as before.
\<close>

theorem put_job_in_foreground_correct:
  fixes OS :: os and st :: shell
  assumes "table_wf st" and "jobs_of st (i + 1) = Some j"
    and "put_job_in_foreground OS (Some i) st = (r, st')" and "r \<noteq> 0"
  shows "\<exists>a b code j' st3 pg c. a \<noteq> -1 \<and> b \<noteq> -1 \<and> code \<noteq> -1 \<and> pg \<noteq> -1 \<and> c \<noteq> -1 \<and> same_job j j' \<and>
         blocking_wait_for_job OS j
           (st\<lparr>trace := Ev_Kill (- job_pgid j) SIGCONT b # Ev_Tcsetpgrp STDERR_FILENO (job_pgid j) a # trace st\<rparr>) =
           (code, j', st3) \<and>
         trace st' = Ev_Tcsetpgrp STDERR_FILENO pg c # Ev_Getpgrp pg #
           trace (if is_job_finished (Some j') then st3 else print_job j' STDERR_FILENO st3) \<and>
         jobs_of st' = (jobs_of st)(i + 1 := if is_job_finished (Some j') then None else Some j') \<and>
         table_wf st' \<and> table_only st st'"
proof -
  have i: "i < job_table_capacity st" "job_table st ! i = Some j"
    using assms(2) by (auto simp: jobs_of_def split: if_splits)
  obtain a st1 where s1: "sys_tcsetpgrp OS STDERR_FILENO (job_pgid j) st = (a, st1)" by fastforce
  obtain b st2 where s2: "sys_kill OS (- job_pgid j) SIGCONT st1 = (b, st2)" by fastforce
  obtain code j' st3 where s3: "blocking_wait_for_job OS j st2 = (code, j', st3)" by (metis prod_cases3)
  define st4 where "st4 = st3\<lparr>job_table := (job_table st3)[i := Some j']\<rparr>"
  define st5 where "st5 = (if is_job_finished (Some j') then snd (remove_job (job_id j') st4)
                            else print_job j' STDERR_FILENO st4)"
  obtain pg st6 where s6: "sys_getpgrp OS st5 = (pg, st6)" by fastforce
  obtain c st7 where s7: "sys_tcsetpgrp OS STDERR_FILENO pg st6 = (c, st7)" by fastforce
  have ok: "a \<noteq> -1" "b \<noteq> -1" "c \<noteq> -1" "st' = st7" "code \<noteq> -1" "pg \<noteq> -1"
    using assms(3,4) i(2) s1 s2 s3 s6 s7 unfolding st5_def st4_def
    by (auto simp: Let_def simp del: is_job_finished.simps split: if_split_asm prod.splits)
  have st2: "st2 = st\<lparr>trace := Ev_Kill (- job_pgid j) SIGCONT b # Ev_Tcsetpgrp STDERR_FILENO (job_pgid j) a # trace st\<rparr>"
    using s1 s2 by (auto simp: sys_defs)
  have st7: "st7 = st5\<lparr>trace := Ev_Tcsetpgrp STDERR_FILENO pg c # Ev_Getpgrp pg # trace st5\<rparr>"
    using s6 s7 by (auto simp: sys_defs)
  have j': "same_job j j'" and g3: "same_globals st2 st3"
    using blocking_wait_for_job_frame(1,2) [OF s3] by simp_all
  have wf3: "table_wf st3" "job_table st3 = job_table st"
    using g3 st2 assms(1) by (auto simp: same_globals_iff table_wf_def)
  then have wf4: "table_wf st4" and jobs4: "jobs_of st4 = (jobs_of st)(i + 1 \<mapsto> j')"
    using table_wf_put [of st3 i j j'] i j'
    by (auto simp: st4_def same_job_def jobs_of_def fun_eq_iff nth_list_update)
  have "job_id j' = i + 1" using assms(1) i j' by (simp add: table_wf_def same_job_def)
  define seen where "seen = (if is_job_finished (Some j') then st3 else print_job j' STDERR_FILENO st3)"
  have st5: "table_wf st5 \<and> trace st5 = trace seen \<and> table_only st4 st5 \<and>
      jobs_of st5 = (jobs_of st)(i + 1 := if is_job_finished (Some j') then None else Some j')"
  proof (cases "is_job_finished (Some j')")
    case True
    obtain r5 where r5: "remove_job (i + 1) st4 = (r5, st5)"
      using True \<open>job_id j' = i + 1\<close> by (cases "remove_job (i + 1) st4") (simp add: st5_def)
    note rm = remove_job_correct [OF wf4 r5]
    have "trace st5 = trace st4" using rm(5) by (metis shell.select_convs(1) shell.surjective shell.update_convs(6,7))
    moreover have "table_only st4 st5" using rm(5) by (intro table_only_update) auto
    ultimately show ?thesis using True rm(1,2) jobs4 by (simp add: seen_def st4_def)
  next
    case False
    then have e: "st5 = print_job j' STDERR_FILENO st4" by (simp add: st5_def)
    have "table_wf st5" "jobs_of st5 = jobs_of st4" "table_only st4 st5"
      using table_wf_same_globals [of st4 st5] jobs_of_same_globals [of st4 st5] wf4
      by (simp_all add: e table_only_same_globals)
    moreover have "trace st5 = trace seen"
      using False by (simp add: e seen_def st4_def print_job_def dprintf_def record_event_def)
    ultimately show ?thesis using False jobs4 by simp
  qed
  have "same_globals st5 st'" by (simp add: ok(4) st7 same_globals_def)
  then have "table_wf st'" "jobs_of st' = jobs_of st5" "table_only st5 st'"
    using st5 table_wf_same_globals jobs_of_same_globals table_only_same_globals by simp_all
  moreover have "table_only st st3"
    using g3 table_only_same_globals [of st st3] by (auto simp: st2 same_globals_iff)
  moreover have "table_only st3 st4"
    unfolding st4_def by (rule table_only_update [where n = "job_table_size st3"]) simp
  ultimately have "table_wf st'" "jobs_of st' = jobs_of st5" "table_only st st'"
    using st5 table_only_trans by blast+
  moreover have "trace st' = Ev_Tcsetpgrp STDERR_FILENO pg c # Ev_Getpgrp pg # trace seen"
    using st5 by (simp add: ok(4) st7)
  ultimately show ?thesis
    using st5 j' ok(1-3,5,6) s3 [unfolded st2] unfolding seen_def
    by (intro exI [of _ a] exI [of _ b] exI [of _ code] exI [of _ j'] exI [of _ st3] exI [of _ pg]
          exI [of _ c]) simp
qed

definition foreground_shell :: shell where
  "foreground_shell = initial_shell\<lparr>job_table_ptr := Live_Table, job_table_size := 1, job_table := [Some sleep_job, None]\<rparr>"

lemma put_job_in_foreground_correct_witness:
  "\<exists>st' code j' st3 a b.
     put_job_in_foreground reaping_os (Some 0) foreground_shell = (1, st') \<and> table_wf st' \<and>
     blocking_wait_for_job reaping_os sleep_job
       (foreground_shell\<lparr>trace := [Ev_Kill (-6000) SIGCONT b, Ev_Tcsetpgrp 2 6000 a]\<rparr>) = (code, j', st3) \<and>
     jobs_of st' = (jobs_of foreground_shell)(1 := if is_job_finished (Some j') then None else Some j')"
proof -
  obtain r st' where f: "put_job_in_foreground reaping_os (Some 0) foreground_shell = (r, st')" by fastforce
  have "fst (put_job_in_foreground reaping_os (Some 0) foreground_shell) = 1" by code_simp
  then have r: "r = 1" using f by simp
  have "table_wf foreground_shell"
    by (auto simp: table_wf_def foreground_shell_def sleep_job_def less_2_cases_iff nth_Cons split: nat.splits)
  moreover have "jobs_of foreground_shell (0 + 1) = Some sleep_job"
    by (simp add: jobs_of_def foreground_shell_def)
  moreover have "trace foreground_shell = []" "job_pgid sleep_job = 6000"
    by (simp_all add: foreground_shell_def initial_shell_def sleep_job_def)
  ultimately show ?thesis using put_job_in_foreground_correct [OF _ _ f] f r by fastforce
qed

end
