(* ===== verification/Execution.thy ===== *)
theory Execution
  imports Internals Job_Control "HOL-Library.Multiset"
begin

text \<open>
  What \<^verbatim>\<open>execute_single_command\<close> does to the two processes after \<^verbatim>\<open>fork\<close>: the child never
  comes back into the code of the shell, and starts its program with the descriptors, the
  process group and the signals it has to have; the parent closes what it opened. The
  definitions are those of \<open>Internals\<close>.
\<close>

section \<open>Facts\<close>

text \<open>A computation of a process that never goes on: it exits, is replaced, or misbehaves.\<close>

fun never_returns :: "'a proc \<Rightarrow> bool" where
  "never_returns (Inl u) \<longleftrightarrow> True"
| "never_returns (Inr (Running x)) \<longleftrightarrow> False"
| "never_returns (Inr r) \<longleftrightarrow> True"

lemma never_returns_bind: "(\<And>x. never_returns (f x)) \<Longrightarrow> never_returns (bindP m f)"
proof (cases m)
  case (Inr r)
  then show "(\<And>x. never_returns (f x)) \<Longrightarrow> never_returns (bindP m f)" by (cases r) auto
qed simp

lemma never_returns_exec: "never_returns (exec_call OS call st)"
  by (simp add: exec_call_def Let_def split: prod.splits)

lemma never_returns_child: "never_returns (child_process OS cmd call p1 p2 st)"
  unfolding child_process_def Let_def
  by (auto split: prod.splits option.splits intro!: never_returns_bind never_returns_exec)

text \<open>The ends of the pipes that a loop closes.\<close>

definition unlisted :: "(fd \<times> fd \<Rightarrow> fd) \<Rightarrow> pipe_info \<Rightarrow> nat \<Rightarrow> (fd \<times> fd) list \<Rightarrow> fd list" where
  "unlisted side pipes i ps = [side (ps ! k). k \<leftarrow> [0..<length ps], i + k \<notin> set pipes]"

lemma close_unlisted_trace:
  "close_unlisted side pipes i ps st = st\<lparr>trace := rev (map Ev_Close (unlisted side pipes i ps)) @ trace st\<rparr>"
proof (induction side pipes i ps st rule: close_unlisted.induct)
  case (2 side pipes i p ps st)
  have "unlisted side pipes i (p # ps) =
      (if i \<in> set pipes then [] else [side p]) @ unlisted side pipes (i + 1) ps"
    by (simp add: unlisted_def upt_conv_Cons map_Suc_upt [symmetric] comp_def cong: if_cong del: upt_Suc)
  with 2 show ?case by (auto simp: sys_close_def record_event_def)
qed (simp add: unlisted_def)

lemma set_unlisted: "set (unlisted side pipes 0 ps) = {side (ps ! k) |k. k < length ps \<and> k \<notin> set pipes}"
  by (auto simp: unlisted_def)

text \<open>The signals that were set, with the answers of the kernel.\<close>

lemma set_signal_actions_loop_trace:
  "set_signal_actions_loop OS h sigs st = ret st' \<Longrightarrow>
     \<exists>rs. length rs = length sigs \<and> -1 \<notin> set rs \<and>
       trace st' = rev (map2 (\<lambda>sig r. Ev_Sigaction sig h r) sigs rs) @ trace st"
proof (induction sigs arbitrary: st)
  case (Cons s sigs)
  obtain r st1 where s1: "sys_sigaction OS s h st = (r, st1)" by fastforce
  then have r: "r \<noteq> -1" and l: "set_signal_actions_loop OS h sigs st1 = ret st'"
    using Cons.prems by (auto split: if_splits)
  have "trace st1 = Ev_Sigaction s h r # trace st" using s1 by (auto simp: sys_defs)
  moreover obtain rs where "length rs = length sigs" "-1 \<notin> set rs"
    "trace st' = rev (map2 (\<lambda>sig r. Ev_Sigaction sig h r) sigs rs) @ trace st1"
    using Cons.IH [OF l] by blast
  ultimately show ?case using r by (intro exI [of _ "r # rs"]) simp
qed simp

section \<open>The two sides of the handshake\<close>

text \<open>
  What the parent and the child do between \<^verbatim>\<open>fork\<close> and the return of
  \<^verbatim>\<open>execute_single_command\<close>, respectively the closing of the pipes, in order: \<open>pg\<close> is the
  process group and \<open>v\<close> the number the parent reads back.
\<close>

definition parent_script :: "fd \<times> fd \<Rightarrow> fd \<times> fd \<Rightarrow> pid \<Rightarrow> int \<Rightarrow> event list" where
  "parent_script p1 p2 pg v =
     [Ev_Close (fst p1), Ev_Close (snd p2), Ev_Write_Int (snd p1) pg True, Ev_Close (snd p1),
      Ev_Read_Int (fst p2) (Some v), Ev_Close (fst p2)]"

definition child_script :: "fd \<times> fd \<Rightarrow> fd \<times> fd \<Rightarrow> pid \<Rightarrow> int \<Rightarrow> event list" where
  "child_script p1 p2 pg r =
     [Ev_Close (snd p1), Ev_Close (fst p2), Ev_Read_Int (fst p1) (Some pg), Ev_Close (fst p1),
      Ev_Setpgid 0 pg r, Ev_Write_Int (snd p2) pg True, Ev_Close (snd p2)]"

lemma parent_process_Some:
  assumes "parent_process OS p p1 p2 j st = ret (Some info, j', st')"
  defines "pg \<equiv> (if job_pgid j = 0 then p else job_pgid j)"
  shows "info = new_internal_exit_info p UNINITIALIZED_EXIT_CODE" and "j' = j\<lparr>job_pgid := pg\<rparr>"
    and "\<exists>v. st' = st\<lparr>trace := rev (parent_script p1 p2 pg v) @ trace st\<rparr>"
proof -
  have "j\<lparr>job_pgid := pg\<rparr> = (if job_pgid j = 0 then j\<lparr>job_pgid := p\<rparr> else j)" by (simp add: pg_def)
  then show "info = new_internal_exit_info p UNINITIALIZED_EXIT_CODE" "j' = j\<lparr>job_pgid := pg\<rparr>"
    "\<exists>v. st' = st\<lparr>trace := rev (parent_script p1 p2 pg v) @ trace st\<rparr>"
    using assms(1)
    by (auto simp: parent_process_def sys_defs parent_script_def pg_def split: if_splits option.splits)
qed

lemma parent_process_returns: "\<exists>r. parent_process OS p p1 p2 j st = ret r"
  by (auto simp: parent_process_def Let_def split: prod.splits option.splits)

lemma bindP_eq_Replaced:
  "bindP m f = Inr (Replaced p args st) \<longleftrightarrow>
     m = Inr (Replaced p args st) \<or> (\<exists>x. m = ret x \<and> f x = Inr (Replaced p args st))"
proof (cases m)
  case (Inr r)
  then show ?thesis by (cases r) auto
qed simp

lemma lift_cres_not_Replaced [simp]: "lift_cres m \<noteq> Inr (Replaced p args st)"
  by (cases m) simp_all

lemma restore_signals_not_Replaced [simp]: "restore_signals OS st \<noteq> Inr (Replaced p args st')"
proof -
  have "set_signal_actions_loop OS h sigs st \<noteq> Inr (Replaced p args st')" for h sigs
    by (induction sigs arbitrary: st) (auto split: prod.splits)
  then show ?thesis by (simp add: restore_signals_def set_signal_actions_def)
qed

lemma exec_call_Replaced:
  "exec_call OS call st = Inr (Replaced prog args st') \<Longrightarrow> prog = cc_name call \<and> args = cc_argv call \<and>
     st' = st\<lparr>trace := [Ev_Execvp (cc_name call) (cc_argv call), Ev_Dup2 (cc_stderr call) STDERR_FILENO,
                       Ev_Dup2 (cc_stdout call) STDOUT_FILENO, Ev_Dup2 (cc_stdin call) STDIN_FILENO] @ trace st\<rparr>"
  by (auto simp: exec_call_def sys_defs split: if_splits)

definition listed :: "pipe_info option \<Rightarrow> pipe_info" where
  "listed info = (case info of None \<Rightarrow> [] | Some pipes \<Rightarrow> pipes)"

lemma close_pipes_of_child:
  "close_reading_pipes (Some cmd) (Some call) st = Inr st' \<Longrightarrow>
     st' = st\<lparr>trace := rev (map Ev_Close (unlisted fst (listed (cc_reading_pipes call)) 0 (cmd_open_pipes cmd))) @ trace st\<rparr>"
  "close_writing_pipes (Some cmd) (Some call) st = Inr st' \<Longrightarrow>
     st' = st\<lparr>trace := rev (map Ev_Close (unlisted snd (listed (cc_writing_pipes call)) 0 (cmd_open_pipes cmd))) @ trace st\<rparr>"
  by (auto simp: close_reading_pipes_def close_writing_pipes_def close_unlisted_trace listed_def unlisted_def
      split: if_splits option.splits)

lemma child_process_Replaced:
  assumes "(child_process OS cmd call p1 p2 st :: 'a proc) = Inr (Replaced prog args st')"
  shows "\<exists>pg r tc st2 st3 st4. r \<noteq> -1 \<and>
    close_reading_pipes (Some cmd) (Some call) (st\<lparr>trace := rev (child_script p1 p2 pg r) @ trace st\<rparr>) = Inr st2 \<and>
    close_writing_pipes (Some cmd) (Some call) st2 = Inr st3 \<and>
    (if cmd_background cmd then tc = [] else \<exists>t. t \<noteq> -1 \<and> tc = [Ev_Tcsetpgrp STDERR_FILENO pg t]) \<and>
    restore_signals OS (st3\<lparr>trace := tc @ trace st3\<rparr>) = ret st4 \<and>
    (exec_call OS call st4 :: 'a proc) = Inr (Replaced prog args st')"
proof (cases "cmd_background cmd")
  case True
  have "\<exists>pg r st2 st3 st4. r \<noteq> -1 \<and>
    close_reading_pipes (Some cmd) (Some call) (st\<lparr>trace := rev (child_script p1 p2 pg r) @ trace st\<rparr>) = Inr st2 \<and>
    close_writing_pipes (Some cmd) (Some call) st2 = Inr st3 \<and> restore_signals OS st3 = ret st4 \<and>
    (exec_call OS call st4 :: 'a proc) = Inr (Replaced prog args st')"
    using assms True unfolding child_process_def
    by (auto simp: sys_defs child_script_def bindP_eq_Replaced split: option.splits if_split_asm) blast
  then obtain pg r st2 st3 st4 where "r \<noteq> -1"
    "close_reading_pipes (Some cmd) (Some call) (st\<lparr>trace := rev (child_script p1 p2 pg r) @ trace st\<rparr>) = Inr st2"
    "close_writing_pipes (Some cmd) (Some call) st2 = Inr st3" "restore_signals OS st3 = ret st4"
    "(exec_call OS call st4 :: 'a proc) = Inr (Replaced prog args st')" by blast
  with True show ?thesis by (intro exI [of _ pg] exI [of _ r] exI [of _ "[]"]) auto
next
  case False
  have "\<exists>pg r t st2 st3 st4. r \<noteq> -1 \<and> t \<noteq> -1 \<and>
    close_reading_pipes (Some cmd) (Some call) (st\<lparr>trace := rev (child_script p1 p2 pg r) @ trace st\<rparr>) = Inr st2 \<and>
    close_writing_pipes (Some cmd) (Some call) st2 = Inr st3 \<and>
    restore_signals OS (st3\<lparr>trace := Ev_Tcsetpgrp STDERR_FILENO pg t # trace st3\<rparr>) = ret st4 \<and>
    (exec_call OS call st4 :: 'a proc) = Inr (Replaced prog args st')"
    using assms False unfolding child_process_def
    by (auto simp: sys_defs child_script_def bindP_eq_Replaced split: option.splits if_split_asm) blast
  then obtain pg r t st2 st3 st4 where h: "r \<noteq> -1" "t \<noteq> -1"
    "close_reading_pipes (Some cmd) (Some call) (st\<lparr>trace := rev (child_script p1 p2 pg r) @ trace st\<rparr>) = Inr st2"
    "close_writing_pipes (Some cmd) (Some call) st2 = Inr st3"
    "restore_signals OS (st3\<lparr>trace := Ev_Tcsetpgrp STDERR_FILENO pg t # trace st3\<rparr>) = ret st4"
    "(exec_call OS call st4 :: 'a proc) = Inr (Replaced prog args st')" by blast
  with False show ?thesis by (intro exI [of _ pg] exI [of _ r] exI [of _ "[Ev_Tcsetpgrp STDERR_FILENO pg t]"]) auto
qed

section \<open>The job of a command\<close>

lemma register_job_correct:
  assumes "table_wf st" and "register_job j i result st = (result', st')"
  shows "\<exists>n. 1 \<le> n \<and> r_job_id result' = int n \<and> r_exit_code result' = 0 \<and> r_pid result' = ie_pid i \<and>
           jobs_of st n = None \<and> (\<forall>m. 1 \<le> m \<longrightarrow> m < n \<longrightarrow> jobs_of st m \<noteq> None) \<and>
           jobs_of st' = (jobs_of st)(n \<mapsto> j\<lparr>job_id := n\<rparr>)"
proof -
  obtain n st1 where a: "add_job (Some j) st = (int n, st1)" "1 \<le> n" "jobs_of st n = None"
    "\<forall>m. 1 \<le> m \<longrightarrow> m < n \<longrightarrow> jobs_of st m \<noteq> None" "jobs_of st1 = (jobs_of st)(n \<mapsto> j\<lparr>job_id := n\<rparr>)"
    using add_job_correct [OF assms(1), of j] by blast
  have "jobs_of (print_job j' fd st1) = jobs_of st1" for j' fd
    by (simp add: print_job_def dprintf_def record_event_def jobs_of_def fun_eq_iff)
  then show ?thesis
    using assms(2) a by (auto simp: register_job_def Let_def simp del: add_job.simps)
qed

lemma close_pipes_globals: "same_globals st (close_pipes ps st)"
proof (induction ps arbitrary: st)
  case (Cons p ps)
  obtain rd wr where p: "p = (rd, wr)" by fastforce
  have "same_globals st (sys_close wr (sys_close rd st))"
    by (simp add: sys_close_def record_event_def same_globals_def)
  then show ?case unfolding p close_pipes.simps using same_globals_trans Cons.IH by blast
qed simp

section \<open>Properties\<close>

definition ls_call :: command_call where
  "ls_call =
     \<lparr>cc_name = ''ls'', cc_argc = 1, cc_argv = [''ls''], cc_command_string = ''ls'',
      cc_reading_pipes = Some [], cc_writing_pipes = Some [0], cc_stdin = 0, cc_stdout = 4, cc_stderr = 2\<rparr>"

definition ls_command :: command where
  "ls_command =
     \<lparr>cmd_string = Some ''ls | wc'', cmd_calls = [0, 1], cmd_background = False, cmd_open_pipes = [(3, 4)]\<rparr>"

text \<open>
  C9. Between \<^verbatim>\<open>fork\<close> and the new program the child does exactly the following: its side of the
  handshake, in which it joins the process group it was told; closes, of the pipes of the
  command, every end that is not its own; takes the terminal unless it runs in the
  background; gives the six signals the shell ignores their default action, and leaves the
  others; and puts its three descriptors on 0, 1 and 2 before it starts its own program.
\<close>

theorem child_starts_program:
  assumes "child_process OS cmd call p1 p2 st = Inr (Replaced prog args st')"
  shows "prog = cc_name call \<and> args = cc_argv call \<and>
    (\<exists>pg r tc sigs. r \<noteq> -1 \<and>
       (if cmd_background cmd then tc = [] else \<exists>t. t \<noteq> -1 \<and> tc = [Ev_Tcsetpgrp STDERR_FILENO pg t]) \<and>
       trace st' =
         [Ev_Execvp prog args, Ev_Dup2 (cc_stderr call) STDERR_FILENO,
          Ev_Dup2 (cc_stdout call) STDOUT_FILENO, Ev_Dup2 (cc_stdin call) STDIN_FILENO] @ sigs @ tc @
         rev (map Ev_Close (unlisted fst (listed (cc_reading_pipes call)) 0 (cmd_open_pipes cmd) @
                            unlisted snd (listed (cc_writing_pipes call)) 0 (cmd_open_pipes cmd))) @
         rev (child_script p1 p2 pg r) @ trace st) \<and>
    (\<forall>sig. disposition (trace st') sig =
             (if sig \<in> set signals_to_ignore then SIG_DFL else disposition (trace st) sig)) \<and>
    same_globals st st'"
proof -
  obtain pg r tc st2 st3 st4 where h: "r \<noteq> -1"
    "close_reading_pipes (Some cmd) (Some call) (st\<lparr>trace := rev (child_script p1 p2 pg r) @ trace st\<rparr>) = Inr st2"
    "close_writing_pipes (Some cmd) (Some call) st2 = Inr st3"
    "if cmd_background cmd then tc = [] else \<exists>t. t \<noteq> -1 \<and> tc = [Ev_Tcsetpgrp STDERR_FILENO pg t]"
    "restore_signals OS (st3\<lparr>trace := tc @ trace st3\<rparr>) = ret st4"
    "(exec_call OS call st4 :: 'a proc) = Inr (Replaced prog args st')"
    using child_process_Replaced [OF assms] by blast
  note e = exec_call_Replaced [OF h(6)]
  note c = close_pipes_of_child(1) [OF h(2)] close_pipes_of_child(2) [OF h(3)]
  obtain sigs where sigs: "trace st4 = sigs @ tc @ trace st3"
    using set_signal_actions_loop_trace [OF h(5) [unfolded restore_signals_def set_signal_actions_def]]
    by auto
  have closes: "disposition (rev (map Ev_Close xs) @ hist) sig = disposition hist sig" for xs hist sig
    by (induction xs rule: rev_induct) auto
  have tc: "disposition (tc @ hist) sig = disposition hist sig" for hist sig using h(4) by (auto split: if_splits)
  have script: "disposition (rev (child_script p1 p2 pg r) @ hist) sig = disposition hist sig" for hist sig
    by (simp add: child_script_def)
  have "disposition (trace st3) sig = disposition (trace st) sig" for sig
    by (simp add: c closes script)
  then have "\<forall>sig. disposition (trace st') sig =
      (if sig \<in> set signals_to_ignore then SIG_DFL else disposition (trace st) sig)"
    using set_signal_actions_running [OF h(5) [unfolded restore_signals_def]] e by (simp add: tc)
  moreover have "same_globals st st'"
    using set_signal_actions_running [OF h(5) [unfolded restore_signals_def]] e c
    by (auto simp: same_globals_iff)
  moreover have "trace st' = [Ev_Execvp prog args, Ev_Dup2 (cc_stderr call) STDERR_FILENO,
          Ev_Dup2 (cc_stdout call) STDOUT_FILENO, Ev_Dup2 (cc_stdin call) STDIN_FILENO] @ sigs @ tc @
         rev (map Ev_Close (unlisted fst (listed (cc_reading_pipes call)) 0 (cmd_open_pipes cmd) @
                            unlisted snd (listed (cc_writing_pipes call)) 0 (cmd_open_pipes cmd))) @
         rev (child_script p1 p2 pg r) @ trace st"
    using e by (simp add: sigs c)
  ultimately show ?thesis using e h(1,4) by blast
qed

lemma child_starts_program_witness:
  "\<exists>st'. child_process sample_os ls_command ls_call (5, 6) (7, 8) initial_shell =
           (Inr (Replaced ''ls'' [''ls''] st') :: nat proc) \<and>
         (\<forall>sig. disposition (trace st') sig = SIG_DFL)"
proof -
  let ?p = "child_process sample_os ls_command ls_call (5, 6) (7, 8) initial_shell :: nat proc"
  have "case ?p of Inr (Replaced prog args st') \<Rightarrow> prog = ''ls'' \<and> args = [''ls''] | _ \<Rightarrow> False" by code_simp
  then obtain st' where p: "?p = Inr (Replaced ''ls'' [''ls''] st')"
    by (cases ?p) (auto split: run.splits)
  have "\<forall>sig. disposition (trace st') sig = SIG_DFL"
    using child_starts_program [OF p] by (simp add: initial_shell_def)
  then show ?thesis using p by blast
qed

text \<open>What the parent has done when its side of an external call succeeds.\<close>

lemma started_call:
  assumes "execute_single_command OS cmd call j st = ret (Some info, j', st')"
    and "\<not> is_internal_command call"
  shows "\<exists>p p1 p2 v. p \<noteq> 0 \<and> p \<noteq> -1 \<and> info = new_internal_exit_info p UNINITIALIZED_EXIT_CODE \<and>
     p = os_fork OS (Ev_Pipe (Some p2) # Ev_Pipe (Some p1) # trace st) \<and>
     j' = j\<lparr>job_pgid := (if job_pgid j = 0 then p else job_pgid j)\<rparr> \<and>
     st' = st\<lparr>trace := rev (parent_script p1 p2 (job_pgid j') v) @
       [Ev_Fork p, Ev_Pipe (Some p2), Ev_Pipe (Some p1)] @ trace st\<rparr>"
proof -
  obtain p1 st1 where s1: "sys_pipe OS st = (Some p1, st1)"
    using assms by (auto simp: execute_single_command_def Let_def split: prod.splits option.splits)
  obtain p2 st2 where s2: "sys_pipe OS st1 = (Some p2, st2)"
    using assms s1 by (auto simp: execute_single_command_def Let_def split: prod.splits option.splits)
  obtain p st3 where s3: "sys_fork OS st2 = (p, st3)" by fastforce
  have "child_process OS cmd call p1 p2 st3 \<noteq> ret (Some info, j', st')"
    using never_returns_child never_returns.simps(2) by metis
  then have p: "p \<noteq> -1" "p \<noteq> 0" and par: "parent_process OS p p1 p2 j st3 = ret (Some info, j', st')"
    using assms s1 s2 s3 by (auto simp: execute_single_command_def split: if_splits)
  obtain v where st': "st' = st3\<lparr>trace := rev (parent_script p1 p2 (if job_pgid j = 0 then p else job_pgid j) v) @ trace st3\<rparr>"
    using parent_process_Some(3) [OF par] by blast
  have st3: "st3 = st\<lparr>trace := [Ev_Fork p, Ev_Pipe (Some p2), Ev_Pipe (Some p1)] @ trace st\<rparr>"
    and "p = os_fork OS (Ev_Pipe (Some p2) # Ev_Pipe (Some p1) # trace st)"
    using s1 s2 s3 by (auto simp: sys_defs)
  then show ?thesis
    using p parent_process_Some(1,2) [OF par]
    by (intro exI [of _ p] exI [of _ p1] exI [of _ p2] exI [of _ v]) (simp add: st' st3)
qed

text \<open>The script closes all that the two calls of \<^verbatim>\<open>pipe\<close> have opened.\<close>

lemma parent_script_balanced:
  "mset (open_fds (rev (parent_script p1 p2 pg v) @ [Ev_Fork p, Ev_Pipe (Some p2), Ev_Pipe (Some p1)] @ h)) =
     mset (open_fds h)"
proof -
  have "mset (open_fds (rev (parent_script p1 p2 pg v) @ [Ev_Fork p, Ev_Pipe (Some p2), Ev_Pipe (Some p1)] @ h)) =
      mset (fst p2 # snd p2 # fst p1 # snd p1 # open_fds h) - {#fst p1#} - {#snd p2#} - {#snd p1#} - {#fst p2#}"
    by (cases p1; cases p2) (simp add: parent_script_def mset_remove1)
  also have "\<dots> = mset (open_fds h)" by (rule multiset_eqI) auto
  finally show ?thesis .
qed

text \<open>
  C10. When the parent's side of an external call succeeds, it has done exactly its script of the
  handshake, with the group of the job; it has closed all four ends of the two pipes, so
  that no descriptor is open that was not open before; the child's number is in the result,
  and the job's group is the number of its first child.
\<close>

theorem parent_closes_pipes:
  assumes "execute_single_command OS cmd call j st = ret (Some info, j', st')"
    and "\<not> is_internal_command call"
  shows "ie_pid info \<noteq> 0 \<and> ie_pid info \<noteq> -1 \<and> ie_exit_code info = UNINITIALIZED_EXIT_CODE \<and>
         j' = j\<lparr>job_pgid := (if job_pgid j = 0 then ie_pid info else job_pgid j)\<rparr> \<and>
         same_globals st st' \<and> mset (open_fds (trace st')) = mset (open_fds (trace st)) \<and>
         (\<exists>p1 p2 v. trace st' = rev (parent_script p1 p2 (job_pgid j') v) @
            [Ev_Fork (ie_pid info), Ev_Pipe (Some p2), Ev_Pipe (Some p1)] @ trace st)"
  using started_call [OF assms] parent_script_balanced
  by (auto simp: new_internal_exit_info_def same_globals_iff)

lemma parent_closes_pipes_witness:
  "\<exists>info j' st'. execute_single_command sample_os ls_command ls_call (setup_job ls_command) initial_shell =
       ret (Some info, j', st') \<and> open_fds (trace st') = [] \<and> job_pgid j' = ie_pid info"
proof -
  let ?e = "execute_single_command sample_os ls_command ls_call (setup_job ls_command) initial_shell"
  have "case ?e of Inr (Running (Some info, j', st')) \<Rightarrow> True | _ \<Rightarrow> False" by code_simp
  then obtain info j' st' where e: "?e = ret (Some info, j', st')"
    by (cases ?e) (auto split: run.splits option.splits)
  have "\<not> is_internal_command ls_call" by code_simp
  with parent_closes_pipes [OF e] e show ?thesis
    by (auto simp: initial_shell_def setup_job_def new_job_def)
qed

text \<open>
  C20. What becomes of a command whose processes have been started. In the background it is in
  the job table at once, under the least free number, with no wait. In the foreground, when
  the wait and the return of the terminal succeed, a command that ended is not in the table
  and gives its exit code, and one that was stopped is in the table.
\<close>

theorem started_command_outcome:
  fixes OS :: os and cmd :: command and st :: shell
  assumes "table_wf st1" and "execute_as_job OS cmd (setup_job cmd) st = ret (Some info, j, st1)"
    and "execute_external_command OS cmd st = ret (result, st')"
  defines "waited \<equiv> blocking_wait_for_job OS j (close_pipes (cmd_open_pipes cmd) st1)"
  shows "if cmd_background cmd
         then \<exists>n. 1 \<le> n \<and> r_job_id result = int n \<and> r_exit_code result = 0 \<and> r_pid result = ie_pid info \<and>
                jobs_of st1 n = None \<and> (\<forall>m. 1 \<le> m \<longrightarrow> m < n \<longrightarrow> jobs_of st1 m \<noteq> None) \<and>
                jobs_of st' = (jobs_of st1)(n \<mapsto> j\<lparr>job_id := n\<rparr>)
         else fst waited \<noteq> -1 \<longrightarrow>
           (if job_status (fst (snd waited)) \<in> {DONE, KILLED, DETACHED}
            then jobs_of st' = jobs_of st1 \<and> r_job_id result = UNINITIALIZED_JOB_ID \<and>
              r_exit_code result = (if ie_exit_code info \<noteq> -1 then ie_exit_code info else fst waited)
            else \<exists>n. 1 \<le> n \<and> r_job_id result = int n \<and> r_exit_code result = 0 \<and> jobs_of st1 n = None \<and>
              jobs_of st' = (jobs_of st1)(n \<mapsto> (fst (snd waited))\<lparr>job_id := n\<rparr>))"
proof -
  define st2 where "st2 = close_pipes (cmd_open_pipes cmd) st1"
  have g2: "same_globals st1 st2" unfolding st2_def by (rule close_pipes_globals)
  obtain code j2 st3 where w: "blocking_wait_for_job OS j st2 = (code, j2, st3)" by (metis prod_cases3)
  obtain pg st4 where p: "sys_getpgrp OS st3 = (pg, st4)" by fastforce
  obtain r st5 where t: "sys_tcsetpgrp OS STDERR_FILENO pg st4 = (r, st5)" by fastforce
  have "same_globals st3 st5" using p t by (auto simp: sys_defs same_globals_iff)
  then have g5: "same_globals st1 st5"
    using g2 blocking_wait_for_job_frame(1) [OF w] same_globals_trans by blast
  note same = jobs_of_same_globals [OF g2] jobs_of_same_globals [OF g5] table_wf_same_globals [OF g2] table_wf_same_globals [OF g5]
  define result0 where "result0 = new_command_result 1 cmd"
  have run: "execute_external_command OS cmd st =
      (if \<not> cmd_background cmd
       then if r = -1 then Inr (Exited 1 (perror OS ''tcsetpgrp'' st5))
         else if code = -1 then ret (result0, perror OS ''waitpid'' st5)
         else if job_status j2 = DONE \<or> job_status j2 = KILLED \<or> job_status j2 = DETACHED
         then ret (result0\<lparr>r_exit_code := (if has_exit_code (Some info) then ie_exit_code info else code)\<rparr>, st5)
         else ret (register_job j2 info result0 st5)
       else ret (register_job j info result0 st2))"
    using assms(2) w p t
    by (simp add: execute_external_command_def Let_def st2_def [symmetric] result0_def [symmetric])
  have waited: "waited = (code, j2, st3)" using w by (simp add: waited_def st2_def)
  show ?thesis
  proof (cases "cmd_background cmd")
    case True
    then have "register_job j info result0 st2 = (result, st')" using run assms(3) by simp
    then show ?thesis using True register_job_correct [of st2] same assms(1) by auto
  next
    case False
    consider "code = -1" | "code \<noteq> -1" "job_status j2 \<in> {DONE, KILLED, DETACHED}"
      | "code \<noteq> -1" "job_status j2 \<notin> {DONE, KILLED, DETACHED}" by blast
    then show ?thesis
    proof cases
      case 3
      then have "register_job j2 info result0 st5 = (result, st')"
        using run assms(3) False by (simp split: if_splits)
      then show ?thesis using 3 False register_job_correct [of st5 j2 info result0] same assms(1) waited by auto
    next
      case 2
      then have "result0\<lparr>r_exit_code := (if has_exit_code (Some info) then ie_exit_code info else code)\<rparr> = result"
        "st' = st5"
        using run assms(3) False by (auto split: if_split_asm)
      then show ?thesis
        using 2 False same waited by (auto simp: result0_def new_command_result_def has_exit_code_def)
    qed (use False waited in simp)
  qed
qed

definition sleep_call :: command_call where
  "sleep_call =
     \<lparr>cc_name = ''sleep'', cc_argc = 1, cc_argv = [''sleep''], cc_command_string = ''sleep'',
      cc_reading_pipes = Some [], cc_writing_pipes = Some [], cc_stdin = 0, cc_stdout = 1, cc_stderr = 2\<rparr>"

definition sleep_command :: command where
  "sleep_command = \<lparr>cmd_string = Some ''sleep'', cmd_calls = [0], cmd_background = True, cmd_open_pipes = []\<rparr>"

definition sleep_shell :: shell where
  "sleep_shell = two_jobs\<lparr>call_heap := [Some sleep_call]\<rparr>"

lemma started_run:
  assumes "case e of Inr (Running (Some info, j, st1)) \<Rightarrow> P st1 | _ \<Rightarrow> False"
  obtains info j st1 where "e = ret (Some info, j, st1)" and "P st1"
  using assms by (auto split: sum.splits run.splits option.splits)

lemma background_command_returns:
  assumes "execute_as_job OS cmd (setup_job cmd) st = ret (Some info, j, st1)" and "cmd_background cmd"
  obtains result st' where "execute_external_command OS cmd st = ret (result, st')"
proof -
  have "\<exists>result st'. execute_external_command OS cmd st = ret (result, st')"
    using assms by (simp add: execute_external_command_def Let_def)
  then show ?thesis using that by blast
qed

lemma started_command_outcome_witness:
  "\<exists>result st'. execute_external_command sample_os sleep_command sleep_shell = ret (result, st') \<and>
     r_exit_code result = 0 \<and> jobs_of st' (nat (r_job_id result)) \<noteq> None"
proof -
  let ?e = "execute_as_job sample_os sleep_command (setup_job sleep_command) sleep_shell"
  let ?x = "execute_external_command sample_os sleep_command sleep_shell"
  let ?P = "\<lambda>st. job_table st = job_table two_jobs \<and>
      job_table_size st = job_table_size two_jobs \<and> job_table_ptr st = job_table_ptr two_jobs"
  have "case ?e of Inr (Running (Some info, j, st1)) \<Rightarrow> ?P st1 | _ \<Rightarrow> False"
    by code_simp
  then obtain info j st1 where e: "?e = ret (Some info, j, st1)" and P: "?P st1"
    by (rule started_run)
  have wf: "table_wf st1" using two_jobs_wf P unfolding table_wf_def by presburger
  have bg: "cmd_background sleep_command" by (simp add: sleep_command_def)
  obtain result st' where x: "?x = ret (result, st')" using background_command_returns [OF e bg] .
  show ?thesis using started_command_outcome [OF wf e x] bg x by auto
qed

end
