(* ===== verification/Handshake.thy ===== *)
theory Handshake
  imports Execution
begin

text \<open>
  The shell and a new child running side by side: the two scripts of \<open>Execution\<close>, which
  are what \<^verbatim>\<open>execute_single_command\<close> does on either side of \<^verbatim>\<open>fork\<close>, interleaved in every
  order over two pipes. A \<^verbatim>\<open>read\<close> waits for a number; a \<^verbatim>\<open>write\<close> needs a process that still
  holds the other end open; after \<^verbatim>\<open>fork\<close> both processes hold all four ends.
\<close>

section \<open>Two processes and two pipes\<close>

record net =
  parent_todo :: "event list"
  child_todo :: "event list"
  parent_fds :: "fd set"
  child_fds :: "fd set"
  pipe1 :: "int list"
  pipe2 :: "int list"
  child_group :: "pid option"

text \<open>
  One action of a process that holds the descriptors \<open>own\<close> open while the other holds
  \<open>other\<close>: the descriptors it holds afterwards, the contents of the pipes, the group of the
  child. \<^const>\<open>None\<close> is an action that cannot happen now.
\<close>

fun perform ::
  "fd \<times> fd \<Rightarrow> fd \<times> fd \<Rightarrow> event \<Rightarrow> fd set \<Rightarrow> fd set \<Rightarrow> int list \<times> int list \<times> pid option \<Rightarrow>
     (fd set \<times> int list \<times> int list \<times> pid option) option" where
  "perform p1 p2 (Ev_Close x) own other (c1, c2, g) = Some (own - {x}, c1, c2, g)"
| "perform p1 p2 (Ev_Write_Int x v ok) own other (c1, c2, g) =
     (if x \<notin> own \<or> \<not> ok then None
      else if x = snd p1 \<and> fst p1 \<in> own \<union> other then Some (own, c1 @ [v], c2, g)
      else if x = snd p2 \<and> fst p2 \<in> own \<union> other then Some (own, c1, c2 @ [v], g)
      else None)"
| "perform p1 p2 (Ev_Read_Int x r) own other (c1, c2, g) =
     (if x \<notin> own then None
      else if x = fst p1 \<and> c1 \<noteq> [] \<and> r = Some (hd c1) then Some (own, tl c1, c2, g)
      else if x = fst p2 \<and> c2 \<noteq> [] \<and> r = Some (hd c2) then Some (own, c1, tl c2, g)
      else None)"
| "perform p1 p2 (Ev_Setpgid p pg r) own other (c1, c2, g) = Some (own, c1, c2, Some pg)"
| "perform p1 p2 e own other (c1, c2, g) = None"

definition parent_next :: "fd \<times> fd \<Rightarrow> fd \<times> fd \<Rightarrow> net \<Rightarrow> net option" where
  "parent_next p1 p2 s =
     (case parent_todo s of
        [] \<Rightarrow> None
      | e # es \<Rightarrow>
          map_option (\<lambda>(own, c1, c2, g).
              s\<lparr>parent_todo := es, parent_fds := own, pipe1 := c1, pipe2 := c2, child_group := g\<rparr>)
            (perform p1 p2 e (parent_fds s) (child_fds s) (pipe1 s, pipe2 s, child_group s)))"

definition child_next :: "fd \<times> fd \<Rightarrow> fd \<times> fd \<Rightarrow> net \<Rightarrow> net option" where
  "child_next p1 p2 s =
     (case child_todo s of
        [] \<Rightarrow> None
      | e # es \<Rightarrow>
          map_option (\<lambda>(own, c1, c2, g).
              s\<lparr>child_todo := es, child_fds := own, pipe1 := c1, pipe2 := c2, child_group := g\<rparr>)
            (perform p1 p2 e (child_fds s) (parent_fds s) (pipe1 s, pipe2 s, child_group s)))"

inductive handshake_step :: "fd \<times> fd \<Rightarrow> fd \<times> fd \<Rightarrow> net \<Rightarrow> net \<Rightarrow> bool" for p1 p2 where
  parent_moves: "parent_next p1 p2 s = Some s' \<Longrightarrow> handshake_step p1 p2 s s'"
| child_moves: "child_next p1 p2 s = Some s' \<Longrightarrow> handshake_step p1 p2 s s'"

inductive_simps handshake_step_iff: "handshake_step p1 p2 s s'"

definition after_fork :: "fd \<times> fd \<Rightarrow> fd \<times> fd \<Rightarrow> pid \<Rightarrow> int \<Rightarrow> net" where
  "after_fork p1 p2 pg r =
     (let ends = {fst p1, snd p1, fst p2, snd p2}
      in \<lparr>parent_todo = parent_script p1 p2 pg pg, child_todo = child_script p1 p2 pg r,
          parent_fds = ends, child_fds = ends, pipe1 = [], pipe2 = [], child_group = None\<rparr>)"

definition reachable :: "fd \<times> fd \<Rightarrow> fd \<times> fd \<Rightarrow> pid \<Rightarrow> int \<Rightarrow> net \<Rightarrow> bool" where
  "reachable p1 p2 pg r s \<longleftrightarrow> (handshake_step p1 p2)\<^sup>*\<^sup>* (after_fork p1 p2 pg r) s"

section \<open>The reachable states\<close>

text \<open>The state after \<open>i\<close> actions of the parent and \<open>j\<close> actions of the child.\<close>

definition config :: "fd \<times> fd \<Rightarrow> fd \<times> fd \<Rightarrow> pid \<Rightarrow> int \<Rightarrow> nat \<Rightarrow> nat \<Rightarrow> net" where
  "config p1 p2 pg r i j =
     \<lparr>parent_todo = drop i (parent_script p1 p2 pg pg), child_todo = drop j (child_script p1 p2 pg r),
      parent_fds = {x. (x = fst p1 \<and> i < 1) \<or> (x = snd p2 \<and> i < 2) \<or> (x = snd p1 \<and> i < 4) \<or> (x = fst p2 \<and> i < 6)},
      child_fds = {x. (x = snd p1 \<and> j < 1) \<or> (x = fst p2 \<and> j < 2) \<or> (x = fst p1 \<and> j < 4) \<or> (x = snd p2 \<and> j < 7)},
      pipe1 = (if 3 \<le> i \<and> j < 3 then [pg] else []), pipe2 = (if 6 \<le> j \<and> i < 5 then [pg] else []),
      child_group = (if 5 \<le> j then Some pg else None)\<rparr>"

text \<open>The child waits for the parent's number before its third action, the parent for the answer before its fifth.\<close>

definition in_step :: "nat \<Rightarrow> nat \<Rightarrow> bool" where
  "in_step i j \<longleftrightarrow> i \<le> 6 \<and> j \<le> 7 \<and> (3 \<le> j \<longrightarrow> 3 \<le> i) \<and> (5 \<le> i \<longrightarrow> 6 \<le> j)"

definition ends_distinct :: "fd \<times> fd \<Rightarrow> fd \<times> fd \<Rightarrow> bool" where
  "ends_distinct p1 p2 \<longleftrightarrow> distinct [fst p1, snd p1, fst p2, snd p2]"

lemma after_fork_config: "after_fork p1 p2 pg r = config p1 p2 pg r 0 0"
  by (auto simp: after_fork_def config_def Let_def)

lemma upto_cases: "i < (6 :: nat) \<Longrightarrow> i = 0 \<or> i = 1 \<or> i = 2 \<or> i = 3 \<or> i = 4 \<or> i = 5"
  "j < (7 :: nat) \<Longrightarrow> j = 0 \<or> j = 1 \<or> j = 2 \<or> j = 3 \<or> j = 4 \<or> j = 5 \<or> j = 6"
  by arith+

lemma parent_next_config:
  assumes "ends_distinct p1 p2" and "in_step i j"
  shows "parent_next p1 p2 (config p1 p2 pg r i j) =
           (if i < 6 \<and> (i = 4 \<longrightarrow> 6 \<le> j) then Some (config p1 p2 pg r (i + 1) j) else None)"
proof (cases "i < 6")
  case True
  then show ?thesis
    using assms upto_cases(1) [OF True]
    by (elim disjE) (auto simp: parent_next_def config_def parent_script_def in_step_def ends_distinct_def)
next
  case False
  then show ?thesis using assms(2) by (simp add: parent_next_def config_def parent_script_def in_step_def)
qed

lemma child_next_config:
  assumes "ends_distinct p1 p2" and "in_step i j"
  shows "child_next p1 p2 (config p1 p2 pg r i j) =
           (if j < 7 \<and> (j = 2 \<longrightarrow> 3 \<le> i) then Some (config p1 p2 pg r i (j + 1)) else None)"
proof (cases "j < 7")
  case True
  then show ?thesis
    using assms upto_cases(2) [OF True]
    by (elim disjE) (auto simp: child_next_def config_def child_script_def in_step_def ends_distinct_def)
next
  case False
  then show ?thesis using assms(2) by (simp add: child_next_def config_def child_script_def in_step_def)
qed

lemma handshake_step_config:
  assumes "ends_distinct p1 p2" and "in_step i j"
  shows "handshake_step p1 p2 (config p1 p2 pg r i j) s \<longleftrightarrow>
     (i < 6 \<and> (i = 4 \<longrightarrow> 6 \<le> j) \<and> s = config p1 p2 pg r (i + 1) j) \<or>
     (j < 7 \<and> (j = 2 \<longrightarrow> 3 \<le> i) \<and> s = config p1 p2 pg r i (j + 1))"
proof -
  have "((if c then Some x else None) = Some s) \<longleftrightarrow> c \<and> s = x" for c and x :: net by auto
  then show ?thesis
    unfolding handshake_step_iff parent_next_config [OF assms] child_next_config [OF assms] by simp
qed

lemma reachable_config:
  assumes "ends_distinct p1 p2" and "reachable p1 p2 pg r s"
  shows "\<exists>i j. in_step i j \<and> s = config p1 p2 pg r i j"
  using assms(2) unfolding reachable_def
proof (induction rule: rtranclp_induct)
  case base
  have "in_step 0 0" by (simp add: in_step_def)
  then show ?case using after_fork_config by blast
next
  case (step s t)
  then obtain i j where s: "in_step i j" "s = config p1 p2 pg r i j" by blast
  have "in_step (i + 1) j \<or> \<not> (i < 6 \<and> (i = 4 \<longrightarrow> 6 \<le> j))" "in_step i (j + 1) \<or> \<not> (j < 7 \<and> (j = 2 \<longrightarrow> 3 \<le> i))"
    using s(1) by (auto simp: in_step_def)
  then show ?case using step.hyps(2) handshake_step_config [OF assms(1) s(1), of pg r t] s(2) by blast
qed

definition work_left :: "net \<Rightarrow> nat" where
  "work_left s = length (parent_todo s) + length (child_todo s)"

lemma handshake_step_work: "handshake_step p1 p2 s t \<Longrightarrow> work_left t + 1 = work_left s"
  by (auto simp: handshake_step_iff parent_next_def child_next_def work_left_def split: list.splits)

lemma handshake_steps_work: "(handshake_step p1 p2 ^^ n) s t \<Longrightarrow> work_left t + n = work_left s"
proof (induction n arbitrary: t)
  case (Suc n)
  then obtain u where "(handshake_step p1 p2 ^^ n) s u" "handshake_step p1 p2 u t" by auto
  then show ?case using Suc.IH [of u] handshake_step_work [of p1 p2 u t] by simp
qed simp

lemma handshake_progress:
  assumes "ends_distinct p1 p2" and "reachable p1 p2 pg r s"
  shows "parent_todo s = [] \<and> child_todo s = [] \<or> (\<exists>t. handshake_step p1 p2 s t)"
proof -
  obtain i j where s: "in_step i j" "s = config p1 p2 pg r i j"
    using reachable_config [OF assms] by blast
  show ?thesis
  proof (cases "i = 6 \<and> j = 7")
    case True
    then show ?thesis by (simp add: s(2) config_def parent_script_def child_script_def)
  next
    case False
    then have "i < 6 \<and> (i = 4 \<longrightarrow> 6 \<le> j) \<or> j < 7 \<and> (j = 2 \<longrightarrow> 3 \<le> i)"
      using s(1) by (auto simp: in_step_def)
    then show ?thesis using handshake_step_config [OF assms(1) s(1)] s(2) by blast
  qed
qed

lemma reachable_step: "reachable p1 p2 pg r s \<Longrightarrow> handshake_step p1 p2 s t \<Longrightarrow> reachable p1 p2 pg r t"
  unfolding reachable_def by (rule rtranclp.rtrancl_into_rtrancl)

lemma handshake_completes:
  assumes "ends_distinct p1 p2" and "reachable p1 p2 pg r s"
  shows "\<exists>t. (handshake_step p1 p2)\<^sup>*\<^sup>* s t \<and> parent_todo t = [] \<and> child_todo t = []"
  using assms(2)
proof (induction "work_left s" arbitrary: s rule: less_induct)
  case less
  consider "parent_todo s = [] \<and> child_todo s = []" | u where "handshake_step p1 p2 s u"
    using handshake_progress [OF assms(1) less.prems] by blast
  then show ?case
  proof cases
    case 2
    then have "work_left u < work_left s" "reachable p1 p2 pg r u"
      using handshake_step_work [OF 2] reachable_step [OF less.prems 2] by simp_all
    then obtain t where "(handshake_step p1 p2)\<^sup>*\<^sup>* u t" "parent_todo t = [] \<and> child_todo t = []"
      using less.hyps by blast
    then show ?thesis using converse_rtranclp_into_rtranclp [of "handshake_step p1 p2", OF 2] by blast
  qed blast
qed

lemma reachable_work: "ends_distinct p1 p2 \<Longrightarrow> reachable p1 p2 pg r s \<Longrightarrow> work_left s \<le> 13"
  by (drule (1) reachable_config) (auto simp: work_left_def config_def parent_script_def child_script_def)

text \<open>It cannot run on either: the scripts are finite.\<close>

lemma handshake_bounded:
  "ends_distinct p1 p2 \<Longrightarrow> reachable p1 p2 pg r s \<Longrightarrow> (handshake_step p1 p2 ^^ n) s t \<Longrightarrow> n \<le> 13"
  using handshake_steps_work [of n p1 p2 s t] reachable_work [of p1 p2 pg r s] by simp

section \<open>Properties\<close>

text \<open>
  C28. The handshake cannot deadlock or fail, in any interleaving: as long as one side has
  something left to do, one of the two can act; no read meets an end of file or a wrong
  number and no write meets a pipe without a reader.
\<close>

theorem handshake_no_deadlock:
  assumes "distinct [fst p1, snd p1, fst p2, snd p2]" and "reachable p1 p2 pg r s"
  shows "parent_todo s = [] \<and> child_todo s = [] \<or> (\<exists>t. handshake_step p1 p2 s t)"
  using assms handshake_progress by (simp add: ends_distinct_def)

lemma handshake_no_deadlock_witness: "\<exists>t. handshake_step (3, 4) (5, 6) (after_fork (3, 4) (5, 6) 70 0) t"
  using handshake_no_deadlock [of "(3, 4)" "(5, 6)" 70 0 "after_fork (3, 4) (5, 6) 70 0"]
  by (auto simp: reachable_def after_fork_config config_def parent_script_def)

text \<open>
  C3. What the handshake is for: whenever the parent has its answer, the child is already in the
  process group of the job, and it is before it starts its program; when both are through,
  both pipes are empty and neither process holds an end of them.
\<close>

theorem handshake_orders_group:
  assumes "distinct [fst p1, snd p1, fst p2, snd p2]" and "reachable p1 p2 pg r s"
  shows "(length (parent_todo s) \<le> 1 \<longrightarrow> child_group s = Some pg) \<and>
         (child_todo s = [] \<longrightarrow> child_group s = Some pg) \<and>
         (parent_todo s = [] \<longrightarrow> parent_fds s = {}) \<and> (child_todo s = [] \<longrightarrow> child_fds s = {}) \<and>
         (parent_todo s = [] \<and> child_todo s = [] \<longrightarrow> pipe1 s = [] \<and> pipe2 s = [])"
proof -
  have d: "ends_distinct p1 p2" using assms(1) by (simp add: ends_distinct_def)
  obtain i j where s: "in_step i j" "s = config p1 p2 pg r i j"
    using reachable_config [OF d assms(2)] by blast
  have "length (parent_todo s) = 6 - i" "length (child_todo s) = 7 - j"
    by (simp_all add: s(2) config_def parent_script_def child_script_def)
  then have "length (parent_todo s) \<le> 1 \<longleftrightarrow> 5 \<le> i" "parent_todo s = [] \<longleftrightarrow> 6 \<le> i" "child_todo s = [] \<longleftrightarrow> 7 \<le> j"
    by (auto simp: length_0_conv [symmetric] simp del: length_0_conv)
  then show ?thesis using s by (auto simp: in_step_def config_def)
qed

lemma handshake_orders_group_witness:
  "\<exists>s. reachable (3, 4) (5, 6) 70 0 s \<and> parent_todo s = [] \<and> child_todo s = [] \<and> child_group s = Some 70"
proof -
  have "ends_distinct (3, 4) (5, 6)" "reachable (3, 4) (5, 6) 70 0 (after_fork (3, 4) (5, 6) 70 0)"
    by (simp_all add: ends_distinct_def reachable_def)
  then obtain s where s: "reachable (3, 4) (5, 6) 70 0 s" "parent_todo s = []" "child_todo s = []"
    using handshake_completes unfolding reachable_def by blast
  then show ?thesis using handshake_orders_group [of "(3, 4)" "(5, 6)" 70 0 s] by auto
qed

end
