(* ===== verification/Parse_Tree.thy ===== *)
theory Parse_Tree
  imports Parser "HOL-Library.Multiset"
begin

text \<open>
  What the parser builds: the calls of a command and its pipes. Every call is allocated once
  and listed once, there is one pipe fewer than calls, and every pipe has exactly one
  writer and one reader. The same induction over the parser shows that it meets no
  undefined behaviour but the use after free of \<^verbatim>\<open>parse_command_substitution\<close>.
\<close>

section \<open>The store of calls\<close>

text \<open>The indices of the pipes a call writes and reads.\<close>

definition writes :: "command_call \<Rightarrow> nat multiset" where
  "writes c = (case cc_writing_pipes c of None \<Rightarrow> {#} | Some ps \<Rightarrow> mset ps)"

definition reads :: "command_call \<Rightarrow> nat multiset" where
  "reads c = (case cc_reading_pipes c of None \<Rightarrow> {#} | Some ps \<Rightarrow> mset ps)"

definition all_writes :: "command_call list \<Rightarrow> nat multiset" where
  "all_writes cs = sum_list (map writes cs)"

definition all_reads :: "command_call list \<Rightarrow> nat multiset" where
  "all_reads cs = sum_list (map reads cs)"

definition b_writes :: "command_call_builder \<Rightarrow> nat multiset" where
  "b_writes b = (case b_writing_pipes b of None \<Rightarrow> {#} | Some ps \<Rightarrow> mset ps)"

definition b_reads :: "command_call_builder \<Rightarrow> nat multiset" where
  "b_reads b = (case b_reading_pipes b of None \<Rightarrow> {#} | Some ps \<Rightarrow> mset ps)"

text \<open>
  How a call holds its pipes (\<open>ps\<close> are the pipes of the command): it writes at most one, as
  its standard output, and reads each as its standard input or through the file
  \<^verbatim>\<open>/dev/fd/<n>\<close> among its arguments. A builder is in the same state.
\<close>

definition dev_file :: "fd \<times> fd \<Rightarrow> string" where
  "dev_file p = ''/dev/fd/'' @ show_int (fst p)"

definition reads_as_arguments :: "(fd \<times> fd) list \<Rightarrow> string list \<Rightarrow> pipe_info option \<Rightarrow> bool" where
  "reads_as_arguments ps args info \<longleftrightarrow>
     (case info of None \<Rightarrow> False
      | Some r \<Rightarrow> \<forall>k \<in> set r. k < length ps \<and> dev_file (ps ! k) \<in> set args)"

definition writes_at_most_one :: "(fd \<times> fd) list \<Rightarrow> fd \<Rightarrow> pipe_info option \<Rightarrow> bool" where
  "writes_at_most_one ps out info \<longleftrightarrow>
     info = Some [] \<or>
     (\<exists>k. info = Some [k] \<and> k < length ps \<and> (out = snd (ps ! k) \<or> snd (ps ! k) = -1))"

definition wired :: "(fd \<times> fd) list \<Rightarrow> command_call \<Rightarrow> bool" where
  "wired ps c \<longleftrightarrow>
     writes_at_most_one ps (cc_stdout c) (cc_writing_pipes c) \<and>
     (\<exists>r. cc_reading_pipes c = Some r \<and>
        (\<forall>k \<in> set r. k < length ps \<and>
           (cc_stdin c = fst (ps ! k) \<or> dev_file (ps ! k) \<in> set (cc_argv c))))"

definition b_wired :: "(fd \<times> fd) list \<Rightarrow> string list \<Rightarrow> command_call_builder \<Rightarrow> bool" where
  "b_wired ps args b \<longleftrightarrow>
     length (b_fds b) = 3 \<and> writes_at_most_one ps (b_fds b ! 1) (b_writing_pipes b) \<and>
     reads_as_arguments ps args (b_reading_pipes b)"

lemma wired_mono:
  "writes_at_most_one ps out info \<Longrightarrow> writes_at_most_one (ps @ qs) out info"
  "reads_as_arguments ps args info \<Longrightarrow> set args \<subseteq> set args' \<Longrightarrow> reads_as_arguments (ps @ qs) args' info"
  "wired ps c \<Longrightarrow> wired (ps @ qs) c"
  "b_wired ps args b \<Longrightarrow> set args \<subseteq> set args' \<Longrightarrow> b_wired (ps @ qs) args' b"
  by (force simp: writes_at_most_one_def reads_as_arguments_def wired_def b_wired_def nth_append
      split: option.splits)+

lemma reads_as_arguments_wired:
  "writes_at_most_one ps (cc_stdout c) (cc_writing_pipes c) \<Longrightarrow>
     reads_as_arguments ps (cc_argv c) (cc_reading_pipes c) \<Longrightarrow> wired ps c"
  by (auto simp: wired_def reads_as_arguments_def split: option.splits)

lemma all_simps [simp]:
  "all_writes [] = {#}" "all_reads [] = {#}"
  "all_writes (c # cs) = writes c + all_writes cs" "all_reads (c # cs) = reads c + all_reads cs"
  "all_writes (cs @ ds) = all_writes cs + all_writes ds"
  "all_reads (cs @ ds) = all_reads cs + all_reads ds"
  by (simp_all add: all_writes_def all_reads_def)

lemma all_writes_update:
  "i < length cs \<Longrightarrow> all_writes (cs[i := c]) + writes (cs ! i) = all_writes cs + writes c"
  by (subst (3) id_take_nth_drop [of i cs]) (simp_all add: upd_conv_take_nth_drop)

lemma all_reads_update:
  "i < length cs \<Longrightarrow> all_reads (cs[i := c]) + reads (cs ! i) = all_reads cs + reads c"
  by (subst (3) id_take_nth_drop [of i cs]) (simp_all add: upd_conv_take_nth_drop)

lemma writes_add:
  "wired ps c \<Longrightarrow> cc_writing_pipes c' = add_pipe_pipe_info (cc_writing_pipes c) k \<Longrightarrow>
     writes c' = add_mset k (writes c)"
  by (auto simp: writes_def wired_def writes_at_most_one_def add_pipe_pipe_info_def)

lemma reads_add:
  "wired ps c \<Longrightarrow> cc_reading_pipes c' = add_pipe_pipe_info (cc_reading_pipes c) k \<Longrightarrow>
     reads c' = add_mset k (reads c)"
  by (auto simp: reads_def wired_def add_pipe_pipe_info_def)

text \<open>The parser changes the trace, the store and its two globals.\<close>

definition parser_only :: "shell \<Rightarrow> shell \<Rightarrow> bool" where
  "parser_only st st' \<longleftrightarrow>
     st' = st\<lparr>trace := trace st', call_heap := call_heap st',
              last_parsed_command_call := last_parsed_command_call st',
              last_parsed_command_call_substitution := last_parsed_command_call_substitution st'\<rparr>"

lemma parser_onlyI [intro]:
  "st' = st\<lparr>trace := h, call_heap := s, last_parsed_command_call := l,
            last_parsed_command_call_substitution := m\<rparr> \<Longrightarrow> parser_only st st'"
  by (simp add: parser_only_def)

lemma parser_only_iff:
  "parser_only st st' \<longleftrightarrow>
     job_table_ptr st' = job_table_ptr st \<and> job_table st' = job_table st \<and>
     job_table_size st' = job_table_size st \<and> last_exit_code st' = last_exit_code st \<and>
     should_exit st' = should_exit st \<and> lwd st' = lwd st"
  by (cases st; cases st') (auto simp: parser_only_def)

lemma parser_only_refl [simp, intro]: "parser_only st st"
  by (simp add: parser_only_iff)

lemma parser_only_trans: "parser_only a b \<Longrightarrow> parser_only b c \<Longrightarrow> parser_only a c"
  by (simp add: parser_only_iff)

lemma parser_only_same_globals: "same_globals a b \<Longrightarrow> parser_only a b"
  by (auto simp: same_globals_iff parser_only_iff)

section \<open>Growth\<close>

text \<open>
  From one point of the parse to a later one: \<open>new\<close> calls are listed, \<open>ps\<close> pipes opened and
  the calls \<open>cs\<close> allocated, which are all live.
\<close>

definition extends_to ::
  "command \<Rightarrow> shell \<Rightarrow> command \<Rightarrow> shell \<Rightarrow> addr list \<Rightarrow> (fd \<times> fd) list \<Rightarrow> command_call list \<Rightarrow> bool" where
  "extends_to cmd st cmd' st' new ps cs \<longleftrightarrow>
     cmd' = cmd\<lparr>cmd_calls := cmd_calls cmd @ new, cmd_open_pipes := cmd_open_pipes cmd @ ps\<rparr> \<and>
     parser_only st st' \<and>
     call_heap st' = call_heap st @ map Some cs \<and>
     (\<forall>c \<in> set cs. wired (cmd_open_pipes cmd') c) \<and>
     distinct new \<and>
     (\<forall>a \<in> set new. length (call_heap st) \<le> a \<and> a < length (call_heap st) + length cs)"

text \<open>The addresses allocated between two states.\<close>

definition fresh :: "shell \<Rightarrow> shell \<Rightarrow> nat list" where
  "fresh st st' = [length (call_heap st)..<length (call_heap st')]"

definition pipe_range :: "command \<Rightarrow> command \<Rightarrow> nat list" where
  "pipe_range cmd cmd' = [open_pipes_size cmd..<open_pipes_size cmd']"

lemma extends_refl: "parser_only st st' \<Longrightarrow> call_heap st' = call_heap st \<Longrightarrow> extends_to cmd st cmd st' [] [] []"
  by (simp add: extends_to_def)

lemma extends_trans:
  assumes "extends_to cmd st cmd1 st1 n1 p1 c1" and "extends_to cmd1 st1 cmd2 st2 n2 p2 c2"
  shows "extends_to cmd st cmd2 st2 (n1 @ n2) (p1 @ p2) (c1 @ c2)"
proof -
  have "x < length (call_heap st1)" if "x \<in> set n1" for x using that assms(1) by (simp add: extends_to_def)
  moreover have "length (call_heap st1) \<le> x" if "x \<in> set n2" for x
    using that assms(2) by (simp add: extends_to_def)
  ultimately have "set n1 \<inter> set n2 = {}" by force
  moreover have "wired (cmd_open_pipes cmd2) c" if "c \<in> set c1" for c
    using wired_mono(3) [of "cmd_open_pipes cmd1" c p2] that assms by (auto simp: extends_to_def)
  ultimately show ?thesis
    using assms parser_only_trans [of st st1 st2] by (fastforce simp: extends_to_def)
qed

lemma extends_globals:
  "extends_to cmd st cmd' st1 n p c \<Longrightarrow> parser_only st1 st2 \<Longrightarrow> call_heap st2 = call_heap st1 \<Longrightarrow>
     extends_to cmd st cmd' st2 n p c"
  by (auto simp: extends_to_def intro: parser_only_trans)

lemma extends_from_globals:
  "extends_to cmd st1 cmd' st2 n p c \<Longrightarrow> parser_only st st1 \<Longrightarrow> call_heap st1 = call_heap st \<Longrightarrow>
     extends_to cmd st cmd' st2 n p c"
  by (auto simp: extends_to_def intro: parser_only_trans)

lemma extends_pipe:
  "extends_to cmd st (add_pipe cmd p) st [] [p] []"
  by (simp add: extends_to_def add_pipe_def)

lemma extends_list_call:
  "extends_to cmd st cmd' st' n p c \<Longrightarrow> a \<notin> set n \<Longrightarrow>
     a \<in> set (fresh st st') \<Longrightarrow> extends_to cmd st (add_call_at_the_end cmd' (Some a)) st' (n @ [a]) p c"
  by (auto simp: extends_to_def add_call_at_the_end_def fresh_def)

lemma extends_read:
  assumes "extends_to cmd st cmd' st' n p cs" and "a \<in> set (fresh st st')"
  defines "i \<equiv> a - length (call_heap st)"
  shows "i < length cs" and "read_call a st' = Inr (cs ! i)" and "wired (cmd_open_pipes cmd') (cs ! i)"
  using assms by (auto simp: extends_to_def fresh_def read_call_def nth_append)

lemma extends_update:
  assumes "extends_to cmd st cmd' st' n p cs" and "a \<in> set (fresh st st')"
  defines "i \<equiv> a - length (call_heap st)"
  assumes f: "wired (cmd_open_pipes cmd') (f (cs ! i))"
  shows "\<exists>st'' h. update_call a f st' = Inr st'' \<and> st'' = st'\<lparr>call_heap := h\<rparr> \<and>
           fresh st st'' = fresh st st' \<and> extends_to cmd st cmd' st'' n p (cs[i := f (cs ! i)])"
proof -
  note r = extends_read [OF assms(1,2), folded i_def]
  let ?h = "(call_heap st')[a := Some (f (cs ! i))]"
  have a: "a = length (call_heap st) + i" using assms(2) by (auto simp: i_def fresh_def)
  have h: "?h = call_heap st @ map Some (cs[i := f (cs ! i)])"
    using assms(1) a by (simp add: extends_to_def list_update_append map_update)
  have "\<forall>c \<in> set (cs[i := f (cs ! i)]). wired (cmd_open_pipes cmd') c"
    using assms(1) f set_update_subset_insert [of cs i "f (cs ! i)"] by (auto simp: extends_to_def)
  moreover have "length ?h = length (call_heap st')" by simp
  ultimately have "extends_to cmd st cmd' (st'\<lparr>call_heap := ?h\<rparr>) n p (cs[i := f (cs ! i)])"
    using assms(1) h by (auto simp: extends_to_def parser_only_iff)
  moreover have "update_call a f st' = Inr (st'\<lparr>call_heap := ?h\<rparr>)"
    using r(2) by (simp add: update_call_def)
  moreover have "fresh st (st'\<lparr>call_heap := ?h\<rparr>) = fresh st st'" by (simp add: fresh_def)
  ultimately show ?thesis by blast
qed

section \<open>What a parse leaves behind\<close>

definition ready :: "bool \<Rightarrow> shell \<Rightarrow> bool" where
  "ready inside st \<longleftrightarrow>
     (if inside then last_parsed_command_call_substitution st = None
      else last_parsed_command_call st = None)"

text \<open>On every return, failures included.\<close>

definition frame ::
  "bool \<Rightarrow> command \<Rightarrow> shell \<Rightarrow> command \<Rightarrow> shell \<Rightarrow> addr list \<Rightarrow> (fd \<times> fd) list \<Rightarrow>
     command_call list \<Rightarrow> bool" where
  "frame inside cmd st cmd' st' new ps cs \<longleftrightarrow>
     extends_to cmd st cmd' st' new ps cs \<and>
     (if inside then last_parsed_command_call st' = last_parsed_command_call st
      else \<forall>l. last_parsed_command_call st' = Some l \<longrightarrow> l \<in> set (fresh st st') \<and> l \<notin> set new)"

definition new_pipes :: "command \<Rightarrow> (fd \<times> fd) list \<Rightarrow> nat multiset" where
  "new_pipes cmd ps = mset [open_pipes_size cmd..<open_pipes_size cmd + length ps]"

text \<open>After the tokens of a call: the builder still holds the pipes of the call to come.\<close>

definition tokens_done ::
  "bool \<Rightarrow> command \<Rightarrow> shell \<Rightarrow> command_call_builder \<Rightarrow> string list \<Rightarrow> command_call_builder \<Rightarrow>
     command \<Rightarrow> shell \<Rightarrow> addr list \<Rightarrow> (fd \<times> fd) list \<Rightarrow> command_call list \<Rightarrow> bool" where
  "tokens_done inside cmd st b args' b' cmd' st' new ps cs \<longleftrightarrow>
     length cs = length ps \<and>
     all_writes cs + b_writes b' = b_writes b + new_pipes cmd ps \<and>
     all_reads cs + b_reads b' = b_reads b + new_pipes cmd ps \<and>
     b_wired (cmd_open_pipes cmd') args' b' \<and>
     (if inside
      then mset new = mset (fresh st st') \<and>
           (last_parsed_command_call_substitution st' = None \<and> b_writing_pipes b' = Some [] \<or>
            (\<exists>l \<in> set (fresh st st').
               last_parsed_command_call_substitution st' = Some l \<and>
               cc_writing_pipes (cs ! (l - length (call_heap st))) = Some []))
      else mset (new @ (case last_parsed_command_call st' of None \<Rightarrow> [] | Some l \<Rightarrow> [l])) =
           mset (fresh st st'))"

text \<open>After a call: \<open>a\<close> is its address.\<close>

definition call_done ::
  "bool \<Rightarrow> command \<Rightarrow> shell \<Rightarrow> addr \<Rightarrow> command \<Rightarrow> shell \<Rightarrow> addr list \<Rightarrow> (fd \<times> fd) list \<Rightarrow>
     command_call list \<Rightarrow> bool" where
  "call_done inside cmd st a cmd' st' new ps cs \<longleftrightarrow>
     length cs = length ps + 1 \<and>
     all_writes cs = new_pipes cmd ps \<and> all_reads cs = new_pipes cmd ps \<and>
     a \<in> set (fresh st st') \<and>
     (let c = cs ! (a - length (call_heap st))
      in reads_as_arguments (cmd_open_pipes cmd') (cc_argv c) (cc_reading_pipes c)) \<and>
     (if inside
      then mset (a # new) = mset (fresh st st') \<and>
           (\<exists>l \<in> set (fresh st st').
              last_parsed_command_call_substitution st' = Some l \<and>
              cc_writing_pipes (cs ! (l - length (call_heap st))) = Some [])
      else \<exists>l \<in> set (fresh st st').
             last_parsed_command_call st' = Some l \<and>
             mset (new @ (if l = a then [a] else [a, l])) = mset (fresh st st'))"

lemma fresh_chain:
  assumes "extends_to cmd st cmd1 st1 n1 p1 c1" and "extends_to cmd1 st1 cmd2 st2 n2 p2 c2"
  shows "fresh st st2 = fresh st st1 @ fresh st1 st2"
  using assms by (simp add: fresh_def extends_to_def) (metis le_add1 upt_add_eq_append add.assoc)

lemma new_pipes_chain:
  "cmd_open_pipes cmd1 = cmd_open_pipes cmd @ p1 \<Longrightarrow>
     new_pipes cmd p1 + new_pipes cmd1 p2 = new_pipes cmd (p1 @ p2)"
  unfolding new_pipes_def mset_append [symmetric]
  by (metis length_append le_add1 upt_add_eq_append add.assoc)

lemma pending_chain:
  fixes A B P Q b x y :: "nat multiset"
  assumes "A + x = b + P" and "B + y = x + Q"
  shows "A + B + y = b + (P + Q)"
proof -
  have "A + B + y = A + (x + Q)" by (simp add: assms(2) add.assoc)
  also have "\<dots> = b + P + Q" by (simp add: assms(1) add.assoc [symmetric])
  finally show ?thesis by (simp add: add.assoc)
qed

text \<open>A step that lists all it allocates, followed by the rest of the tokens.\<close>

lemma frame_after_substitution:
  assumes "extends_to cmd st cmd1 st1 n1 p1 c1"
    and "last_parsed_command_call st1 = last_parsed_command_call st"
    and "frame inside cmd1 st1 cmd2 st2 n2 p2 c2"
  shows "frame inside cmd st cmd2 st2 (n1 @ n2) (p1 @ p2) (c1 @ c2)"
proof -
  have e2: "extends_to cmd1 st1 cmd2 st2 n2 p2 c2" using assms(3) by (simp add: frame_def)
  have "l \<in> set (fresh st1 st2) \<Longrightarrow> l \<notin> set n1" for l
    using assms(1) by (auto simp: extends_to_def fresh_def)
  then show ?thesis
    using assms extends_trans [OF assms(1) e2] fresh_chain [OF assms(1) e2]
    by (auto simp: frame_def)
qed

lemma tokens_after_substitution:
  assumes "extends_to cmd st cmd1 st1 n1 p1 c1"
    and "tokens_done True cmd st b args1 b1 cmd1 st1 n1 p1 c1"
    and "extends_to cmd1 st1 cmd2 st2 n2 p2 c2"
    and "tokens_done inside cmd1 st1 b1 args2 b2 cmd2 st2 n2 p2 c2"
  shows "tokens_done inside cmd st b args2 b2 cmd2 st2 (n1 @ n2) (p1 @ p2) (c1 @ c2)"
proof -
  have l1: "length (call_heap st1) = length (call_heap st) + length c1"
    and ps: "cmd_open_pipes cmd1 = cmd_open_pipes cmd @ p1"
    using assms(1) by (simp_all add: extends_to_def)
  note f = fresh_chain [OF assms(1,3)] and p = new_pipes_chain [OF ps, of p2]
  have nth: "(c1 @ c2) ! (l - length (call_heap st)) = c2 ! (l - length (call_heap st1))"
    if "l \<in> set (fresh st1 st2)" for l
    using that l1 by (auto simp: fresh_def nth_append)
  have "all_writes (c1 @ c2) + b_writes b2 = b_writes b + new_pipes cmd (p1 @ p2)"
    and "all_reads (c1 @ c2) + b_reads b2 = b_reads b + new_pipes cmd (p1 @ p2)"
    using assms(2,4) by (simp_all add: tokens_done_def p [symmetric] pending_chain)
  moreover have "mset n1 = mset (fresh st st1)" using assms(2) by (simp add: tokens_done_def)
  ultimately show ?thesis
    using assms(2,4) nth unfolding tokens_done_def f
    by (cases inside) (auto simp: add.commute)
qed

section \<open>The steps of the parser\<close>

lemma redirect_frame:
  "redirect fds k fd st = (status, fds', st') \<Longrightarrow> length fds' = length fds \<and> same_globals st st'"
  by (auto simp: redirect_def sys_close_def Let_def split: if_splits)

lemma same_globals_sys_open: "sys_open OS path flags st = (fd, st') \<Longrightarrow> same_globals st st'"
  by (auto simp: sys_open_def Let_def)

lemma parse_redirections_frame:
  "parse_redirections OS fds symbol filename st = (status, fds', st') \<Longrightarrow>
     length fds' = length fds \<and> same_globals st st'"
  by (auto simp: parse_redirections_def Let_def split: prod.splits if_splits
      dest!: redirect_frame same_globals_sys_open intro: same_globals_trans same_globals_dprintf)

lemma same_globals_parse_error [simp]: "same_globals st (parse_error loc st)"
  by (simp add: parse_error_def)

lemma same_globals_sys_pipe: "sys_pipe OS st = (p, st') \<Longrightarrow> same_globals st st'"
  by (auto simp: sys_pipe_def Let_def)

lemma same_globals_parser:
  "same_globals a b \<Longrightarrow>
     parser_only a b \<and> call_heap b = call_heap a \<and> fresh st b = fresh st a \<and> fresh a st' = fresh b st' \<and>
     last_parsed_command_call b = last_parsed_command_call a \<and>
     last_parsed_command_call_substitution b = last_parsed_command_call_substitution a"
  by (auto simp: same_globals_iff parser_only_iff fresh_def)

lemma frame_refl: "same_globals st st' \<Longrightarrow> ready inside st \<Longrightarrow> frame inside cmd st cmd st' [] [] []"
  using same_globals_parser [of st st'] by (auto simp: frame_def ready_def intro!: extends_refl)

lemma frame_globals:
  "frame inside cmd st cmd' st1 new ps cs \<Longrightarrow> same_globals st1 st2 \<Longrightarrow>
     frame inside cmd st cmd' st2 new ps cs"
  using same_globals_parser [of st1 st2] by (auto simp: frame_def intro: extends_globals)

lemma tokens_done_refl:
  "b_wired (cmd_open_pipes cmd) args b \<Longrightarrow> b_writing_pipes b = Some [] \<Longrightarrow> ready inside st \<Longrightarrow>
     tokens_done inside cmd st b args b cmd st [] [] []"
  by (simp add: tokens_done_def new_pipes_def fresh_def ready_def)

text \<open>The call that the builder becomes.\<close>

definition built_call :: "command_call_builder \<Rightarrow> string list \<Rightarrow> string \<Rightarrow> command_call" where
  "built_call b args s =
     (new_command_call (length args) args s)
       \<lparr>cc_stdin := (if b_fds b ! 0 \<noteq> -1 then b_fds b ! 0 else 0),
        cc_stdout := (if b_fds b ! 1 \<noteq> -1 then b_fds b ! 1 else 1),
        cc_stderr := (if b_fds b ! 2 \<noteq> -1 then b_fds b ! 2 else 2),
        cc_writing_pipes := b_writing_pipes b, cc_reading_pipes := b_reading_pipes b\<rparr>"

lemma build_command_built:
  "build_command b (length args) args s st =
     (length (call_heap st), st\<lparr>call_heap := call_heap st @ [Some (built_call b args s)]\<rparr>)"
  by (simp add: build_command_def built_call_def alloc_call_def new_command_call_def Let_def)

lemma built_call_facts:
  "writes (built_call b args s) = b_writes b" "reads (built_call b args s) = b_reads b"
  "cc_argv (built_call b args s) = args" "cc_writing_pipes (built_call b args s) = b_writing_pipes b"
  "cc_reading_pipes (built_call b args s) = b_reading_pipes b"
  "b_wired ps args b \<Longrightarrow> wired ps (built_call b args s)"
  by (auto simp: built_call_def writes_def reads_def b_writes_def b_reads_def new_command_call_def
      b_wired_def intro!: reads_as_arguments_wired) (auto simp: writes_at_most_one_def)

lemma extends_build:
  assumes "extends_to cmd0 st0 cmd st new ps cs" and "wired (cmd_open_pipes cmd) c"
    and "parser_only st st'" and "call_heap st' = call_heap st @ [Some c]"
  shows "extends_to cmd0 st0 cmd st' new ps (cs @ [c])"
    and "fresh st0 st' = fresh st0 st @ [length (call_heap st)]"
    and "(cs @ [c]) ! (length (call_heap st) - length (call_heap st0)) = c"
    and "l \<in> set (fresh st0 st) \<Longrightarrow>
           (cs @ [c]) ! (l - length (call_heap st0)) = cs ! (l - length (call_heap st0))"
  using assms by (auto simp: extends_to_def fresh_def nth_append intro: parser_only_trans)

text \<open>The end of a call. The string has a word, so trimming it is safe.\<close>

lemma finish_call_step:
  assumes fr: "frame inside cmd0 st0 cmd st new ps cs"
    and td: "tokens_done inside cmd0 st0 new_command_call_builder args b cmd st new ps cs"
    and word: "\<not> set command_string \<subseteq> {CHR '' ''}"
  shows "yields {} (finish_call inside inpipe command_string args b cmd st)
           (\<lambda>(r, cmd', st'). \<exists>new ps cs. frame inside cmd0 st0 cmd' st' new ps cs \<and>
              (\<forall>a. r = Some a \<longrightarrow> call_done inside cmd0 st0 a cmd' st' new ps cs))"
    (is "yields {} ?m ?Q")
proof -
  define err where "err = close_unused_file_descriptors_from_array (Some (b_fds b)) (parse_error [] st)"
  have "same_globals st err"
    unfolding err_def by (rule same_globals_trans [OF same_globals_parse_error same_globals_close_from_array])
  then have err: "yields {} (Inr (None, cmd, err)) ?Q"
    using frame_globals [OF fr] by auto
  have ne: "command_string \<noteq> []" using word by auto
  define c where "c = built_call b args (remove_extra_pipes (strip (CHR '' '') command_string))"
  define a where "a = length (call_heap st)"
  define st1 where "st1 = st\<lparr>call_heap := call_heap st @ [Some c]\<rparr>"
  define st2 where "st2 = (if last_parsed_command_call st = None \<and> \<not> inside
    then st1\<lparr>last_parsed_command_call := Some a\<rparr> else st1)"
  define st3 where "st3 = (if last_parsed_command_call_substitution st = None \<and> inside
    then st2\<lparr>last_parsed_command_call_substitution := Some a\<rparr> else st2)"
  have m: "?m = (if inpipe \<and> b_fds b ! 0 \<noteq> -1 then Inr (None, cmd, err)
     else if inpipe \<and> \<not> (last_parsed_command_call st = None \<or>
               last_parsed_command_call_substitution st = None) \<and> b_fds b ! 1 \<noteq> -1
     then Inr (None, cmd, err) else Inr (Some a, cmd, st3))"
    using word ne
    by (auto simp: finish_call_def err_def sanitize_command_string_def trim_spaces_eq
        build_command_built c_def a_def st1_def st2_def st3_def Let_def)
  have bw: "b_wired (cmd_open_pipes cmd) args b" using td by (simp add: tokens_done_def)
  have p: "parser_only st st3" by (auto simp: parser_only_iff st1_def st2_def st3_def)
  have h: "call_heap st3 = call_heap st @ [Some c]" by (simp add: st1_def st2_def st3_def)
  note e = extends_build [OF _ _ p h, of cmd0 st0 cmd new ps cs, folded a_def]
  have ex: "extends_to cmd0 st0 cmd st new ps cs" using fr by (simp add: frame_def)
  have w: "wired (cmd_open_pipes cmd) c" unfolding c_def using bw by (rule built_call_facts)
  note e = e [OF ex w]
  have a_new: "a \<notin> set (fresh st0 st)" by (auto simp: a_def fresh_def)
  have lasts: "last_parsed_command_call st3 =
      (if last_parsed_command_call st = None \<and> \<not> inside then Some a else last_parsed_command_call st)"
    "last_parsed_command_call_substitution st3 =
      (if last_parsed_command_call_substitution st = None \<and> inside then Some a
       else last_parsed_command_call_substitution st)"
    by (simp_all add: st1_def st2_def st3_def)
  have new: "a \<notin> set new" using ex by (auto simp: extends_to_def a_def)
  have "frame inside cmd0 st0 cmd st3 new ps (cs @ [c])"
    using fr e(1,2) lasts new by (auto simp: frame_def)
  moreover have "call_done inside cmd0 st0 a cmd st3 new ps (cs @ [c])"
  proof -
    have "b_writes new_command_call_builder = {#}" "b_reads new_command_call_builder = {#}"
      by (simp_all add: b_writes_def b_reads_def new_command_call_builder_def new_pipe_info_def)
    then have "all_writes (cs @ [c]) = new_pipes cmd0 ps" "all_reads (cs @ [c]) = new_pipes cmd0 ps"
      using td by (simp_all add: tokens_done_def c_def built_call_facts)
    moreover have "reads_as_arguments (cmd_open_pipes cmd) (cc_argv c) (cc_reading_pipes c)"
      using bw by (simp add: c_def built_call_facts b_wired_def)
    moreover have "length (cs @ [c]) = length ps + 1" using td by (simp add: tokens_done_def)
    moreover have "if inside
      then mset (a # new) = mset (fresh st0 st3) \<and>
           (\<exists>l \<in> set (fresh st0 st3).
              last_parsed_command_call_substitution st3 = Some l \<and>
              cc_writing_pipes ((cs @ [c]) ! (l - length (call_heap st0))) = Some [])
      else \<exists>l \<in> set (fresh st0 st3).
             last_parsed_command_call st3 = Some l \<and>
             mset (new @ (if l = a then [a] else [a, l])) = mset (fresh st0 st3)"
    proof (cases inside)
      case True
      then have n: "mset new = mset (fresh st0 st)" using td by (simp add: tokens_done_def)
      have "last_parsed_command_call_substitution st = None \<and> b_writing_pipes b = Some [] \<or>
            (\<exists>l \<in> set (fresh st0 st).
               last_parsed_command_call_substitution st = Some l \<and>
               cc_writing_pipes (cs ! (l - length (call_heap st0))) = Some [])"
        using td True by (simp add: tokens_done_def)
      then have "\<exists>l \<in> set (fresh st0 st3).
              last_parsed_command_call_substitution st3 = Some l \<and>
              cc_writing_pipes ((cs @ [c]) ! (l - length (call_heap st0))) = Some []"
      proof
        assume "last_parsed_command_call_substitution st = None \<and> b_writing_pipes b = Some []"
        then show ?thesis
          using True lasts e(2,3) by (intro bexI [of _ a]) (simp_all add: c_def built_call_facts)
      next
        assume "\<exists>l \<in> set (fresh st0 st).
               last_parsed_command_call_substitution st = Some l \<and>
               cc_writing_pipes (cs ! (l - length (call_heap st0))) = Some []"
        then obtain l where "l \<in> set (fresh st0 st)" "last_parsed_command_call_substitution st = Some l"
          "cc_writing_pipes (cs ! (l - length (call_heap st0))) = Some []" by blast
        then show ?thesis using lasts e(2) e(4) [of l] by (intro bexI [of _ l]) simp_all
      qed
      then show ?thesis using True n e(2) by simp
    next
      case False
      have n: "mset (new @ (case last_parsed_command_call st of None \<Rightarrow> [] | Some l \<Rightarrow> [l])) =
           mset (fresh st0 st)" using td False by (simp add: tokens_done_def)
      show ?thesis
      proof (cases "last_parsed_command_call st")
        case None
        then show ?thesis using False n lasts e(2) by simp
      next
        case (Some l)
        then have l: "l \<in> set (fresh st0 st)" using fr False by (auto simp: frame_def)
        then have "l \<noteq> a" using a_new by auto
        then show ?thesis using False n lasts e(2) Some l by simp
      qed
    qed
    ultimately show ?thesis using e(2,3) by (simp add: call_done_def)
  qed
  ultimately have "yields {} (Inr (Some a, cmd, st3)) ?Q" by auto
  then show ?thesis using err unfolding m by simp
qed

lemma all_writes_add:
  assumes "i < length cs" and "wired ps (cs ! i)"
    and "cc_writing_pipes c' = add_pipe_pipe_info (cc_writing_pipes (cs ! i)) k"
  shows "all_writes (cs[i := c']) = add_mset k (all_writes cs)"
  using all_writes_update [OF assms(1), of c'] writes_add [OF assms(2,3)] by simp

lemma all_reads_add:
  assumes "i < length cs" and "wired ps (cs ! i)"
    and "cc_reading_pipes c' = add_pipe_pipe_info (cc_reading_pipes (cs ! i)) k"
  shows "all_reads (cs[i := c']) = add_mset k (all_reads cs)"
  using all_reads_update [OF assms(1), of c'] reads_add [OF assms(2,3)] by simp

lemma all_writes_same:
  "i < length cs \<Longrightarrow> writes c' = writes (cs ! i) \<Longrightarrow> all_writes (cs[i := c']) = all_writes cs"
  using all_writes_update [of i cs c'] by simp

lemma all_reads_same:
  "i < length cs \<Longrightarrow> reads c' = reads (cs ! i) \<Longrightarrow> all_reads (cs[i := c']) = all_reads cs"
  using all_reads_update [of i cs c'] by simp

lemma new_pipes_snoc:
  "cmd_open_pipes cmd = cmd_open_pipes cmd0 @ ps \<Longrightarrow>
     new_pipes cmd0 (ps @ [p]) = add_mset (open_pipes_size cmd) (new_pipes cmd0 ps)"
  by (simp add: new_pipes_def)

text \<open>A pipe from the call under construction to the call \<open>a\<close>, and \<open>a\<close> in the list.\<close>

lemma link_step:
  assumes fr: "frame inside cmd0 st0 cmd st new ps cs"
    and cd: "call_done inside cmd0 st0 a cmd st new ps cs"
    and b: "b_wired (cmd_open_pipes cmd0) args b" "b_writing_pipes b = Some []"
  shows "yields {} (link_pipelines OS cmd b a st)
           (\<lambda>(status, cmd', b', st').
              (status = -1 \<longrightarrow> frame inside cmd0 st0 cmd' st' new ps cs) \<and>
              (status \<noteq> -1 \<longrightarrow> (\<exists>new ps cs.
                 let cmd'' = (if last_parsed_command_call st' \<noteq> Some a \<or> inside
                              then add_call_at_the_end cmd' (Some a) else cmd')
                 in frame inside cmd0 st0 cmd'' st' new ps cs \<and>
                    tokens_done inside cmd0 st0 b args b' cmd'' st' new ps cs)))"
    (is "yields {} ?m ?Q")
proof -
  obtain p st1 where p: "sys_pipe OS st = (p, st1)" by fastforce
  have g: "same_globals st st1" using p by (rule same_globals_sys_pipe)
  note gs = same_globals_parser [OF g]
  have fr1: "frame inside cmd0 st0 cmd st1 new ps cs" using fr g by (rule frame_globals)
  show ?thesis
  proof (cases p)
    case None
    then show ?thesis
      using p frame_globals [OF fr1, of "perror OS ''pipe'' st1"] by (simp add: link_pipelines_def)
  next
    case (Some q)
    obtain rd wt where q: "q = (rd, wt)" by (cases q)
    define index where "index = open_pipes_size cmd"
    define f where "f c = c\<lparr>cc_reading_pipes := add_pipe_pipe_info (cc_reading_pipes c) index,
                            cc_stdin := rd\<rparr>" for c :: command_call
    define cmd1 where "cmd1 = add_pipe cmd q"
    define b' where "b' = b\<lparr>b_writing_pipes := add_pipe_pipe_info (b_writing_pipes b) index,
                             b_fds := (b_fds b)[1 := wt]\<rparr>"
    define i where "i = a - length (call_heap st0)"
    have ex1: "extends_to cmd0 st0 cmd st1 new ps cs" using fr1 by (simp add: frame_def)
    have ex: "extends_to cmd0 st0 cmd1 st1 new (ps @ [q]) cs"
      using extends_trans [OF ex1 extends_pipe [of cmd st1 q]] by (simp add: cmd1_def)
    have f1: "fresh st0 st1 = fresh st0 st" using gs by (simp add: fresh_def)
    have a: "a \<in> set (fresh st0 st1)" using cd f1 by (simp add: call_done_def)
    have pipes: "cmd_open_pipes cmd1 = cmd_open_pipes cmd @ [q]" "cmd_open_pipes cmd1 ! index = q"
      "index < length (cmd_open_pipes cmd1)" "cmd_open_pipes cmd1 = cmd_open_pipes cmd0 @ ps @ [q]"
      "cmd_open_pipes cmd = cmd_open_pipes cmd0 @ ps"
      using ex1 by (simp_all add: cmd1_def add_pipe_def index_def extends_to_def)
    note rd = extends_read [OF ex a, folded i_def] and rd1 = extends_read [OF ex1 a, folded i_def]
    have args: "reads_as_arguments (cmd_open_pipes cmd1) (cc_argv (cs ! i)) (cc_reading_pipes (cs ! i))"
    proof -
      have "reads_as_arguments (cmd_open_pipes cmd) (cc_argv (cs ! i)) (cc_reading_pipes (cs ! i))"
        using cd by (simp add: call_done_def Let_def i_def)
      from wired_mono(2) [OF this subset_refl, of "[q]"] show ?thesis by (simp add: pipes(1))
    qed
    have "writes_at_most_one (cmd_open_pipes cmd1) (cc_stdout (f (cs ! i))) (cc_writing_pipes (f (cs ! i)))"
      using rd(3) by (simp add: wired_def f_def)
    moreover obtain r where r: "cc_reading_pipes (cs ! i) = Some r" using rd(3) by (auto simp: wired_def)
    moreover have "k < length (cmd_open_pipes cmd1) \<and> (cc_stdin (f (cs ! i)) = fst (cmd_open_pipes cmd1 ! k) \<or>
        dev_file (cmd_open_pipes cmd1 ! k) \<in> set (cc_argv (f (cs ! i))))" if "k \<in> set (r @ [index])" for k
      using that args r pipes q by (auto simp: reads_as_arguments_def f_def)
    ultimately have w: "wired (cmd_open_pipes cmd1) (f (cs ! i))"
      by (auto simp: wired_def f_def add_pipe_pipe_info_def)
    obtain st2 h where u: "update_call a f st1 = Inr st2" "st2 = st1\<lparr>call_heap := h\<rparr>"
      "fresh st0 st2 = fresh st0 st1" and ex2: "extends_to cmd0 st0 cmd1 st2 new (ps @ [q]) (cs[i := f (cs ! i)])"
      using extends_update [where f = f, OF ex a, folded i_def, OF w] by blast
    have m: "?m = Inr (0, cmd1, b', st2)"
      using p Some q u(1) [unfolded f_def [abs_def] index_def]
      by (simp add: link_pipelines_def Let_def index_def cmd1_def b'_def)
    define cs' where "cs' = cs[i := f (cs ! i)]"
    have lasts: "last_parsed_command_call st2 = last_parsed_command_call st"
      "last_parsed_command_call_substitution st2 = last_parsed_command_call_substitution st"
      using gs by (simp_all add: u(2))
    have f2: "fresh st0 st2 = fresh st0 st" using u(3) f1 by simp
    have cnt: "length cs' = length (ps @ [q])" using cd by (simp add: call_done_def cs'_def)
    have W: "all_writes cs' + b_writes b' = b_writes b + new_pipes cmd0 (ps @ [q])"
    proof -
      have "all_writes cs' = all_writes cs"
        unfolding cs'_def using rd(1) by (intro all_writes_same) (simp_all add: f_def writes_def)
      then show ?thesis
        using cd b(2) new_pipes_snoc [OF pipes(5), of q]
        by (simp add: call_done_def b_writes_def b'_def add_pipe_pipe_info_def index_def)
    qed
    have R: "all_reads cs' + b_reads b' = b_reads b + new_pipes cmd0 (ps @ [q])"
    proof -
      have "all_reads cs' = add_mset index (all_reads cs)"
        unfolding cs'_def using rd(1) rd1(3) by (intro all_reads_add) (simp_all add: f_def)
      then show ?thesis
        using cd new_pipes_snoc [OF pipes(5), of q] by (simp add: call_done_def b_reads_def b'_def index_def)
    qed
    have BW: "b_wired (cmd_open_pipes cmd1) args b'"
      using wired_mono(4) [OF b(1), of args "ps @ [q]"] b pipes q
      by (auto simp: b_wired_def b'_def writes_at_most_one_def add_pipe_pipe_info_def)
    have nth: "cc_writing_pipes (cs' ! (l - length (call_heap st0))) =
        cc_writing_pipes (cs ! (l - length (call_heap st0)))" for l
      using rd(1) by (cases "l - length (call_heap st0) = i") (simp_all add: cs'_def f_def)
    have "\<exists>new. let cmd'' = (if last_parsed_command_call st2 \<noteq> Some a \<or> inside
                              then add_call_at_the_end cmd1 (Some a) else cmd1)
                 in frame inside cmd0 st0 cmd'' st2 new (ps @ [q]) cs' \<and>
                    tokens_done inside cmd0 st0 b args b' cmd'' st2 new (ps @ [q]) cs'"
    proof (cases "last_parsed_command_call st2 \<noteq> Some a \<or> inside")
      case True
      have an: "a \<notin> set new"
      proof (cases inside)
        case True
        then have "mset (a # new) = mset (fresh st0 st)" using cd by (simp add: call_done_def)
        then have "distinct (a # new)" by (metis distinct_upt fresh_def mset_eq_imp_distinct_iff)
        then show ?thesis by simp
      next
        case False
        then obtain l where "last_parsed_command_call st = Some l" "l \<noteq> a"
          "mset (new @ (if l = a then [a] else [a, l])) = mset (fresh st0 st)"
          using cd True lasts by (auto simp: call_done_def)
        then have "distinct (new @ [a, l])" by (metis distinct_upt fresh_def mset_eq_imp_distinct_iff)
        then show ?thesis by simp
      qed
      have pc: "cmd_open_pipes (add_call_at_the_end cmd1 (Some a)) = cmd_open_pipes cmd1"
        by (simp add: add_call_at_the_end_def)
      have "extends_to cmd0 st0 (add_call_at_the_end cmd1 (Some a)) st2 (new @ [a]) (ps @ [q]) cs'"
        using ex2 an a u(3) unfolding cs'_def by (intro extends_list_call) simp_all
      then have "frame inside cmd0 st0 (add_call_at_the_end cmd1 (Some a)) st2 (new @ [a]) (ps @ [q]) cs'"
        using fr lasts f2 True by (auto simp: frame_def)
      moreover have "tokens_done inside cmd0 st0 b args b' (add_call_at_the_end cmd1 (Some a)) st2
                       (new @ [a]) (ps @ [q]) cs'"
        using cd cnt W R BW True lasts f2 nth
        by (cases inside) (auto simp: tokens_done_def call_done_def pc)
      ultimately show ?thesis using True by (intro exI [of _ "new @ [a]"]) simp
    next
      case False
      then have "\<not> inside" "last_parsed_command_call st = Some a" using lasts by auto
      then have "tokens_done inside cmd0 st0 b args b' cmd1 st2 new (ps @ [q]) cs'"
        using cd cnt W R BW lasts f2 by (auto simp: tokens_done_def call_done_def)
      moreover have "frame inside cmd0 st0 cmd1 st2 new (ps @ [q]) cs'"
        using fr ex2 lasts f2 False by (auto simp: frame_def cs'_def)
      ultimately show ?thesis using False by (intro exI [of _ new]) simp
    qed
    then obtain new' where "let cmd'' = (if last_parsed_command_call st2 \<noteq> Some a \<or> inside
                              then add_call_at_the_end cmd1 (Some a) else cmd1)
                 in frame inside cmd0 st0 cmd'' st2 new' (ps @ [q]) cs' \<and>
                    tokens_done inside cmd0 st0 b args b' cmd'' st2 new' (ps @ [q]) cs'" ..
    then show ?thesis
      unfolding m yields_simps prod.case
      by (intro conjI impI exI [of _ new'] exI [of _ "ps @ [q]"] exI [of _ cs']) simp_all
  qed
qed

text \<open>The inside of a substitution is parsed; \<open>q\<close> is its pipe, opened just before.\<close>

lemma finish_substitution_step:
  assumes b: "b_wired (cmd_open_pipes cmd0) args b" "b_writing_pipes b = Some []"
    and fr: "frame True (add_pipe cmd0 q) st0 cmd st new ps cs"
    and cd: "\<And>a. call = Some a \<Longrightarrow> call_done True (add_pipe cmd0 q) st0 a cmd st new ps cs"
  shows "yields {Use_After_Free} (finish_substitution b i (open_pipes_size cmd0) q call cmd st)
           (\<lambda>(r, b', cmd', st'). \<exists>new ps cs. frame True cmd0 st0 cmd' st' new ps cs \<and>
              (\<forall>k dev. r = Some (k, dev) \<longrightarrow>
                 k = i \<and>
                 tokens_done True cmd0 st0 b (args @ [dev]) b' cmd' st' new ps cs \<and>
                 last_parsed_command_call_substitution st' = None \<and> b_writing_pipes b' = Some []))"
    (is "yields _ ?m ?Q")
proof -
  have ex1: "extends_to (add_pipe cmd0 q) st0 cmd st new ps cs" using fr by (simp add: frame_def)
  have ex: "extends_to cmd0 st0 cmd st new ([q] @ ps) cs"
    using extends_trans [OF extends_pipe [of cmd0 st0 q] ex1] by simp
  have last: "last_parsed_command_call st = last_parsed_command_call st0" using fr by (simp add: frame_def)
  have fail: "yields {Use_After_Free} (Inr (None, b, cmd, st)) ?Q"
    using ex last by (auto simp: frame_def)
  show ?thesis
  proof (cases call)
    case None
    then show ?thesis using fail by (cases "last_parsed_command_call_substitution st") (simp_all add: finish_substitution_def)
  next
    case (Some a)
    note cd = cd [OF Some]
    obtain l where l: "l \<in> set (fresh st0 st)" "last_parsed_command_call_substitution st = Some l"
      and lw: "cc_writing_pipes (cs ! (l - length (call_heap st0))) = Some []"
      using cd by (auto simp: call_done_def)
    define j where "j = l - length (call_heap st0)"
    note rd = extends_read [OF ex l(1), folded j_def]
    have a: "a \<in> set (fresh st0 st)" using cd by (simp add: call_done_def)
    show ?thesis
    proof (cases "cc_stdout (cs ! j) = 1")
      case False
      have "read_call a st = Inr (cs ! (a - length (call_heap st0)))" by (rule extends_read [OF ex a])
      moreover from this have "a < length (call_heap st)" by (auto simp: read_call_def split: if_splits)
      ultimately have "?m = Inl Use_After_Free"
        using l(2) rd(2) Some False
        by (simp add: finish_substitution_def destroy_command_call_def read_call_def)
      then show ?thesis by simp
    next
      case True
      define index where "index = open_pipes_size cmd0"
      define f where "f c = c\<lparr>cc_stdout := snd q\<rparr>" for c :: command_call
      define g where "g c = c\<lparr>cc_writing_pipes := add_pipe_pipe_info (cc_writing_pipes c) index\<rparr>"
        for c :: command_call
      have pipes: "cmd_open_pipes cmd = cmd_open_pipes cmd0 @ q # ps"
        using ex by (simp add: extends_to_def)
      then have q: "cmd_open_pipes cmd ! index = q" "index < open_pipes_size cmd" by (simp_all add: index_def)
      have wf: "wired (cmd_open_pipes cmd) (f (cs ! j))"
        using rd(3) lw by (auto simp: wired_def f_def writes_at_most_one_def j_def)
      obtain st1 h where u1: "update_call l f st = Inr st1" "st1 = st\<lparr>call_heap := h\<rparr>"
        "fresh st0 st1 = fresh st0 st" and ex1: "extends_to cmd0 st0 cmd st1 new ([q] @ ps) (cs[j := f (cs ! j)])"
        using extends_update [where f = f, OF ex l(1), folded j_def, OF wf] by blast
      have l1: "l \<in> set (fresh st0 st1)" using l(1) u1(3) by simp
      have cj: "cs[j := f (cs ! j)] ! j = f (cs ! j)" using rd(1) by simp
      have wg: "wired (cmd_open_pipes cmd) (g (cs[j := f (cs ! j)] ! j))"
        unfolding cj using wf lw q
        by (auto simp: wired_def f_def g_def writes_at_most_one_def j_def add_pipe_pipe_info_def)
      define cs' where "cs' = cs[j := g (f (cs ! j))]"
      obtain st2 h' where u2: "update_call l g st1 = Inr st2" "st2 = st1\<lparr>call_heap := h'\<rparr>"
        "fresh st0 st2 = fresh st0 st1" and ex2: "extends_to cmd0 st0 cmd st2 new ([q] @ ps) cs'"
        using extends_update [where f = g, OF ex1 l1, folded j_def, OF wg] unfolding cj cs'_def list_update_overwrite by blast
      define st3 where "st3 = st2\<lparr>last_parsed_command_call_substitution := None\<rparr>"
      define b' where "b' = b\<lparr>b_reading_pipes := add_pipe_pipe_info (b_reading_pipes b) index\<rparr>"
      define cmd1 where "cmd1 = add_call_at_the_end cmd (Some a)"
      have m: "?m = Inr (Some (i, dev_file q), b', cmd1, st3)"
        using l(2) rd(2) Some True u1(1) [unfolded f_def [abs_def]] u2(1) [unfolded g_def [abs_def] index_def]
        by (simp add: finish_substitution_def update_dependencies_def dev_file_def st3_def b'_def cmd1_def
            index_def)
      have heap3: "call_heap st3 = call_heap st2" and p3: "parser_only st2 st3"
        by (auto simp: st3_def parser_only_iff)
      have f3: "fresh st0 st3 = fresh st0 st" using u1(3) u2(3) heap3 by (simp add: fresh_def)
      have n: "mset (a # new) = mset (fresh st0 st)" using cd by (simp add: call_done_def)
      then have "distinct (a # new)" by (metis distinct_upt fresh_def mset_eq_imp_distinct_iff)
      then have an: "a \<notin> set new" by simp
      have ex3: "extends_to cmd0 st0 cmd1 st3 (new @ [a]) ([q] @ ps) cs'"
        unfolding cmd1_def using extends_globals [OF ex2 p3 heap3] an a f3
        by (intro extends_list_call) simp_all
      have "last_parsed_command_call st3 = last_parsed_command_call st"
        by (simp add: st3_def u2(2) u1(2))
      then have FR: "frame True cmd0 st0 cmd1 st3 (new @ [a]) ([q] @ ps) cs'"
        using ex3 last by (simp add: frame_def)
      have np: "new_pipes cmd0 ([q] @ ps) = add_mset index (new_pipes (add_pipe cmd0 q) ps)"
      proof -
        have "cmd_open_pipes (add_pipe cmd0 q) = cmd_open_pipes cmd0 @ [q]" by (simp add: add_pipe_def)
        from new_pipes_chain [OF this, of ps] show ?thesis by (simp add: new_pipes_def index_def)
      qed
      have W: "all_writes cs' + b_writes b' = b_writes b + new_pipes cmd0 ([q] @ ps)"
      proof -
        have "all_writes cs' = add_mset index (all_writes cs)"
          unfolding cs'_def using rd(1,3) by (intro all_writes_add) (simp_all add: f_def g_def)
        then show ?thesis using cd np b(2) by (simp add: call_done_def b_writes_def b'_def)
      qed
      have R: "all_reads cs' + b_reads b' = b_reads b + new_pipes cmd0 ([q] @ ps)"
      proof -
        have "all_reads cs' = all_reads cs"
          unfolding cs'_def using rd(1) by (intro all_reads_same) (simp_all add: f_def g_def reads_def)
        moreover have "b_reads b' = add_mset index (b_reads b)"
          using b(1) by (auto simp: b_reads_def b'_def b_wired_def reads_as_arguments_def
              add_pipe_pipe_info_def split: option.splits)
        ultimately show ?thesis using cd np by (simp add: call_done_def)
      qed
      have BW: "b_wired (cmd_open_pipes cmd) (args @ [dev_file q]) b'"
      proof -
        have "b_wired (cmd_open_pipes cmd) (args @ [dev_file q]) b"
          using wired_mono(4) [OF b(1), of "args @ [dev_file q]" "q # ps"] by (auto simp: pipes)
        then show ?thesis using q
          by (auto simp: b_wired_def b'_def reads_as_arguments_def add_pipe_pipe_info_def split: option.splits)
      qed
      have cnt: "length cs' = length ([q] @ ps)" using cd by (simp add: cs'_def call_done_def)
      have pc: "cmd_open_pipes cmd1 = cmd_open_pipes cmd" by (simp add: cmd1_def add_call_at_the_end_def)
      have "tokens_done True cmd0 st0 b (args @ [dev_file q]) b' cmd1 st3 (new @ [a]) ([q] @ ps) cs'"
        using cnt W R BW n f3 b(2) unfolding tokens_done_def pc
        by (simp add: st3_def b'_def)
      then show ?thesis
        using FR b(2) unfolding m
        by (auto simp: st3_def b'_def intro!: exI [of _ "new @ [a]"] exI [of _ "[q] @ ps"] exI [of _ cs'])
    qed
  qed
qed

section \<open>The induction over the parser\<close>

lemma split_word:
  assumes "split_string s [c] = Inr (Some tokens)"
  shows "tokens = words s [c]" and "tokens \<noteq> []" and "\<not> set s \<subseteq> {c}"
  using assms by (auto simp: split_string_words words_single_Nil_iff split: if_splits)

lemma c_free_join: "ts \<noteq> [] \<Longrightarrow> join_strings ts sep = Inr j \<Longrightarrow> c_free j = Inr ()"
  by (auto simp: join_strings_intercalate)

lemma ready_same_globals: "same_globals st st' \<Longrightarrow> ready inside st' = ready inside st"
  by (auto simp: same_globals_iff ready_def)

definition are_words :: "string list \<Rightarrow> bool" where
  "are_words ts \<longleftrightarrow> (\<forall>w \<in> set ts. w \<noteq> [] \<and> CHR '' '' \<notin> set w)"

lemma are_words_mono: "are_words us \<Longrightarrow> set ts \<subseteq> set us \<Longrightarrow> are_words ts"
  by (auto simp: are_words_def)

lemma words_join: "are_words ts \<Longrightarrow> join_strings ts '' '' = Inr j \<Longrightarrow> words (cstr_text j) '' '' = ts"
  by (auto simp: join_strings_intercalate are_words_def words_intercalate split: if_splits)

lemma parse_tree:
  "ready inside st \<Longrightarrow>
     yields {Use_After_Free} (parse_command_call OS cmd s inside inpipe st)
       (\<lambda>(r, cmd', st'). \<exists>new ps cs. frame inside cmd st cmd' st' new ps cs \<and>
          (\<forall>a. r = Some a \<longrightarrow> call_done inside cmd st a cmd' st' new ps cs))"
  "ready inside st \<Longrightarrow> b_wired (cmd_open_pipes cmd) args b \<Longrightarrow> b_writing_pipes b = Some [] \<Longrightarrow>
     are_words ts \<Longrightarrow>
     yields {Use_After_Free} (parse_tokens OS inside index args ts b cmd st)
       (\<lambda>(ok, args', b', cmd', st'). \<exists>new ps cs. frame inside cmd st cmd' st' new ps cs \<and>
          (ok \<longrightarrow> tokens_done inside cmd st b args' b' cmd' st' new ps cs))"
  "ts = [] \<or> hd ts \<noteq> COMMAND_SUBSTITUTION_END \<Longrightarrow>
     b_wired (cmd_open_pipes cmd) args b \<Longrightarrow> b_writing_pipes b = Some [] \<Longrightarrow>
     yields {Use_After_Free} (parse_command_substitution OS cmd b ts st)
       (\<lambda>(r, b', cmd', st'). \<exists>new ps cs. frame True cmd st cmd' st' new ps cs \<and>
          (\<forall>k dev. r = Some (k, dev) \<longrightarrow>
             tokens_done True cmd st b (args @ [dev]) b' cmd' st' new ps cs \<and>
             last_parsed_command_call_substitution st' = None \<and> b_writing_pipes b' = Some []))"
proof (induction OS cmd s inside inpipe st and OS inside index args ts b cmd st and OS cmd b ts st
    arbitrary: and and args
    rule: parse_command_call_parse_tokens_parse_command_substitution.induct)
  case (1 OS cmd s inside inpipe st)
  have nb: "b_wired (cmd_open_pipes cmd) [] new_command_call_builder"
    "b_writing_pipes new_command_call_builder = Some []"
    by (simp_all add: b_wired_def new_command_call_builder_def new_pipe_info_def
        writes_at_most_one_def reads_as_arguments_def)
  show ?case
  proof (cases "split_string s '' ''")
    case (Inl u)
    then show ?thesis by (simp add: split_string_words)
  next
    case (Inr r)
    show ?thesis
    proof (cases r)
      case None
      then show ?thesis
        using Inr frame_refl [OF same_globals_refl 1(2)]
        by (auto simp: parse_command_call.simps intro!: exI)
    next
      case (Some tokens)
      note w = split_word [OF Inr [unfolded Some]]
      have "are_words tokens" using words_single_mem w(1) by (auto simp: are_words_def)
      from "1.IH" [OF Inr Some 1(2) nb this] have IH: "yields {Use_After_Free}
          (parse_tokens OS inside 0 [] tokens new_command_call_builder cmd st)
          (\<lambda>(ok, args', b', cmd', st'). \<exists>new ps cs. frame inside cmd st cmd' st' new ps cs \<and>
             (ok \<longrightarrow> tokens_done inside cmd st new_command_call_builder args' b' cmd' st' new ps cs))"
        by (simp add: w(1))
      show ?thesis
        unfolding parse_command_call.simps Inr bindU_Inr Some option.case
      proof (rule yields_bind [OF IH], clarify, goal_cases)
        case (1 ok args b cmd' st' new ps cs)
        show ?case
        proof (cases ok)
          case False
          then show ?thesis
            using frame_globals [OF 1(2) same_globals_close_from_array] by auto
        next
          case True
          then have "tokens_done inside cmd st new_command_call_builder args b cmd' st' new ps cs"
            using 1(3) by simp
          from yields_widen [OF finish_call_step [OF 1(2) this w(3)]] True
          show ?thesis by simp
        qed
      qed
    qed
  qed
next
  case (2 OS inside index args b cmd st)
  then show ?case
    using frame_refl [OF same_globals_refl 2(1)] tokens_done_refl [OF 2(2,3,1)]
    by (auto simp: parse_tokens.simps intro!: exI)
next
  case (3 OS inside index args t rest b cmd st)
  have unchanged: "\<exists>new ps cs. frame inside cmd st cmd st' new ps cs" if "same_globals st st'" for st'
    using frame_refl [OF that 3(6)] by blast
  have rw: "are_words rest" using are_words_mono [OF 3(9), of rest] by auto
  consider (word) "t \<notin> set redirection_caret_symbols"
    | (alone) "t \<in> set redirection_caret_symbols" "rest = [] \<or> index = 0"
    | (twice) "t \<in> set redirection_caret_symbols" "\<not> (rest = [] \<or> index = 0)"
        "hd rest \<in> set redirection_caret_symbols"
    | (subst) "t \<in> set redirection_caret_symbols" "\<not> (rest = [] \<or> index = 0)"
        "hd rest \<notin> set redirection_caret_symbols" "t = ''<(''"
    | (pipe) "t \<in> set redirection_caret_symbols" "\<not> (rest = [] \<or> index = 0)"
        "hd rest \<notin> set redirection_caret_symbols" "t \<noteq> ''<(''" "t = ''|''"
    | (redir) "t \<in> set redirection_caret_symbols" "\<not> (rest = [] \<or> index = 0)"
        "hd rest \<notin> set redirection_caret_symbols" "t \<noteq> ''<(''" "t \<noteq> ''|''"
    by blast
  then show ?case
  proof cases
    case word
    have "b_wired (cmd_open_pipes cmd) (args @ [t]) b"
      using wired_mono(4) [OF 3(7), of "args @ [t]" "[]"] by auto
    then show ?thesis
      using "3.IH"(1) [OF _ 3(6) _ 3(8)] word rw
      by (auto simp: parse_tokens.simps)
  next
    case alone
    then show ?thesis using unchanged [OF same_globals_parse_error] by (simp add: parse_tokens.simps)
  next
    case twice
    then show ?thesis using unchanged [OF same_globals_parse_error] by (simp add: parse_tokens.simps)
  next
    case subst
    have hd: "rest = [] \<or> hd rest \<noteq> '')''" using subst by (auto simp: redirection_caret_symbols_def)
    have m: "parse_tokens OS inside index args (t # rest) b cmd st =
      bindU (parse_command_substitution OS cmd b rest st) (\<lambda>(r, b, cmd, st).
             case r of
               None \<Rightarrow> Inr (False, args, b, cmd, parse_error '' near (null)'' st)
             | Some (i, dev) \<Rightarrow>
                 parse_tokens OS inside (index + i + 2) (args @ [dev])
                   (drop (i + 1) rest) b cmd st)"
      using subst by (simp add: parse_tokens.simps)
    show ?thesis
      unfolding m
    proof (rule yields_bind [OF "3.IH"(2) [OF _ subst(2) _ subst(4) hd 3(7,8)]], goal_cases)
      case (3 x)
      obtain r b1 cmd1 st1 where x: "x = (r, b1, cmd1, st1)" by (cases x)
      obtain n1 p1 c1 where f1: "frame True cmd st cmd1 st1 n1 p1 c1"
        and ok: "\<And>k dev. r = Some (k, dev) \<Longrightarrow>
             tokens_done True cmd st b (args @ [dev]) b1 cmd1 st1 n1 p1 c1 \<and>
             last_parsed_command_call_substitution st1 = None \<and> b_writing_pipes b1 = Some []"
        using 3(2) by (auto simp: x)
      have last: "last_parsed_command_call st1 = last_parsed_command_call st" and
        ex: "extends_to cmd st cmd1 st1 n1 p1 c1" using f1 by (simp_all add: frame_def)
      have fi: "frame inside cmd st cmd1 st1 n1 p1 c1"
        using f1 last \<open>ready inside st\<close> by (auto simp: frame_def ready_def)
      show ?case
      proof (cases r)
        case None
        then show ?thesis
          using frame_globals [OF fi same_globals_parse_error] by (auto simp: x)
      next
        case (Some q)
        obtain i dev where q: "q = (i, dev)" by (cases q)
        note ok = ok [OF Some [unfolded q]]
        have r1: "ready inside st1" using ok last \<open>ready inside st\<close> by (simp add: ready_def)
        have bw: "b_wired (cmd_open_pipes cmd1) (args @ [dev]) b1" using ok by (simp add: tokens_done_def)
        have dw: "are_words (drop (i + 1) rest)" using rw by (rule are_words_mono) (rule set_drop_subset)
        note IH = "3.IH"(3) [OF _ subst(2) _ subst(4) 3(1) x [symmetric] refl refl
            Some q [symmetric] r1 bw _ dw]
        show ?thesis
          unfolding x Some q prod.case option.case
        proof (rule yields_mono [OF IH], goal_cases)
          case (4 y)
          obtain ok2 args2 b2 cmd2 st2 where y: "y = (ok2, args2, b2, cmd2, st2)" by (cases y)
          obtain n2 p2 c2 where f2: "frame inside cmd1 st1 cmd2 st2 n2 p2 c2"
            and t2: "ok2 \<Longrightarrow> tokens_done inside cmd1 st1 b1 args2 b2 cmd2 st2 n2 p2 c2"
            using 4 by (auto simp: y)
          have e2: "extends_to cmd1 st1 cmd2 st2 n2 p2 c2" using f2 by (simp add: frame_def)
          have "ok2 \<Longrightarrow> tokens_done inside cmd st b args2 b2 cmd2 st2 (n1 @ n2) (p1 @ p2) (c1 @ c2)"
            using tokens_after_substitution [OF ex conjunct1 [OF ok] e2 t2] by simp
          then show ?case
            using frame_after_substitution [OF ex last f2] unfolding y prod.case by blast
        qed (use subst ok in simp_all)
      qed
    qed (use subst in simp_all)
  next
    case pipe
    show ?thesis
    proof (cases "b_fds b ! 1 = -1")
      case False
      then show ?thesis
        using pipe unchanged [OF same_globals_parse_error] by (simp add: parse_tokens.simps)
    next
      case True
      obtain joined where j: "join_strings rest '' '' = Inr joined" by (simp add: join_strings_intercalate)
      have cf: "c_free joined = Inr ()" using pipe(2) j by (intro c_free_join) auto
      have m: "parse_tokens OS inside index args (t # rest) b cmd st =
        bindU (parse_command_call OS cmd (cstr_text joined) inside True st) (\<lambda>(call, cmd, st).
          case call of
            None \<Rightarrow> Inr (False, args, b, cmd, parse_error ('' near '' @ ''|'') st)
          | Some a \<Rightarrow>
              bindU (link_pipelines OS cmd b a st) (\<lambda>(status, cmd, b, st).
                if status = -1
                then Inr (False, args, b, cmd, parse_error ('' near '' @ ''|'') st)
                else let cmd = (if last_parsed_command_call st \<noteq> Some a \<or> inside
                                then add_call_at_the_end cmd (Some a) else cmd)
                     in Inr (True, args, b, cmd, st)))"
        using pipe True j cf by (simp add: parse_tokens.simps)
      show ?thesis
        unfolding m
      proof (rule yields_bind [OF "3.IH"(4) [OF _ pipe(2) _ pipe(4,5) _ j 3(6)]], goal_cases)
        case (4 x)
        obtain r cmd1 st1 where x: "x = (r, cmd1, st1)" by (cases x)
        obtain n1 p1 c1 where f1: "frame inside cmd st cmd1 st1 n1 p1 c1"
          and ok: "\<And>a. r = Some a \<Longrightarrow> call_done inside cmd st a cmd1 st1 n1 p1 c1"
          using 4(2) by (auto simp: x)
        show ?case
        proof (cases r)
          case None
          then show ?thesis
            using frame_globals [OF f1 same_globals_parse_error] by (auto simp: x)
        next
          case (Some a)
          note ls = yields_widen [OF link_step [OF f1 ok [OF Some] 3(7,8), of OS]]
          show ?thesis
            unfolding x Some prod.case option.case
          proof (rule yields_bind [OF ls], goal_cases)
            case (2 y)
            obtain status cmd2 b2 st2 where y: "y = (status, cmd2, b2, st2)" by (cases y)
            show ?case
            proof (cases "status = -1")
              case True
              then have "frame inside cmd st cmd2 (parse_error '' near |'' st2) n1 p1 c1"
                using 2(2) by (intro frame_globals [OF _ same_globals_parse_error]) (simp add: y)
              then show ?thesis using True unfolding y prod.case by auto
            next
              case False
              then show ?thesis using 2(2) by (auto simp: y Let_def)
            qed
          qed simp
        qed
      qed (use pipe True in simp_all)
    qed
  next
    case redir
    obtain status fds' st' where pr: "parse_redirections OS (b_fds b) t (hd rest) st = (status, fds', st')"
      by (metis prod_cases3)
    note pf = parse_redirections_frame [OF pr]
    define b' where "b' = b\<lparr>b_fds := fds'\<rparr>"
    have m: "parse_tokens OS inside index args (t # rest) b cmd st =
      (if status < 0 then Inr (False, args, b', cmd, st')
       else parse_tokens OS inside (index + 2) args (tl rest) b' cmd st')"
      using redir pr by (simp add: parse_tokens.simps b'_def)
    have bw: "b_wired (cmd_open_pipes cmd) args b'" "b_writing_pipes b' = Some []"
      using 3(7,8) pf by (simp_all add: b_wired_def b'_def writes_at_most_one_def)
    have rd: "ready inside st'" using 3(6) ready_same_globals [OF conjunct2 [OF pf]] by simp
    show ?thesis
    proof (cases "status < 0")
      case True
      then show ?thesis using unchanged pf unfolding m by simp
    next
      case False
      have tw: "are_words (tl rest)"
        using rw are_words_mono [of rest "tl rest"] set_drop_subset [of 1 rest] by (simp add: drop_Suc)
      note IH = "3.IH"(5) [OF _ redir(2) _ redir(4,5) pr [symmetric] refl refl b'_def False rd bw tw]
      note gs = same_globals_parser [OF conjunct2 [OF pf]]
      show ?thesis
        unfolding m if_not_P [OF False]
      proof (rule yields_mono [OF IH], goal_cases)
        case (3 y)
        obtain ok2 args2 b2 cmd2 st2 where y: "y = (ok2, args2, b2, cmd2, st2)" by (cases y)
        obtain n2 p2 c2 where f2: "frame inside cmd st' cmd2 st2 n2 p2 c2"
            and t2: "ok2 \<Longrightarrow> tokens_done inside cmd st' b' args2 b2 cmd2 st2 n2 p2 c2"
          using 3 by (auto simp: y)
        have h: "call_heap st' = call_heap st" using gs by blast
        have fr: "fresh st' st2 = fresh st st2" by (simp add: fresh_def h)
        have "frame inside cmd st cmd2 st2 n2 p2 c2"
          using f2 gs extends_from_globals [of cmd st' cmd2 st2 n2 p2 c2 st] by (auto simp: frame_def)
        moreover have "ok2 \<Longrightarrow> tokens_done inside cmd st b args2 b2 cmd2 st2 n2 p2 c2"
          using t2 h fr by (cases inside) (simp_all add: tokens_done_def b_writes_def b_reads_def b'_def)
        ultimately show ?case by (auto simp: y)
      qed (use redir in simp_all)
    qed
  qed
next
  case (4 OS cmd b ts st)
  define st0 where "st0 = st\<lparr>last_parsed_command_call_substitution := None\<rparr>"
  obtain i n where sc: "scan_substitution ts 0 0 = (i, n)" by fastforce
  have g0: "parser_only st st0" "call_heap st0 = call_heap st" "fresh st st' = fresh st0 st'"
    "last_parsed_command_call st0 = last_parsed_command_call st" for st'
    by (auto simp: st0_def parser_only_iff fresh_def)
  have fail: "frame True cmd st cmd st' [] [] []" if "same_globals st0 st'" for st'
    using extends_refl [of st st' cmd] same_globals_parser [OF that] g0 parser_only_trans [of st st0 st']
    by (simp add: frame_def)
  show ?case
  proof (cases "i = length ts \<or> n \<noteq> 0")
    case True
    then show ?thesis
      using fail [of st0] sc by (auto simp: parse_command_substitution.simps st0_def)
  next
    case False
    obtain p st1 where p: "sys_pipe OS st0 = (p, st1)" by fastforce
    note g1 = same_globals_sys_pipe [OF p]
    show ?thesis
    proof (cases p)
      case None
      then show ?thesis
        using False sc p [unfolded st0_def] fail [OF same_globals_trans [OF g1 same_globals_perror]]
        by (auto simp: parse_command_substitution.simps intro!: exI [of _ "[]"])
    next
      case (Some q)
      have i: "i < length ts" using False scan_substitution_le [OF sc] by simp
      have "i \<noteq> 0"
      proof
        assume "i = 0"
        then have "ts ! 0 = '')''" using scan_substitution_end [OF sc] i by simp
        then show False using "4.prems"(1) i by (cases ts) auto
      qed
      then have tk: "take i ts \<noteq> []" using i by auto
      obtain joined where j: "join_strings (take i ts) '' '' = Inr joined"
        by (simp add: join_strings_intercalate)
      have cf: "c_free joined = Inr ()" using tk j by (rule c_free_join)
      have m: "parse_command_substitution OS cmd b ts st =
        bindU (parse_command_call OS (add_pipe cmd q) (cstr_text joined) True False st1)
          (\<lambda>(call, cmd', st). finish_substitution b i (open_pipes_size cmd) q call cmd' st)"
        using False sc p [unfolded st0_def] Some j cf by (simp add: parse_command_substitution.simps)
      have rd: "ready True st1"
        using same_globals_parser [OF g1] by (simp add: ready_def st0_def)
      show ?thesis
        unfolding m
      proof (rule yields_bind, rule "4.IH" [OF st0_def refl _ False refl refl _ Some refl j rd],
          goal_cases)
        case (3 x)
        obtain r cmd1 st2 where x: "x = (r, cmd1, st2)" by (cases x)
        obtain n1 p1 c1 where f1: "frame True (add_pipe cmd q) st1 cmd1 st2 n1 p1 c1"
          and ok: "\<And>a. r = Some a \<Longrightarrow> call_done True (add_pipe cmd q) st1 a cmd1 st2 n1 p1 c1"
          using 3(2) by (auto simp: x)
        note fs = finish_substitution_step [OF "4.prems"(2,3) f1 ok, of r i]
        show ?case
          unfolding x prod.case
        proof (rule yields_mono [OF fs], goal_cases)
          case (2 y)
          obtain r2 b2 cmd2 st3 where y: "y = (r2, b2, cmd2, st3)" by (cases y)
          obtain n2 p2 c2 where f2: "frame True cmd st1 cmd2 st3 n2 p2 c2"
            and t2: "\<And>k dev. r2 = Some (k, dev) \<Longrightarrow>
                 tokens_done True cmd st1 b (args @ [dev]) b2 cmd2 st3 n2 p2 c2 \<and>
                 last_parsed_command_call_substitution st3 = None \<and> b_writing_pipes b2 = Some []"
            using 2 by (auto simp: y)
          have h1: "call_heap st1 = call_heap st" "parser_only st st1"
            "last_parsed_command_call st1 = last_parsed_command_call st"
            using same_globals_parser [OF g1] g0 parser_only_trans by auto
          have fr: "fresh st st3 = fresh st1 st3" using h1 by (simp add: fresh_def)
          have "frame True cmd st cmd2 st3 n2 p2 c2"
            using f2 h1 extends_from_globals [of cmd st1 cmd2 st3 n2 p2 c2 st] by (simp add: frame_def)
          moreover have "r2 = Some (k, dev) \<Longrightarrow>
              tokens_done True cmd st b (args @ [dev]) b2 cmd2 st3 n2 p2 c2" for k dev
            using t2 [of k dev] h1 fr by (simp add: tokens_done_def)
          ultimately show ?case using t2 by (auto simp: y)
        qed simp
      qed (use sc p Some in simp_all)
    qed
  qed
qed

end
