(* ===== verification/Parse_Faults.thy ===== *)
theory Parse_Faults
  imports Parse_Tree
begin

text \<open>
  When the parser uses a freed call: only on a substitution that redirects its own standard
  output. Without such a redirection the call whose descriptors
  \<^verbatim>\<open>parse_command_substitution\<close> looks at keeps its standard output.
\<close>

section \<open>The failing substitution\<close>

text \<open>
  A substitution that redirects its standard output: between \<^verbatim>\<open><(\<close> and the token at which the
  parser ends the substitution there is one of the symbols for the output.
\<close>

definition output_symbols :: "string list" where
  "output_symbols = [''>'', ''>|'', ''>>'']"

definition redirects_output :: "string list \<Rightarrow> bool" where
  "redirects_output ts \<longleftrightarrow> list_ex (\<lambda>t. t \<in> set output_symbols) ts"

fun redirects_inside :: "string list \<Rightarrow> bool" where
  "redirects_inside [] = False"
| "redirects_inside (t # ts) \<longleftrightarrow>
     t = ''<('' \<and> redirects_output (take (fst (scan_substitution ts 0 0)) ts) \<or> redirects_inside ts"

lemma redirects_output_mono: "redirects_output ts \<Longrightarrow> set ts \<subseteq> set us \<Longrightarrow> redirects_output us"
  by (auto simp: redirects_output_def list_ex_iff)

lemma redirects_inside_drop: "redirects_inside (drop n ts) \<Longrightarrow> redirects_inside ts"
  by (induction ts arbitrary: n) (auto simp: drop_Cons' split: if_splits)

lemma scan_substitution_take: "fst (scan_substitution (take m ts) i n) \<le> fst (scan_substitution ts i n)"
proof (induction ts i n arbitrary: m rule: scan_substitution.induct)
  case (2 t ts i n)
  have le: "j \<le> fst (scan_substitution ts j k)" for j k
    using scan_substitution_le [of ts j k] by (cases "scan_substitution ts j k") simp
  show ?case
  proof (cases m)
    case 0
    have "i \<le> fst (scan_substitution (t # ts) i n)"
      using scan_substitution_le [of "t # ts" i n] by (cases "scan_substitution (t # ts) i n") simp
    then show ?thesis using 0 by simp
  next
    case (Suc m')
    then show ?thesis using 2 by (simp add: Let_def)
  qed
qed simp

lemma redirects_inside_take: "redirects_inside (take m ts) \<Longrightarrow> redirects_inside ts"
proof (induction ts arbitrary: m)
  case (Cons t ts)
  show ?case
  proof (cases m)
    case (Suc k)
    let ?n = "fst (scan_substitution (take k ts) 0 0)"
    have "set (take ?n (take k ts)) \<subseteq> set (take (fst (scan_substitution ts 0 0)) ts)"
      unfolding take_take using scan_substitution_take [of k ts 0 0] by (intro set_take_subset_set_take) simp
    then show ?thesis using Cons.IH [of k] Cons.prems Suc redirects_output_mono by auto
  qed (use Cons in simp)
qed simp

text \<open>
  Without such a symbol the first call built inside a substitution, whose descriptors
  \<^verbatim>\<open>parse_command_substitution\<close> looks at, has its standard output unchanged.
\<close>

definition plain_last :: "shell \<Rightarrow> bool" where
  "plain_last st \<longleftrightarrow>
     (\<exists>l c. last_parsed_command_call_substitution st = Some l \<and> read_call l st = Inr c \<and> cc_stdout c = 1)"

lemma plain_last_same_globals: "same_globals st st' \<Longrightarrow> plain_last st' = plain_last st"
  unfolding same_globals_iff by (elim exE) (simp add: plain_last_def read_call_def)

lemma plain_last_update:
  assumes "plain_last st" and "update_call a f st = Inr st'" and "\<And>c. cc_stdout (f c) = cc_stdout c"
  shows "plain_last st'"
proof -
  obtain l c where l: "last_parsed_command_call_substitution st = Some l" "read_call l st = Inr c" "cc_stdout c = 1"
    using assms(1) by (auto simp: plain_last_def)
  obtain d where d: "read_call a st = Inr d" "st' = st\<lparr>call_heap := (call_heap st)[a := Some (f d)]\<rparr>"
    using assms(2) by (auto simp: update_call_def bindU_def split: sum.splits)
  have "read_call l st' = Inr (if l = a then f c else c)"
    using l(2) d by (auto simp: read_call_def nth_list_update split: if_splits option.splits)
  then show ?thesis using l assms(3) d(2) by (auto simp: plain_last_def)
qed

lemma finish_call_plain:
  assumes "finish_call True inpipe s args b cmd st = Inr (Some a, cmd', st')"
    and "last_parsed_command_call_substitution st = None \<and> b_fds b ! 1 = -1 \<or> plain_last st"
  shows "plain_last st'"
proof -
  obtain t where run: "sanitize_command_string (Some s) = Inr (Some t)"
    using assms(1) by (auto simp: finish_call_def bindU_def split: if_splits sum.splits option.splits)
  define c where "c = built_call b args (remove_extra_pipes t)"
  have st': "st' = st\<lparr>call_heap := call_heap st @ [Some c],
      last_parsed_command_call_substitution :=
        (if last_parsed_command_call_substitution st = None then Some (length (call_heap st))
         else last_parsed_command_call_substitution st)\<rparr>"
    using assms(1) run
    by (auto simp: finish_call_def build_command_built c_def Let_def split: if_split_asm)
  have "b_fds b ! 1 = -1 \<Longrightarrow> cc_stdout c = 1" by (simp add: c_def built_call_def)
  then show ?thesis
    using assms(2)
    by (auto simp: plain_last_def st' read_call_def nth_append split: if_splits option.splits)
qed

lemma parse_redirections_output:
  assumes "parse_redirections OS fds symbol path st = (r, fds', st')" and "symbol \<notin> set output_symbols"
  shows "fds' ! 1 = fds ! 1"
  using assms by (auto simp: parse_redirections_def output_symbols_def redirect_def Let_def
      split: prod.splits if_splits)

lemma parse_substitution_success:
  assumes "parse_command_substitution OS cmd b ts st = Inr (Some r, b', cmd', st')"
  shows "b_fds b' = b_fds b" and "last_parsed_command_call_substitution st' = None"
proof -
  obtain i pos q call cmd1 st1 where
    "finish_substitution b i pos q call cmd1 st1 = Inr (Some r, b', cmd', st')"
    using assms
    by (auto simp: parse_command_substitution.simps Let_def elim!: bindU_InrE split: if_splits prod.splits option.splits)
  then show "b_fds b' = b_fds b" "last_parsed_command_call_substitution st' = None"
    by (auto simp: finish_substitution_def update_dependencies_def bindU_def
        split: option.splits sum.splits if_splits)
qed

lemma link_pipelines_last:
  assumes "link_pipelines OS cmd b a st = Inr (status, cmd', b', st')" and "status \<noteq> -1" and "plain_last st"
  shows "plain_last st'"
proof -
  obtain rd wr st1 where p: "sys_pipe OS st = (Some (rd, wr), st1)"
    using assms(1,2) by (auto simp: link_pipelines_def split: prod.splits option.splits)
  define f where "f c = c\<lparr>cc_reading_pipes := add_pipe_pipe_info (cc_reading_pipes c) (open_pipes_size cmd),
      cc_stdin := rd\<rparr>" for c :: command_call
  have "update_call a f st1 = Inr st'"
    using assms(1,2) p by (auto simp: link_pipelines_def f_def [abs_def] bindU_def Let_def split: sum.splits)
  moreover have "cc_stdout (f c) = cc_stdout c" for c by (simp add: f_def)
  moreover have "plain_last st1" using plain_last_same_globals [OF same_globals_sys_pipe [OF p]] assms(3) by simp
  ultimately show ?thesis using plain_last_update by blast
qed

text \<open>The three branches of the loop over the tokens that do something, without their tests.\<close>

lemma parse_tokens_symbol:
  assumes "contains_string redirection_caret_symbols t" and "\<not> (rest = [] \<or> index = 0)"
    and "\<not> contains_string redirection_caret_symbols (hd rest)"
  shows "t = ''<('' \<Longrightarrow> parse_tokens OS inside index args (t # rest) b cmd st =
      bindU (parse_command_substitution OS cmd b rest st) (\<lambda>(r, b, cmd, st).
        case r of
          None \<Rightarrow> Inr (False, args, b, cmd, parse_error '' near (null)'' st)
        | Some (i, dev) \<Rightarrow>
            parse_tokens OS inside (index + i + 2) (args @ [dev]) (drop (i + 1) rest) b cmd st)"
    and "t = ''|'' \<Longrightarrow> b_fds b ! 1 = -1 \<Longrightarrow> join_strings rest '' '' = Inr joined \<Longrightarrow>
      parse_tokens OS inside index args (t # rest) b cmd st =
      bindU (parse_command_call OS cmd (cstr_text joined) inside True st) (\<lambda>(call, cmd, st).
        case call of
          None \<Rightarrow> Inr (False, args, b, cmd, parse_error ('' near '' @ ''|'') st)
        | Some a \<Rightarrow>
            bindU (link_pipelines OS cmd b a st) (\<lambda>(status, cmd, b, st).
              if status = -1
              then Inr (False, args, b, cmd, parse_error ('' near '' @ ''|'') st)
              else let cmd = (if last_parsed_command_call st \<noteq> Some a \<or> inside
                              then add_call_at_the_end cmd (Some a) else cmd)
                   in Inr (True, args, b, cmd, st)))"
    and "t \<noteq> ''<('' \<Longrightarrow> t \<noteq> ''|'' \<Longrightarrow>
      parse_redirections OS (b_fds b) t (hd rest) st = (status, fds', st') \<Longrightarrow>
      parse_tokens OS inside index args (t # rest) b cmd st =
      (if status < 0 then Inr (False, args, b\<lparr>b_fds := fds'\<rparr>, cmd, st')
       else parse_tokens OS inside (index + 2) args (tl rest) (b\<lparr>b_fds := fds'\<rparr>) cmd st')"
  using assms c_free_join [of rest "'' ''" joined] by (simp_all add: parse_tokens.simps(2))

lemma parse_plain:
  "parse_command_call OS cmd s inside inpipe st = Inr (Some a, cmd', st') \<Longrightarrow> inside \<Longrightarrow>
     last_parsed_command_call_substitution st = None \<Longrightarrow> \<not> redirects_output (words s '' '') \<Longrightarrow> plain_last st'"
  "parse_tokens OS inside index args ts b cmd st = Inr (True, args', b', cmd', st') \<Longrightarrow> inside \<Longrightarrow>
     last_parsed_command_call_substitution st = None \<Longrightarrow> \<not> redirects_output ts \<Longrightarrow> are_words ts \<Longrightarrow>
     b_fds b ! 1 = -1 \<Longrightarrow>
     last_parsed_command_call_substitution st' = None \<and> b_fds b' ! 1 = -1 \<or> plain_last st'"
  "True"
proof (induction OS cmd s inside inpipe st and OS inside index args ts b cmd st and OS cmd b ts st
    arbitrary: a cmd' st' and args' b' cmd' st'
    rule: parse_command_call_parse_tokens_parse_command_substitution.induct)
  case (1 OS cmd s inside inpipe st)
  obtain tokens where t: "split_string s '' '' = Inr (Some tokens)"
    using "1.prems"(1) by (auto simp: parse_command_call.simps bindU_def split: sum.splits option.splits)
  obtain args b cmd1 st1
    where p: "parse_tokens OS inside 0 [] tokens new_command_call_builder cmd st = Inr (True, args, b, cmd1, st1)"
      and f: "finish_call inside inpipe s args b cmd1 st1 = Inr (Some a, cmd', st')"
    using "1.prems"(1) t
    by (auto simp: parse_command_call.simps elim!: bindU_InrE split: if_splits)
  note w = split_word(1) [OF t]
  have "are_words tokens" using words_single_mem w by (auto simp: are_words_def)
  moreover have "b_fds new_command_call_builder ! 1 = -1" by (simp add: new_command_call_builder_def)
  ultimately have "last_parsed_command_call_substitution st1 = None \<and> b_fds b ! 1 = -1 \<or> plain_last st1"
    using "1.IH" [OF t refl p "1.prems"(2,3)] "1.prems"(4) w by simp
  then show ?case using finish_call_plain f "1.prems"(2) by simp
next
  case (2 OS inside index args b cmd st)
  then show ?case by (simp add: parse_tokens.simps)
next
  case (3 OS inside index args t rest b cmd st)
  note run = "3.prems"(1) and un = "3.prems"(6)
  have sub: "\<not> redirects_output us" if "set us \<subseteq> set rest" for us
    using "3.prems"(4) redirects_output_mono [of us "t # rest"] that by auto
  have words: "are_words us" if "set us \<subseteq> set rest" for us
    using are_words_mono [OF "3.prems"(5)] that by auto
  show ?case
  proof (cases "contains_string redirection_caret_symbols t")
    case False
    then show ?thesis
      using "3.IH"(1) [OF _ _ "3.prems"(2,3) sub [OF order_refl] words [OF order_refl] un] run
      by (simp add: parse_tokens.simps)
  next
    case sym: True
    have rest: "\<not> (rest = [] \<or> index = 0)" and hd: "\<not> contains_string redirection_caret_symbols (hd rest)"
      using run sym by (auto simp: parse_tokens.simps split: if_splits)
    have nsym: "\<not> \<not> contains_string redirection_caret_symbols t" using sym by simp
    note eqs = parse_tokens_symbol [OF sym rest hd]
    consider (subst) "t = ''<(''" | (pipe) "t \<noteq> ''<(''" "t = ''|''" | (redir) "t \<noteq> ''<(''" "t \<noteq> ''|''" by blast
    then show ?thesis
    proof cases
      case subst
      obtain i dev b1 cmd1 st1
        where p: "parse_command_substitution OS cmd b rest st = Inr (Some (i, dev), b1, cmd1, st1)"
          and r: "parse_tokens OS inside (index + i + 2) (args @ [dev]) (drop (i + 1) rest) b1 cmd1 st1 =
            Inr (True, args', b', cmd', st')"
        using run unfolding eqs(1) [OF subst]
        by (auto elim!: bindU_InrE split: option.splits)
      have d: "set (drop (i + 1) rest) \<subseteq> set rest" by (rule set_drop_subset)
      show ?thesis
        using "3.IH"(3) [OF nsym rest hd subst p refl refl refl refl refl r "3.prems"(2) _ sub [OF d] words [OF d]]
          parse_substitution_success [OF p] un by simp
    next
      case pipe
      have nun: "\<not> b_fds b ! 1 \<noteq> -1" using un by simp
      obtain joined where j: "join_strings rest '' '' = Inr joined" by (simp add: join_strings_intercalate)
      obtain a cmd1 st1 status cmd2
        where p: "parse_command_call OS cmd (cstr_text joined) inside True st = Inr (Some a, cmd1, st1)"
          and l: "link_pipelines OS cmd1 b a st1 = Inr (status, cmd2, b', st')" "status \<noteq> -1"
        using run unfolding eqs(2) [OF pipe(2) un j]
        by (auto elim!: bindU_InrE split: option.splits if_splits)
      have "\<not> redirects_output (words (cstr_text joined) '' '')"
        using words_join [OF words [OF order_refl] j] sub by simp
      then have "plain_last st1" using "3.IH"(4) [OF nsym rest hd pipe nun j p "3.prems"(2,3)] by simp
      then show ?thesis using link_pipelines_last [OF l] by simp
    next
      case redir
      obtain status fds1 st1 where pr: "parse_redirections OS (b_fds b) t (hd rest) st = (status, fds1, st1)"
        by (metis prod_cases3)
      have s: "\<not> status < 0"
        and r: "parse_tokens OS inside (index + 2) args (tl rest) (b\<lparr>b_fds := fds1\<rparr>) cmd st1 = Inr (True, args', b', cmd', st')"
        using run unfolding eqs(3) [OF redir pr] by (auto split: if_splits)
      have pr_sub: "last_parsed_command_call_substitution st1 = last_parsed_command_call_substitution st"
        using same_globals_parser [OF conjunct2 [OF parse_redirections_frame [OF pr]]] by blast
      have "t \<notin> set output_symbols" using "3.prems"(4) by (simp add: redirects_output_def)
      then have "fds1 ! 1 = -1" using parse_redirections_output [OF pr] un by simp
      moreover have d: "set (tl rest) \<subseteq> set rest" by (cases rest) auto
      ultimately show ?thesis
        using "3.IH"(5) [OF nsym rest hd redir pr [symmetric] refl refl refl s r "3.prems"(2) _ sub [OF d] words [OF d]]
          "3.prems"(3) pr_sub by simp
    qed
  qed
qed simp_all

lemma bindU_eq_Inl: "bindU m f = Inl u \<longleftrightarrow> m = Inl u \<or> (\<exists>x. m = Inr x \<and> f x = Inl u)"
  by (cases m) simp_all

lemma finish_substitution_plain:
  assumes "finish_substitution b i pos q call cmd st = Inl u" and "call \<noteq> None" and "plain_last st"
  shows False
proof -
  obtain l c where l: "last_parsed_command_call_substitution st = Some l" "read_call l st = Inr c" "cc_stdout c = 1"
    using assms(3) by (auto simp: plain_last_def)
  have "call_heap st ! l \<noteq> None" "l < length (call_heap st)"
    using l(2) by (auto simp: read_call_def split: if_splits option.splits)
  then show ?thesis
    using assms(1,2) l
    by (auto simp: finish_substitution_def update_dependencies_def update_call_def read_call_def)
qed

text \<open>So only a substitution that redirects its output makes the parser misbehave.\<close>

lemma parse_faults:
  "parse_command_call OS cmd s inside inpipe st = Inl u \<Longrightarrow> ready inside st \<Longrightarrow> redirects_inside (words s '' '')"
  "parse_tokens OS inside index args ts b cmd st = Inl u \<Longrightarrow> ready inside st \<Longrightarrow>
     b_wired (cmd_open_pipes cmd) args b \<Longrightarrow> b_writing_pipes b = Some [] \<Longrightarrow> are_words ts \<Longrightarrow> redirects_inside ts"
  "parse_command_substitution OS cmd b ts st = Inl u \<Longrightarrow> ts = [] \<or> hd ts \<noteq> '')'' \<Longrightarrow>
     are_words ts \<Longrightarrow> redirects_inside (''<('' # ts)"
proof (induction OS cmd s inside inpipe st and OS inside index args ts b cmd st and OS cmd b ts st
    arbitrary: u and u and u
    rule: parse_command_call_parse_tokens_parse_command_substitution.induct)
  case (1 OS cmd s inside inpipe st)
  have nb: "b_wired (cmd_open_pipes cmd) [] new_command_call_builder"
    "b_writing_pipes new_command_call_builder = Some []"
    by (simp_all add: b_wired_def new_command_call_builder_def new_pipe_info_def
        writes_at_most_one_def reads_as_arguments_def)
  obtain tokens where t: "split_string s '' '' = Inr (Some tokens)"
    using "1.prems"(1) by (cases "words s '' '' = []") (simp_all add: parse_command_call.simps split_string_words)
  note w = split_word [OF t]
  have aw: "are_words tokens" using words_single_mem w by (auto simp: are_words_def)
  let ?p = "parse_tokens OS inside 0 [] tokens new_command_call_builder cmd st"
  show ?case
  proof (cases ?p)
    case (Inl u')
    then show ?thesis using "1.IH" [OF t refl Inl "1.prems"(2) nb aw] w by simp
  next
    case (Inr x)
    obtain ok args b cmd1 st1 where x: "x = (ok, args, b, cmd1, st1)" by (cases x)
    have f: "finish_call inside inpipe s args b cmd1 st1 = Inl u" "ok"
      using "1.prems"(1) t Inr by (auto simp: parse_command_call.simps x split: if_splits)
    obtain new ps cs where fr: "frame inside cmd st cmd1 st1 new ps cs"
      and td: "tokens_done inside cmd st new_command_call_builder args b cmd1 st1 new ps cs"
      using yields_InrD [OF parse_tree(2) [OF "1.prems"(2) nb aw] Inr] f(2) by (auto simp: x)
    show ?thesis using finish_call_step [OF fr td w(3), of inpipe] f(1) by simp
  qed
next
  case (2 OS inside index args b cmd st)
  then show ?case by (simp add: parse_tokens.simps)
next
  case (3 OS inside index args t rest b cmd st)
  note run = "3.prems"(1) and rd = "3.prems"(2) and bw = "3.prems"(3,4)
  have words: "are_words us" if "set us \<subseteq> set rest" for us
    using are_words_mono [OF "3.prems"(5)] that by auto
  show ?case
  proof (cases "contains_string redirection_caret_symbols t")
    case False
    have "b_wired (cmd_open_pipes cmd) (args @ [t]) b"
      using wired_mono(4) [OF bw(1), of "args @ [t]" "[]"] by auto
    then show ?thesis
      using "3.IH"(1) [OF False _ rd _ bw(2) words [OF order_refl]] run False by (simp add: parse_tokens.simps)
  next
    case sym: True
    have rest: "\<not> (rest = [] \<or> index = 0)" and hd: "\<not> contains_string redirection_caret_symbols (hd rest)"
      using run sym by (auto simp: parse_tokens.simps split: if_splits)
    have nsym: "\<not> \<not> contains_string redirection_caret_symbols t" using sym by simp
    note eqs = parse_tokens_symbol [OF sym rest hd]
    consider (subst) "t = ''<(''" | (pipe) "t \<noteq> ''<(''" "t = ''|''" | (redir) "t \<noteq> ''<(''" "t \<noteq> ''|''" by blast
    then show ?thesis
    proof cases
      case subst
      have nend: "rest = [] \<or> hd rest \<noteq> '')''" using hd by (auto simp: redirection_caret_symbols_def)
      show ?thesis
      proof (cases "parse_command_substitution OS cmd b rest st")
        case (Inl u')
        then show ?thesis using "3.IH"(2) [OF nsym rest hd subst Inl nend words [OF order_refl]] subst by simp
      next
        case (Inr x)
        obtain r b1 cmd1 st1 where x: "x = (r, b1, cmd1, st1)" by (cases x)
        obtain i dev where r: "r = Some (i, dev)"
          and p: "parse_tokens OS inside (index + i + 2) (args @ [dev]) (drop (i + 1) rest) b1 cmd1 st1 = Inl u"
          using run unfolding eqs(1) [OF subst] Inr x by (auto split: option.splits)
        obtain n1 p1 c1 where f1: "frame True cmd st cmd1 st1 n1 p1 c1"
          and ok: "tokens_done True cmd st b (args @ [dev]) b1 cmd1 st1 n1 p1 c1"
            "last_parsed_command_call_substitution st1 = None" "b_writing_pipes b1 = Some []"
          using yields_InrD [OF parse_tree(3) [OF nend bw, of OS st] Inr] by (auto simp: x r)
        have rd1: "ready inside st1" using f1 ok(2) rd by (simp add: frame_def ready_def)
        have d: "set (drop (i + 1) rest) \<subseteq> set rest" by (rule set_drop_subset)
        have "redirects_inside (drop (i + 1) rest)"
          by (rule "3.IH"(3) [OF nsym rest hd subst Inr x [symmetric] refl refl r refl p rd1 _ ok(3) words [OF d]])
            (use ok(1) in \<open>simp add: tokens_done_def\<close>)
        from redirects_inside_drop [OF this] show ?thesis by simp
      qed
    next
      case pipe
      have un: "b_fds b ! 1 = -1" using run sym rest hd pipe by (auto simp: parse_tokens.simps split: if_splits)
      then have nun: "\<not> b_fds b ! 1 \<noteq> -1" by simp
      obtain joined where j: "join_strings rest '' '' = Inr joined" by (simp add: join_strings_intercalate)
      have wj: "words (cstr_text joined) '' '' = rest" using words [OF order_refl] j by (rule words_join)
      show ?thesis
      proof (cases "parse_command_call OS cmd (cstr_text joined) inside True st")
        case (Inl u')
        then show ?thesis using "3.IH"(4) [OF nsym rest hd pipe nun j Inl rd] wj by simp
      next
        case (Inr x)
        obtain r cmd1 st1 where x: "x = (r, cmd1, st1)" by (cases x)
        obtain a where r: "r = Some a" and l: "link_pipelines OS cmd1 b a st1 = Inl u"
          using run unfolding eqs(2) [OF pipe(2) un j] Inr x
          by (auto simp: bindU_eq_Inl Let_def split: option.splits if_splits)
        obtain n1 p1 c1 where "frame inside cmd st cmd1 st1 n1 p1 c1" "call_done inside cmd st a cmd1 st1 n1 p1 c1"
          using yields_InrD [OF parse_tree(1) [OF rd] Inr] by (auto simp: x r)
        then show ?thesis using link_step [OF _ _ bw, of inside st cmd1 st1 n1 p1 c1 a OS] l by simp
      qed
    next
      case redir
      obtain status fds1 st1 where pr: "parse_redirections OS (b_fds b) t (hd rest) st = (status, fds1, st1)"
        by (metis prod_cases3)
      note pf = parse_redirections_frame [OF pr]
      have s: "\<not> status < 0"
        and r: "parse_tokens OS inside (index + 2) args (tl rest) (b\<lparr>b_fds := fds1\<rparr>) cmd st1 = Inl u"
        using run unfolding eqs(3) [OF redir pr] by (auto split: if_splits)
      have d: "set (tl rest) \<subseteq> set rest" by (cases rest) auto
      have "redirects_inside (tl rest)"
        by (rule "3.IH"(5) [OF nsym rest hd redir pr [symmetric] refl refl refl s r _ _ _ words [OF d]])
          (use pf rd ready_same_globals [OF conjunct2 [OF pf]] bw in
            \<open>simp_all add: b_wired_def writes_at_most_one_def\<close>)
      then show ?thesis using redirects_inside_drop [of 1 rest] by (simp add: drop_Suc)
    qed
  qed
next
  case (4 OS cmd b ts st)
  define st0 where "st0 = st\<lparr>last_parsed_command_call_substitution := None\<rparr>"
  obtain i n where sc: "scan_substitution ts 0 0 = (i, n)" by fastforce
  have i: "\<not> (i = length ts \<or> n \<noteq> 0)"
    using "4.prems"(1) sc by (auto simp: parse_command_substitution.simps Let_def split: if_splits)
  obtain q st1 where p: "sys_pipe OS st0 = (Some q, st1)"
    using "4.prems"(1) sc i by (auto simp: parse_command_substitution.simps st0_def Let_def split: prod.splits option.splits)
  obtain joined where j: "join_strings (take i ts) '' '' = Inr joined" by (simp add: join_strings_intercalate)
  have il: "i < length ts" using i scan_substitution_le [OF sc] by simp
  have "i \<noteq> 0"
  proof
    assume "i = 0"
    then have "ts ! 0 = '')''" using scan_substitution_end [OF sc] il by simp
    then show False using "4.prems"(2) il by (cases ts) auto
  qed
  then have cf: "c_free joined = Inr ()" using il j by (intro c_free_join [of "take i ts"]) auto
  have wj: "words (cstr_text joined) '' '' = take i ts"
    using are_words_mono [OF "4.prems"(3) set_take_subset] j by (rule words_join)
  have rd1: "ready True st1" using same_globals_parser [OF same_globals_sys_pipe [OF p], of st st] by (simp add: ready_def st0_def)
  have m: "parse_command_substitution OS cmd b ts st =
      bindU (parse_command_call OS (add_pipe cmd q) (cstr_text joined) True False st1)
        (\<lambda>(call, cmd', st). finish_substitution b i (open_pipes_size cmd) q call cmd' st)"
    using i unfolding parse_command_substitution.simps Let_def st0_def [symmetric] sc prod.case p option.case
    by (simp add: j cf)
  show ?case
  proof (cases "parse_command_call OS (add_pipe cmd q) (cstr_text joined) True False st1")
    case (Inl u')
    have "redirects_inside (words (cstr_text joined) '' '')"
      by (rule "4.IH" [OF st0_def refl sc [symmetric] i refl p [symmetric] refl refl refl j Inl rd1])
    then have "redirects_inside (take i ts)" unfolding wj .
    from redirects_inside_take [OF this] show ?thesis by simp
  next
    case (Inr x)
    obtain call cmd1 st2 where x: "x = (call, cmd1, st2)" by (cases x)
    have f: "finish_substitution b i (open_pipes_size cmd) q call cmd1 st2 = Inl u"
      using "4.prems"(1) unfolding m Inr x by simp
    obtain a where a: "call = Some a"
      using f by (cases call) (auto simp: finish_substitution_def split: option.splits)
    have "redirects_output (take i ts)"
    proof (rule ccontr)
      assume "\<not> redirects_output (take i ts)"
      then have "plain_last st2"
        using parse_plain(1) [OF Inr [unfolded x a]] wj rd1 by (simp add: ready_def)
      then show False using finish_substitution_plain [OF f] a by simp
    qed
    then show ?thesis using sc by simp
  qed
qed

definition allowed :: "string list \<Rightarrow> ub set" where
  "allowed ts = (if redirects_inside ts then {Use_After_Free} else {})"

lemma parse_call_tree:
  assumes "ready inside st"
  shows "yields (allowed (words s '' '')) (parse_command_call OS cmd s inside inpipe st)
       (\<lambda>(r, cmd', st'). \<exists>new ps cs. frame inside cmd st cmd' st' new ps cs \<and>
          (\<forall>a. r = Some a \<longrightarrow> call_done inside cmd st a cmd' st' new ps cs))"
proof (cases "parse_command_call OS cmd s inside inpipe st")
  case (Inl u)
  have "u = Use_After_Free" using parse_tree(1) [OF assms, of OS cmd s inpipe] Inl by simp
  then show ?thesis using parse_faults(1) [OF Inl assms] by (simp add: Inl allowed_def)
next
  case (Inr x)
  then show ?thesis using parse_tree(1) [OF assms, of OS cmd s inpipe] by simp
qed

end
