(* ===== verification/Pipeline.thy ===== *)
theory Pipeline
  imports Parse_Faults
begin

text \<open>
  The commands that \<^verbatim>\<open>parse_command\<close> returns and the lines of \<^verbatim>\<open>parse_read_line\<close>: the calls of a
  command with their pipes, the wiring of the calls, what the parser can do wrong, and the
  commands of a line.
\<close>

section \<open>Commands\<close>

definition live :: "shell \<Rightarrow> addr \<Rightarrow> bool" where
  "live st a \<longleftrightarrow> (\<exists>c. read_call a st = Inr c)"

lemma live_iff: "live st a \<longleftrightarrow> a < length (call_heap st) \<and> call_heap st ! a \<noteq> None"
  by (auto simp: live_def read_call_def split: option.splits)

lemma live_same_globals: "same_globals st st' \<Longrightarrow> live st' a = live st a"
  by (auto simp: same_globals_iff live_iff)

definition the_call :: "shell \<Rightarrow> addr \<Rightarrow> command_call" where
  "the_call st a = the (call_heap st ! a)"

lemma read_call_live: "live st a \<Longrightarrow> read_call a st = Inr (the_call st a)"
  by (auto simp: live_iff read_call_def the_call_def)

lemma same_globals_close_unpiped: "same_globals st (close_unpiped pipes fds st)"
proof (induction pipes fds st rule: close_unpiped.induct)
  case (2 pipes fd fds st)
  show ?case
    unfolding close_unpiped.simps
    by (rule same_globals_trans [OF _ "2.IH"]) (simp add: sys_close_def)
qed simp

lemma close_calls_live:
  "(\<forall>a \<in> set as. live st a) \<Longrightarrow> \<exists>st'. close_calls cmd as st = Inr st' \<and> same_globals st st'"
proof (induction as arbitrary: st)
  case (Cons a as)
  define st1 where "st1 = close_unpiped (cmd_open_pipes cmd)
     (snd (add_set (snd (add_set (snd (add_set [-1, -1, -1] (cc_stdin (the_call st a))))
        (cc_stdout (the_call st a)))) (cc_stderr (the_call st a)))) st"
  have g: "same_globals st st1" unfolding st1_def by (rule same_globals_close_unpiped)
  have "close_unused_file_descriptors_helper cmd a st = Inr st1"
    using Cons.prems read_call_live [of st a]
    by (simp add: close_unused_file_descriptors_helper_def st1_def Let_def)
  moreover obtain st2 where "close_calls cmd as st1 = Inr st2" "same_globals st1 st2"
    using Cons.IH [of st1] Cons.prems live_same_globals [OF g] by auto
  ultimately show ?case using same_globals_trans [OF g] by auto
qed simp

lemma same_globals_close_pipes: "same_globals st (close_pipes pipes st)"
proof (induction pipes st rule: close_pipes.induct)
  case (2 rd wt pipes st)
  have "same_globals st (sys_close wt (sys_close rd st))"
    by (rule same_globals_trans [of _ "sys_close rd st"]) (simp_all add: sys_close_def)
  from same_globals_trans [OF this "2.IH"] show ?case by simp
qed simp

text \<open>Freeing distinct live calls is safe, and frees exactly these.\<close>

lemma destroy_calls_live:
  "(\<forall>a \<in> set as. live st a) \<Longrightarrow> distinct as \<Longrightarrow>
     destroy_calls as st =
       Inr (st\<lparr>call_heap := fold (\<lambda>a h. h[a := None]) as (call_heap st)\<rparr>)"
proof (induction as arbitrary: st)
  case (Cons a as)
  define st1 where "st1 = st\<lparr>call_heap := (call_heap st)[a := None]\<rparr>"
  have "destroy_command_call (Some a) st = Inr st1"
    using Cons.prems read_call_live [of st a] by (simp add: destroy_command_call_def st1_def)
  moreover have "\<forall>x \<in> set as. live st1 x"
    using Cons.prems by (auto simp: live_iff st1_def nth_list_update)
  ultimately show ?case using Cons.IH [of st1] Cons.prems by (simp add: st1_def)
qed simp

lemma fold_free_nth:
  "length (fold (\<lambda>a h. h[a := None]) as h) = length h"
  "i < length h \<Longrightarrow> fold (\<lambda>a h. h[a := None]) as h ! i = (if i \<in> set as then None else h ! i)"
  by (induction as arbitrary: h) (auto simp: nth_list_update)

text \<open>
  The tree a command is: its calls are live and listed once, they are one more than its
  pipes, every pipe has one writer and one reader, and the calls hold them.
\<close>

definition command_tree :: "shell \<Rightarrow> command \<Rightarrow> bool" where
  "command_tree st cmd \<longleftrightarrow>
     distinct (cmd_calls cmd) \<and> (\<forall>a \<in> set (cmd_calls cmd). live st a) \<and>
     command_call_count cmd = open_pipes_size cmd + 1 \<and>
     all_writes (map (the_call st) (cmd_calls cmd)) = mset [0..<open_pipes_size cmd] \<and>
     all_reads (map (the_call st) (cmd_calls cmd)) = mset [0..<open_pipes_size cmd] \<and>
     (\<forall>a \<in> set (cmd_calls cmd). wired (cmd_open_pipes cmd) (the_call st a))"

lemma all_mset:
  "mset as = mset bs \<Longrightarrow> all_writes (map f as) = all_writes (map f bs)"
  "mset as = mset bs \<Longrightarrow> all_reads (map f as) = all_reads (map f bs)"
  unfolding all_writes_def all_reads_def sum_mset_sum_list [symmetric] mset_map by simp_all

lemma extends_calls:
  assumes "extends_to cmd st cmd' st' new ps cs"
  shows "map (the_call st') (fresh st st') = cs" and "a \<in> set (fresh st st') \<Longrightarrow> live st' a"
proof -
  have h: "call_heap st' = call_heap st @ map Some cs" using assms by (simp add: extends_to_def)
  show "map (the_call st') (fresh st st') = cs"
    by (rule nth_equalityI) (simp_all add: fresh_def the_call_def h)
  show "live st' a" if "a \<in> set (fresh st st')"
    using that by (auto simp: live_iff fresh_def h nth_append)
qed

lemma parse_command_error_live:
  assumes "\<forall>a \<in> set (cmd_calls cmd). live st a" and "distinct (cmd_calls cmd)"
  shows "\<exists>st'. parse_command_error cmd st = Inr (None, st') \<and>
           same_globals (st\<lparr>call_heap := fold (\<lambda>a h. h[a := None]) (cmd_calls cmd) (call_heap st)\<rparr>) st'"
proof -
  obtain st1 where c: "close_calls cmd (cmd_calls cmd) st = Inr st1" and g1: "same_globals st st1"
    using close_calls_live [OF assms(1)] by blast
  define st2 where "st2 = close_pipes (cmd_open_pipes cmd) st1"
  have g2: "same_globals st st2"
    unfolding st2_def by (rule same_globals_trans [OF g1 same_globals_close_pipes])
  have "\<forall>a \<in> set (cmd_calls cmd). live st2 a" using assms(1) live_same_globals [OF g2] by simp
  note d = destroy_calls_live [OF this assms(2)]
  have "parse_command_error cmd st =
      Inr (None, st2\<lparr>call_heap := fold (\<lambda>a h. h[a := None]) (cmd_calls cmd) (call_heap st2)\<rparr>)"
    using c d by (simp add: parse_command_error_def close_unused_file_descriptors_def
        destroy_command_def st2_def Let_def)
  moreover have "same_globals (st\<lparr>call_heap := fold (\<lambda>a h. h[a := None]) (cmd_calls cmd) (call_heap st)\<rparr>)
      (st2\<lparr>call_heap := fold (\<lambda>a h. h[a := None]) (cmd_calls cmd) (call_heap st2)\<rparr>)"
  proof -
    obtain h where "st2 = st\<lparr>trace := h\<rparr>" using g2 by (auto simp: same_globals_iff)
    then show ?thesis unfolding same_globals_iff by (intro exI [of _ h]) simp
  qed
  ultimately show ?thesis by blast
qed

text \<open>
  What \<^verbatim>\<open>parse_command\<close> returns on every string, kernel and state. Older calls are untouched.
\<close>

lemma parse_command_tree:
  "yields (allowed (words s '' '')) (parse_command OS s st)
     (\<lambda>(r, st'). parser_only st st' \<and>
        (\<forall>a < length (call_heap st). a < length (call_heap st') \<and> call_heap st' ! a = call_heap st ! a) \<and>
        (\<forall>cmd. r = Some cmd \<longrightarrow> command_tree st' cmd \<and>
           mset (cmd_calls cmd) = mset (fresh st st') \<and>
           cmd_string cmd = Some (strip (CHR '' '') s) \<and> \<not> cmd_background cmd))"
    (is "yields _ _ ?Q")
proof (cases "s = [] \<or> set s \<subseteq> {CHR '' ''}")
  case True
  then have "new_empty_command (Some s) = Inr None"
    by (auto simp: new_empty_command_def is_only_composed_of_single)
  then show ?thesis by (simp add: parse_command_def)
next
  case False
  define cmd0 where "cmd0 = \<lparr>cmd_string = Some (strip (CHR '' '') s), cmd_calls = [],
     cmd_background = False, cmd_open_pipes = []\<rparr>"
  define st0 where "st0 = st\<lparr>last_parsed_command_call := None\<rparr>"
  have n: "new_empty_command (Some s) = Inr (Some \<lparr>cmd_string = None, cmd_calls = [],
     cmd_background = False, cmd_open_pipes = []\<rparr>)"
    using False by (simp add: new_empty_command_def is_only_composed_of_single)
  have t: "sanitize_command_string (Some s) = Inr (Some (strip (CHR '' '') s))"
    using False by (simp add: sanitize_command_string_def trim_spaces_eq)
  have m: "parse_command OS s st =
    bindU (parse_command_call OS cmd0 s False False st0) (\<lambda>(call, cmd, st).
       case call of
         None \<Rightarrow> parse_command_error (add_call_at_the_end cmd (last_parsed_command_call st)) st
       | Some a \<Rightarrow>
           if last_parsed_command_call st = None
           then parse_command_error (add_call_at_the_end cmd (Some a)) st
           else let cmd = (if last_parsed_command_call st \<noteq> Some a
                           then add_call_at_the_end cmd (Some a) else cmd);
                    cmd = add_call_at_the_beginning cmd (last_parsed_command_call st)
                in Inr (Some cmd, st\<lparr>last_parsed_command_call := None\<rparr>))"
    using n t by (simp add: parse_command_def cmd0_def st0_def)
  have rd: "ready False st0" by (simp add: ready_def st0_def)
  show ?thesis
    unfolding m
  proof (rule yields_bind [OF parse_call_tree [OF rd]], goal_cases)
    case (1 x)
    obtain r cmd1 st1 where x: "x = (r, cmd1, st1)" by (cases x)
    obtain new ps cs where fr: "frame False cmd0 st0 cmd1 st1 new ps cs"
      and cd: "\<And>a. r = Some a \<Longrightarrow> call_done False cmd0 st0 a cmd1 st1 new ps cs"
      using 1(2) by (auto simp: x)
    have ex: "extends_to cmd0 st0 cmd1 st1 new ps cs" using fr by (simp add: frame_def)
    then have cmd1: "cmd_calls cmd1 = new" "cmd_open_pipes cmd1 = ps"
      "cmd_string cmd1 = Some (strip (CHR '' '') s)" "\<not> cmd_background cmd1"
      and p01: "parser_only st0 st1" and h1: "call_heap st1 = call_heap st @ map Some cs"
      by (simp_all add: extends_to_def cmd0_def st0_def)
    have p1: "parser_only st st1" using p01 by (simp add: parser_only_iff st0_def)
    have f01: "fresh st0 st1 = fresh st st1" by (simp add: fresh_def st0_def)
    have live: "live st1 a" if "a \<in> set new \<or> a \<in> set (fresh st st1)" for a
      using that extends_calls(2) [OF ex, of a] ex by (auto simp: fresh_def extends_to_def st0_def)
    show ?case
    proof (cases r)
      case None
      define cmd2 where "cmd2 = add_call_at_the_end cmd1 (last_parsed_command_call st1)"
      have "\<forall>a \<in> set (cmd_calls cmd2). live st1 a" and d: "distinct (cmd_calls cmd2)"
        and old: "\<forall>a \<in> set (cmd_calls cmd2). length (call_heap st) \<le> a"
        using fr live ex cmd1 f01
        by (auto simp: cmd2_def add_call_at_the_end_def frame_def extends_to_def st0_def fresh_def
            split: option.splits)
      then obtain st2 where e: "parse_command_error cmd2 st1 = Inr (None, st2)" and
        g: "same_globals (st1\<lparr>call_heap := fold (\<lambda>a h. h[a := None]) (cmd_calls cmd2) (call_heap st1)\<rparr>) st2"
        using parse_command_error_live by blast
      have h2: "call_heap st2 = fold (\<lambda>a h. h[a := None]) (cmd_calls cmd2) (call_heap st1)"
        using g by (auto simp: same_globals_iff)
      have "parser_only st1 st2" using g by (auto simp: same_globals_iff parser_only_iff)
      moreover have "a < length (call_heap st2) \<and> call_heap st2 ! a = call_heap st ! a"
        if "a < length (call_heap st)" for a
        using that old by (auto simp: h2 h1 fold_free_nth nth_append)
      ultimately show ?thesis using e parser_only_trans [OF p1] None by (simp add: x cmd2_def)
    next
      case (Some a)
      note cd = cd [OF Some]
      obtain l where l: "l \<in> set (fresh st st1)" "last_parsed_command_call st1 = Some l"
        "mset (new @ (if l = a then [a] else [a, l])) = mset (fresh st st1)"
        using cd by (auto simp: call_done_def f01)
      define cmd2 where "cmd2 = add_call_at_the_beginning
        (if l \<noteq> a then add_call_at_the_end cmd1 (Some a) else cmd1) (Some l)"
      define st2 where "st2 = st1\<lparr>last_parsed_command_call := None\<rparr>"
      have c2: "mset (cmd_calls cmd2) = mset (fresh st st1)" "cmd_open_pipes cmd2 = ps"
        "cmd_string cmd2 = Some (strip (CHR '' '') s)" "\<not> cmd_background cmd2"
        using l(3) cmd1
        by (auto simp: cmd2_def add_call_at_the_beginning_def add_call_at_the_end_def add_mset_commute)
      have f2: "fresh st st2 = fresh st st1" by (simp add: fresh_def st2_def)
      have tc: "the_call st2 = the_call st1" by (simp add: the_call_def st2_def fun_eq_iff)
      have setc: "set (cmd_calls cmd2) = set (fresh st st1)" using c2(1) by (metis set_mset_mset)
      have maps: "map (the_call st1) (fresh st st1) = cs" using extends_calls(1) [OF ex] f01 by simp
      have "distinct (cmd_calls cmd2)"
        using c2(1) by (metis distinct_upt fresh_def mset_eq_imp_distinct_iff)
      moreover have "live st2 a" if "a \<in> set (cmd_calls cmd2)" for a
        using that setc live by (simp add: st2_def live_iff)
      moreover have "command_call_count cmd2 = open_pipes_size cmd2 + 1"
        using cd c2 maps by (metis call_done_def length_map mset_eq_length)
      moreover have "new_pipes cmd0 ps = mset [0..<open_pipes_size cmd2]"
        by (simp add: new_pipes_def cmd0_def c2(2))
      then have "all_writes (map (the_call st2) (cmd_calls cmd2)) = mset [0..<open_pipes_size cmd2]"
        "all_reads (map (the_call st2) (cmd_calls cmd2)) = mset [0..<open_pipes_size cmd2]"
        using cd all_mset [OF c2(1), of "the_call st1"] maps by (simp_all add: tc call_done_def)
      moreover have "wired (cmd_open_pipes cmd2) (the_call st2 b)" if "b \<in> set (cmd_calls cmd2)" for b
      proof -
        have "the_call st1 b \<in> set cs" using that setc maps by (metis image_eqI set_map)
        then show ?thesis using ex c2(2) cmd1(2) by (simp add: tc extends_to_def)
      qed
      ultimately have tree: "command_tree st2 cmd2" by (simp add: command_tree_def)
      have "parser_only st st2" using p1 by (simp add: parser_only_iff st2_def)
      moreover have "\<forall>a < length (call_heap st). a < length (call_heap st2) \<and> call_heap st2 ! a = call_heap st ! a"
        by (auto simp: st2_def h1 nth_append)
      ultimately show ?thesis
        using tree c2 f2 l(2) Some
        by (cases "l = a") (simp_all add: x cmd2_def st2_def)
    qed
  qed
qed

section \<open>Lines\<close>

text \<open>
  A command of a line: its tree, its text, and whether it runs in the background. The calls
  of the commands of a line are distinct.
\<close>

definition pieces_parsed ::
  "shell \<Rightarrow> shell \<Rightarrow> int \<Rightarrow> nat \<Rightarrow> string list \<Rightarrow> command option list \<Rightarrow> bool" where
  "pieces_parsed st st' last_background index pieces cs \<longleftrightarrow>
     length cs = length pieces \<and>
     (\<forall>k < length cs. \<forall>c. cs ! k = Some c \<longrightarrow>
        command_tree st' c \<and> cmd_string c = Some (strip (CHR '' '') (pieces ! k)) \<and>
        (cmd_background c \<longleftrightarrow> int (index + k) \<le> last_background)) \<and>
     distinct (concat (map cmd_calls (List.map_filter (\<lambda>c. c) cs))) \<and>
     set (concat (map cmd_calls (List.map_filter (\<lambda>c. c) cs))) \<subseteq> set (fresh st st')"

definition keeps_calls :: "shell \<Rightarrow> shell \<Rightarrow> bool" where
  "keeps_calls st st' \<longleftrightarrow>
     (\<forall>a < length (call_heap st). a < length (call_heap st') \<and> call_heap st' ! a = call_heap st ! a)"

lemma keeps_calls_refl [simp, intro]: "keeps_calls st st"
  by (simp add: keeps_calls_def)

lemma keeps_calls_trans: "keeps_calls a b \<Longrightarrow> keeps_calls b c \<Longrightarrow> keeps_calls a c"
  unfolding keeps_calls_def by metis

lemma keeps_calls_length: "keeps_calls st st' \<Longrightarrow> length (call_heap st) \<le> length (call_heap st')"
  unfolding keeps_calls_def by (metis leI less_irrefl)

lemma command_tree_keeps:
  assumes "command_tree st cmd" and "keeps_calls st st'"
  shows "command_tree st' cmd"
proof -
  have "live st' a \<and> the_call st' a = the_call st a" if "a \<in> set (cmd_calls cmd)" for a
    using that assms by (auto simp: command_tree_def keeps_calls_def live_iff the_call_def)
  then show ?thesis
    using assms(1) by (simp add: command_tree_def cong: map_cong)
qed

lemma command_tree_background [simp]:
  "command_tree st (cmd\<lparr>cmd_background := b\<rparr>) = command_tree st cmd"
  by (simp add: command_tree_def)

lemma map_filter_id [simp]:
  "List.map_filter (\<lambda>c. c) [] = []"
  "List.map_filter (\<lambda>c. c) (None # cs) = List.map_filter (\<lambda>c. c) cs"
  "List.map_filter (\<lambda>c. c) (Some c # cs) = c # List.map_filter (\<lambda>c. c) cs"
  by (simp_all add: List.map_filter_simps)

lemma pieces_parsed_None:
  "pieces_parsed st1 st2 lb (index + 1) pieces cs \<Longrightarrow> keeps_calls st st1 \<Longrightarrow>
     pieces_parsed st st2 lb index (piece # pieces) (None # cs)"
  using keeps_calls_length [of st st1]
  by (auto simp: pieces_parsed_def nth_Cons fresh_def split: nat.splits) 

lemma pieces_parsed_Some:
  assumes "pieces_parsed st1 st2 lb (index + 1) pieces cs" and "keeps_calls st st1"
    and "keeps_calls st1 st2"
    and "command_tree st1 c" and "mset (cmd_calls c) = mset (fresh st st1)"
    and "cmd_string c = Some (strip (CHR '' '') piece)"
    and "cmd_background c \<longleftrightarrow> int index \<le> lb"
  shows "pieces_parsed st st2 lb index (piece # pieces) (Some c # cs)"
proof -
  have sc: "set (cmd_calls c) = set (fresh st st1)" using assms(5) by (metis set_mset_mset)
  have "distinct (cmd_calls c)" using assms(4) by (simp add: command_tree_def)
  moreover have "set (cmd_calls c) \<inter> set (fresh st1 st2) = {}" by (auto simp: sc fresh_def)
  moreover have "set (fresh st st1) \<subseteq> set (fresh st st2)" "set (fresh st1 st2) \<subseteq> set (fresh st st2)"
    using keeps_calls_length [OF assms(2)] keeps_calls_length [OF assms(3)] by (auto simp: fresh_def)
  ultimately show ?thesis
    using assms(1,6,7) command_tree_keeps [OF assms(4,3)] sc
    by (auto simp: pieces_parsed_def nth_Cons split: nat.splits)
qed

text \<open>Parsing changes no global but the trace, the store, the parser's two and the exit code.\<close>

definition line_only :: "shell \<Rightarrow> shell \<Rightarrow> bool" where
  "line_only st st' \<longleftrightarrow> (\<exists>n. parser_only (st\<lparr>last_exit_code := n\<rparr>) st')"

lemma line_only_iff:
  "line_only st st' \<longleftrightarrow>
     job_table_ptr st' = job_table_ptr st \<and> job_table st' = job_table st \<and>
     job_table_size st' = job_table_size st \<and> should_exit st' = should_exit st \<and> lwd st' = lwd st"
  by (auto simp: line_only_def parser_only_iff)

lemma line_only_refl [simp, intro]: "line_only st st"
  by (simp add: line_only_iff)

lemma line_only_trans: "line_only a b \<Longrightarrow> line_only b c \<Longrightarrow> line_only a c"
  by (simp add: line_only_iff)

lemma line_only_parser: "parser_only st st' \<Longrightarrow> line_only st st'"
  by (simp add: line_only_iff parser_only_iff)

lemma line_only_exit_code [simp]:
  "line_only st (st'\<lparr>last_exit_code := n\<rparr>) = line_only st st'"
  "line_only (st\<lparr>last_exit_code := n\<rparr>) st' = line_only st st'"
  by (simp_all add: line_only_iff)

lemma parse_pieces_step:
  "yields (\<Union>p \<in> set pieces. allowed (words p '' '')) (parse_pieces OS lb index pieces abort st)
     (\<lambda>(cs, ab, tl, st'). pieces_parsed st st' lb index pieces cs \<and> keeps_calls st st' \<and>
        line_only st st' \<and> (abort \<longrightarrow> ab) \<and> (tl \<longrightarrow> pieces \<noteq> []) \<and>
        (\<not> ab \<longrightarrow> (\<forall>k < length cs. cs ! k = None \<longleftrightarrow> tl \<and> k = length cs - 1)) \<and>
        (ab \<or> tl \<longrightarrow> abort \<or> last_exit_code st' = 1) \<and>
        (\<not> ab \<and> \<not> tl \<longrightarrow> last_exit_code st' = last_exit_code st) \<and>
        (abort \<longrightarrow> last_exit_code st' = last_exit_code st))"
proof (induction OS lb index pieces abort st rule: parse_pieces.induct)
  case (1 OS lb index abort st)
  show ?case by (simp add: pieces_parsed_def)
next
  case (2 OS lb index piece pieces abort st)
  have sub: "(\<Union>p \<in> set pieces. allowed (words p '' '')) \<subseteq> (\<Union>p \<in> set (piece # pieces). allowed (words p '' ''))"
    by auto
  show ?case
  proof (cases abort)
    case True
    show ?thesis
      unfolding parse_pieces.simps if_P [OF True]
    proof (rule yields_bind [OF yields_widen [OF "2.IH"(1) [OF True] sub]], goal_cases)
      case (1 y)
      obtain cs ab tl st2 where y: "y = (cs, ab, tl, st2)" by (cases y)
      have "pieces_parsed st st2 lb index (piece # pieces) (None # cs)"
        using 1(2) by (intro pieces_parsed_None [OF _ keeps_calls_refl]) (simp add: y)
      then show ?case using 1(2) True by (simp add: y)
    qed
  next
    case False
    have one: "yields (\<Union>p \<in> set (piece # pieces). allowed (words p '' '')) (parse_command OS piece st)
       (\<lambda>(r, st'). parser_only st st' \<and> keeps_calls st st' \<and>
          (\<forall>cmd. r = Some cmd \<longrightarrow> command_tree st' cmd \<and> mset (cmd_calls cmd) = mset (fresh st st') \<and>
             cmd_string cmd = Some (strip (CHR '' '') piece) \<and> \<not> cmd_background cmd))"
      by (rule yields_widen [OF parse_command_tree [folded keeps_calls_def]]) auto
    show ?thesis
      unfolding parse_pieces.simps if_not_P [OF False]
    proof (rule yields_bind [OF one], goal_cases)
      case (1 x)
      obtain r st1 where x: "x = (r, st1)" by fastforce
      have p1: "parser_only st st1" "keeps_calls st st1" using 1(2) by (auto simp: x)
      show ?case
      proof (cases r)
        case None
        define st2 where "st2 = st1\<lparr>last_exit_code := 1\<rparr>"
        have k2: "keeps_calls st st2" using p1(2) by (simp add: keeps_calls_def st2_def)
        have l2: "line_only st st2" using line_only_parser [OF p1(1)] by (simp add: st2_def)
        show ?thesis
        proof (cases "pieces = []")
          case True
          have "pieces_parsed st2 st2 lb (index + 1) [] []" by (simp add: pieces_parsed_def)
          from pieces_parsed_None [OF this k2, of piece]
          show ?thesis using True None k2 l2 False by (simp add: x st2_def)
        next
          case ne: False
          note IH = "2.IH"(2) [OF False 1(1) x [symmetric] None st2_def ne]
          have "yields (\<Union>p \<in> set (piece # pieces). allowed (words p '' ''))
            (bindU (parse_pieces OS lb (index + 1) pieces True st2)
              (\<lambda>(cs, ab, tl, st). Inr (None # cs, ab, tl, st)))
            (\<lambda>(cs, ab, tl, st'). pieces_parsed st st' lb index (piece # pieces) cs \<and> keeps_calls st st' \<and>
                line_only st st' \<and> ab \<and> last_exit_code st' = 1)"
          proof (rule yields_bind [OF yields_widen [OF IH sub]], goal_cases)
            case (1 y)
            obtain cs ab tl st3 where y: "y = (cs, ab, tl, st3)" by (cases y)
            have "pieces_parsed st st3 lb index (piece # pieces) (None # cs)"
              using 1(2) by (intro pieces_parsed_None [OF _ k2]) (simp add: y)
            then show ?case
              using 1(2) keeps_calls_trans [OF k2] line_only_trans [OF l2] by (simp add: y st2_def)
          qed
          then show ?thesis
            unfolding x prod.case None option.case Let_def st2_def [symmetric] if_not_P [OF ne]
            by (rule yields_mono) (auto simp: False)
        qed
      next
        case (Some c)
        define c' where "c' = (if int index \<le> lb then c\<lparr>cmd_background := True\<rparr> else c)"
        have c: "command_tree st1 c'" "mset (cmd_calls c') = mset (fresh st st1)"
          "cmd_string c' = Some (strip (CHR '' '') piece)" "cmd_background c' \<longleftrightarrow> int index \<le> lb"
          using 1(2) Some by (auto simp: x c'_def)
        note IH = "2.IH"(3) [OF False 1(1) x [symmetric] Some c'_def]
        show ?thesis
          unfolding x prod.case Some option.case Let_def c'_def [symmetric]
        proof (rule yields_bind [OF yields_widen [OF IH sub]], goal_cases)
          case (1 y)
          obtain cs ab tl st2 where y: "y = (cs, ab, tl, st2)" by (cases y)
          have "pieces_parsed st st2 lb index (piece # pieces) (Some c' # cs)"
            using 1(2) by (intro pieces_parsed_Some [OF _ p1(2) _ c]) (auto simp: y)
          moreover have "length cs = length pieces" using 1(2) by (simp add: y pieces_parsed_def)
          then have "\<not> ab \<Longrightarrow> \<forall>k < length (Some c' # cs).
              (Some c' # cs) ! k = None \<longleftrightarrow> tl \<and> k = length (Some c' # cs) - 1"
            using 1(2) by (cases cs) (auto simp: y nth_Cons split: nat.splits)
          moreover have "last_exit_code st1 = last_exit_code st" using p1(1) by (simp add: parser_only_iff)
          ultimately show ?case
            using 1(2) keeps_calls_trans [OF p1(2)] line_only_trans [OF line_only_parser [OF p1(1)]] False
            by (simp add: y)
        qed
      qed
    qed
  qed
qed

lemma all_Some_conv: "(\<forall>k < length cs. cs ! k \<noteq> None) \<longleftrightarrow> (\<exists>xs. cs = map Some xs)"
proof
  assume "\<forall>k < length cs. cs ! k \<noteq> None"
  then have "cs = map Some (map the cs)" by (intro nth_equalityI) auto
  then show "\<exists>xs. cs = map Some xs" ..
qed auto

lemma map_filter_map_Some [simp]: "List.map_filter (\<lambda>c. c) (map Some xs) = xs"
  by (induction xs) simp_all

lemma map_filter_snoc_None [simp]:
  "List.map_filter (\<lambda>c. c) (cs @ [None]) = List.map_filter (\<lambda>c. c) cs"
  by (simp add: List.map_filter_def)

text \<open>
  The commands of a line: one for each piece between the symbols \<^verbatim>\<open>&\<close>, or for each but the
  last one, in the background exactly when the symbol follows.
\<close>

definition line_parsed :: "string \<Rightarrow> shell \<Rightarrow> shell \<Rightarrow> command list \<Rightarrow> bool" where
  "line_parsed s st st' cmds \<longleftrightarrow>
     (let pieces = words s ''&''
      in cmds \<noteq> [] \<and> (length cmds = length pieces \<or> length cmds + 1 = length pieces) \<and>
         distinct (concat (map cmd_calls cmds)) \<and>
         set (concat (map cmd_calls cmds)) \<subseteq> set (fresh st st') \<and>
         (\<forall>k < length cmds.
            command_tree st' (cmds ! k) \<and>
            cmd_string (cmds ! k) = Some (strip (CHR '' '') (pieces ! k)) \<and>
            (cmd_background (cmds ! k) \<longleftrightarrow> k + 1 < length pieces \<or> last s = CHR ''&'')))"

definition line_allowed :: "string \<Rightarrow> ub set" where
  "line_allowed s = (\<Union>p \<in> set (words s ''&''). allowed (words p '' ''))"

lemma parse_read_line_step:
  "yields (line_allowed s) (parse_read_line OS s st)
     (\<lambda>(r, st'). line_only st st' \<and> keeps_calls st st' \<and>
        (\<forall>cs. r = Some cs \<longrightarrow> (\<exists>cmds. cs = map Some cmds \<and> line_parsed s st st' cmds)))"
proof (cases "starts_with s ''&'' \<or> words s ''&'' = []")
  case True
  then show ?thesis
    by (auto simp: parse_read_line_def split_string_keep_trace_words)
next
  case False
  define pieces where "pieces = words s ''&''"
  define lb where "lb = int (length pieces) - (if last s = CHR ''&'' then 1 else 2)"
  have sp: "split_string_keep_trace s ''&'' = Inr (Some pieces, lb)"
    using False by (simp add: split_string_keep_trace_words pieces_def lb_def)
  have ne: "pieces \<noteq> []" using False by (simp add: pieces_def)
  have m: "parse_read_line OS s st =
    bindU (parse_pieces OS lb 0 pieces False st) (\<lambda>(commands, abort, trim_last, st).
       if abort then Inr (None, st)
       else if \<not> trim_last then Inr (Some commands, st)
       else if length pieces = 1 then Inr (None, st)
       else Inr (Some (take (length pieces - 1) commands), st))"
    using False sp by (auto simp: parse_read_line_def)
  have U: "line_allowed s = (\<Union>p \<in> set pieces. allowed (words p '' ''))"
    by (simp add: line_allowed_def pieces_def)
  show ?thesis
    unfolding m U
  proof (rule yields_bind [OF parse_pieces_step], goal_cases)
    case (1 x)
    obtain cs ab tl st' where x: "x = (cs, ab, tl, st')" by (cases x)
    have pp: "pieces_parsed st st' lb 0 pieces cs" and len: "length cs = length pieces"
      using 1(2) by (auto simp: x pieces_parsed_def)
    have lp: "line_parsed s st st' cmds"
      if "cs = map Some cmds @ rest" "cmds \<noteq> []" "rest = [] \<or> rest = [None]" for cmds rest
    proof -
      have mf: "List.map_filter (\<lambda>c. c) cs = cmds" using that by auto
      have nth: "cs ! k = Some (cmds ! k)" "k < length cs" if "k < length cmds" for k
        using that \<open>cs = _\<close> by (simp_all add: nth_append)
      have each: "\<forall>k < length cs. \<forall>c. cs ! k = Some c \<longrightarrow>
            command_tree st' c \<and> cmd_string c = Some (strip (CHR '' '') (pieces ! k)) \<and>
            (cmd_background c \<longleftrightarrow> int k \<le> lb)"
        using pp by (simp add: pieces_parsed_def)
      then have "\<forall>k < length cmds.
            command_tree st' (cmds ! k) \<and>
            cmd_string (cmds ! k) = Some (strip (CHR '' '') (pieces ! k)) \<and>
            (cmd_background (cmds ! k) \<longleftrightarrow> int k \<le> lb)"
        using nth by blast
      moreover have "length cmds \<le> length pieces" using that(1) len by auto
      then have "int k \<le> lb \<longleftrightarrow> k + 1 < length pieces \<or> last s = CHR ''&''" if "k < length cmds" for k
        using that by (auto simp: lb_def)
      moreover have "distinct (concat (map cmd_calls cmds)) \<and> set (concat (map cmd_calls cmds)) \<subseteq> set (fresh st st')"
        using pp mf by (simp add: pieces_parsed_def)
      ultimately show ?thesis
        using that len by (auto simp: line_parsed_def pieces_def [symmetric] Let_def)
    qed
    show ?case
    proof (cases "ab \<or> tl \<and> length pieces = 1")
      case True
      then show ?thesis using 1(2) by (auto simp: x)
    next
      case False
      have nn: "\<forall>k < length cs. cs ! k = None \<longleftrightarrow> tl \<and> k = length cs - 1" using 1(2) False by (simp add: x)
      show ?thesis
      proof (cases tl)
        case False
        then obtain cmds where cs: "cs = map Some cmds" using nn all_Some_conv [of cs] by auto
        moreover have "cmds \<noteq> []" using cs len ne by auto
        ultimately have "line_parsed s st st' cmds" using lp [of cmds "[]"] by simp
        then show ?thesis using 1(2) cs False \<open>\<not> (ab \<or> _)\<close> by (simp add: x)
      next
        case True
        define n where "n = length cs - 1"
        have n: "length cs = Suc n" "0 < n" using False True len ne by (cases pieces; auto simp: n_def)+
        have "\<forall>k < length (take n cs). take n cs ! k \<noteq> None" using nn n by auto
        then obtain cmds where c: "take n cs = map Some cmds" using all_Some_conv [of "take n cs"] by blast
        have "cs ! n = None" using nn True n by simp
        then have "cs = map Some cmds @ [None]"
          using n c take_Suc_conv_app_nth [of n cs] by simp
        moreover have "cmds \<noteq> []" using c n by (metis length_0_conv length_map length_take min.absorb2 less_imp_le lessI less_numeral_extra(3))
        ultimately have "line_parsed s st st' cmds" by (rule lp) simp
        moreover have "take (length pieces - 1) cs = map Some cmds" using c len by (simp add: n_def)
        ultimately show ?thesis using 1(2) False True by (simp add: x)
      qed
    qed
  qed
qed

lemma parse_line_faults:
  assumes "parse_read_line OS s st = Inl u"
  shows "u = Use_After_Free \<and> (\<exists>piece \<in> set (words s ''&''). redirects_inside (words piece '' ''))"
  using parse_read_line_step [of s OS st] assms
  by (auto simp: line_allowed_def allowed_def split: if_splits)

lemma the_call_at: "live st a \<Longrightarrow> call_heap st ! a = Some (the_call st a)"
  by (auto simp: live_iff the_call_def)

text \<open>In a multiset without repetition, a member of the union is in one summand.\<close>

lemma one_of_sum:
  assumes "sum_list (map f as) = mset ks" and "distinct ks" and "distinct as" and "k \<in> set ks"
  shows "\<exists>!a. a \<in> set as \<and> k \<in># f a"
proof -
  have c: "count (sum_list (map f as)) k = 1"
    using assms(1,2,4) by (simp add: distinct_count_atmost_1)
  have sum: "count (sum_list (map f as)) k = sum_list (map (\<lambda>a. count (f a) k) as)" for as
    by (induction as) auto
  have "1 = sum_list (map (\<lambda>a. count (f a) k) as)" using c sum [of as] by simp
  then show ?thesis
    using assms(3)
  proof (induction as)
    case (Cons a as)
    show ?case
    proof (cases "count (f a) k = 0")
      case True
      then have "\<exists>!x. x \<in> set as \<and> k \<in># f x" using Cons by simp
      then show ?thesis using True by (metis list.set_intros(2) not_in_iff set_ConsD)
    next
      case False
      then have "sum_list (map (\<lambda>a. count (f a) k) as) = 0"
        using Cons.prems(1) by (simp only: list.map sum_list.Cons)
      then have "x \<in> set as \<Longrightarrow> k \<notin># f x" for x by (auto simp: not_in_iff)
      then show ?thesis using False by (metis count_eq_zero_iff list.set_intros(1) set_ConsD)
    qed
  qed simp
qed

text \<open>
  The pieces of a line are parsed in turn, each in the state the one before leaves; only the
  flag of a command is set afterwards.
\<close>

fun parsed_in_turn :: "os \<Rightarrow> string list \<Rightarrow> shell \<Rightarrow> command list \<Rightarrow> shell \<Rightarrow> bool" where
  "parsed_in_turn OS [] st cmds st' \<longleftrightarrow> cmds = [] \<and> st' = st"
| "parsed_in_turn OS (piece # pieces) st cmds st' \<longleftrightarrow>
     (\<exists>c rest b st1. cmds = c\<lparr>cmd_background := b\<rparr> # rest \<and>
        parse_command OS piece st = Inr (Some c, st1) \<and> parsed_in_turn OS pieces st1 rest st')"

lemma parsed_in_turn_length: "parsed_in_turn OS pieces st cmds st' \<Longrightarrow> length cmds = length pieces"
  by (induction pieces arbitrary: cmds st) auto

lemma parse_pieces_aborted:
  "parse_pieces OS lb index pieces True st = Inr (cs, ab, trim, st') \<Longrightarrow> ab"
  using yields_InrD [OF parse_pieces_step, of OS lb index pieces True st] by blast

text \<open>The loop over the pieces: all parse, or all but the last do and the loop drops that one.\<close>

lemma parse_pieces_in_turn:
  "parse_pieces OS lb index pieces False st = Inr (cs, False, trim, st') \<Longrightarrow>
     \<exists>cmds. if trim
       then pieces \<noteq> [] \<and> cs = map Some cmds @ [None] \<and>
            (\<exists>st1 st2. parsed_in_turn OS (butlast pieces) st cmds st1 \<and>
               parse_command OS (last pieces) st1 = Inr (None, st2) \<and> st' = st2\<lparr>last_exit_code := 1\<rparr>)
       else cs = map Some cmds \<and> parsed_in_turn OS pieces st cmds st'"
proof (induction pieces arbitrary: index st cs)
  case (Cons piece pieces)
  obtain r st1 where p: "parse_command OS piece st = Inr (r, st1)"
    using Cons.prems by (auto simp: bindU_eq_Inr)
  show ?case
  proof (cases r)
    case None
    then have "pieces = []" "cs = [None]" "trim" "st' = st1\<lparr>last_exit_code := 1\<rparr>"
      using Cons.prems p by (auto simp: bindU_eq_Inr Let_def split: if_split_asm dest: parse_pieces_aborted)
    then show ?thesis using p None by (intro exI [of _ "[]"]) auto
  next
    case (Some c)
    define b where "b = (if int index \<le> lb then True else cmd_background c)"
    have b: "(if int index \<le> lb then c\<lparr>cmd_background := True\<rparr> else c) = c\<lparr>cmd_background := b\<rparr>"
      by (simp add: b_def)
    obtain cs1 where cs: "cs = Some (c\<lparr>cmd_background := b\<rparr>) # cs1"
      and q: "parse_pieces OS lb (index + 1) pieces False st1 = Inr (cs1, False, trim, st')"
      using Cons.prems p Some unfolding parse_pieces.simps Let_def b by (auto simp: b bindU_eq_Inr)
    obtain cmds where "if trim
       then pieces \<noteq> [] \<and> cs1 = map Some cmds @ [None] \<and>
            (\<exists>st2 st3. parsed_in_turn OS (butlast pieces) st1 cmds st2 \<and>
               parse_command OS (last pieces) st2 = Inr (None, st3) \<and> st' = st3\<lparr>last_exit_code := 1\<rparr>)
       else cs1 = map Some cmds \<and> parsed_in_turn OS pieces st1 cmds st'"
      using Cons.IH [OF q] by blast
    then show ?thesis
      using p Some cs by (intro exI [of _ "c\<lparr>cmd_background := b\<rparr> # cmds"]) (auto split: if_split_asm)
  qed
qed simp

lemma parse_read_line_in_turn:
  assumes "parse_read_line OS s st = Inr (Some (map Some cmds), st')"
  defines "pieces \<equiv> words s ''&''"
  shows "parsed_in_turn OS pieces st cmds st' \<or>
     (\<exists>st1 st2. parsed_in_turn OS (butlast pieces) st cmds st1 \<and>
        parse_command OS (last pieces) st1 = Inr (None, st2) \<and> st' = st2\<lparr>last_exit_code := 1\<rparr>)"
proof -
  obtain lb cs trim where sp: "split_string_keep_trace s ''&'' = Inr (Some pieces, lb)"
    and p: "parse_pieces OS lb 0 pieces False st = Inr (cs, False, trim, st')"
    and cs: "map Some cmds = (if trim then take (length pieces - 1) cs else cs)"
    using assms(1)
    by (auto simp: parse_read_line_def split_string_keep_trace_words pieces_def elim!: bindU_InrE
        split: if_split_asm option.splits prod.splits)
  obtain cmds' where c: "if trim
       then pieces \<noteq> [] \<and> cs = map Some cmds' @ [None] \<and>
            (\<exists>st1 st2. parsed_in_turn OS (butlast pieces) st cmds' st1 \<and>
               parse_command OS (last pieces) st1 = Inr (None, st2) \<and> st' = st2\<lparr>last_exit_code := 1\<rparr>)
       else cs = map Some cmds' \<and> parsed_in_turn OS pieces st cmds' st'"
    using parse_pieces_in_turn [OF p] by blast
  have "map Some cmds = map Some cmds'"
    using cs c parsed_in_turn_length [of OS "butlast pieces" st cmds'] by (auto split: if_split_asm)
  then have "cmds = cmds'" by (simp add: inj_map_eq_map)
  then show ?thesis using c by (auto split: if_split_asm)
qed

section \<open>Properties\<close>

text \<open>
  C2. The calls of a parsed command are plugged into its pipes: the call that writes a pipe
  writes nothing else and has the pipe's write end as its standard output, and the call
  that reads a pipe has the read end as its standard input or its \<^verbatim>\<open>/dev/fd\<close> path among its
  arguments. The kernel gives no pipe the descriptor -1.
\<close>

theorem parse_command_wired:
  assumes "parse_command OS s st = Inr (Some cmd, st')"
    and "\<forall>p \<in> set (cmd_open_pipes cmd). snd p \<noteq> -1"
    and "a \<in> set (cmd_calls cmd)"
  shows "(\<forall>k. k \<in># writes (the_call st' a) \<longrightarrow>
            writes (the_call st' a) = {#k#} \<and> cc_stdout (the_call st' a) = snd (cmd_open_pipes cmd ! k)) \<and>
         (\<forall>k. k \<in># reads (the_call st' a) \<longrightarrow>
            cc_stdin (the_call st' a) = fst (cmd_open_pipes cmd ! k) \<or>
            dev_file (cmd_open_pipes cmd ! k) \<in> set (cc_argv (the_call st' a)))"
proof -
  have "wired (cmd_open_pipes cmd) (the_call st' a)"
    using yields_InrD [OF parse_command_tree assms(1)] assms(3) by (simp add: command_tree_def)
  then show ?thesis
    using assms(2) by (auto simp: wired_def writes_at_most_one_def writes_def reads_def)
qed

lemma parse_command_wired_witness:
  "\<exists>cmd st'. parse_command sample_os ''a x | b'' initial_shell = Inr (Some cmd, st') \<and>
     cmd_calls cmd = [0, 1] \<and> cc_stdout (the_call st' 1) = snd (cmd_open_pipes cmd ! 0)"
proof -
  have "case parse_command sample_os ''a x | b'' initial_shell of
      Inr (Some cmd, st') \<Rightarrow> cmd_calls cmd = [0, 1] \<and> writes (the_call st' 1) = {#0#} \<and>
        list_all (\<lambda>p. snd p \<noteq> -1) (cmd_open_pipes cmd) | _ \<Rightarrow> False" by code_simp
  then obtain cmd st' where r: "parse_command sample_os ''a x | b'' initial_shell = Inr (Some cmd, st')"
    and c: "cmd_calls cmd = [0, 1]" "writes (the_call st' 1) = {#0#}"
      "\<forall>p \<in> set (cmd_open_pipes cmd). snd p \<noteq> -1"
    by (auto simp: list_all_iff split: sum.splits option.splits)
  have "cc_stdout (the_call st' 1) = snd (cmd_open_pipes cmd ! 0)"
    using parse_command_wired [OF r c(3), of 1] c by simp
  then show ?thesis using r c by blast
qed

text \<open>
  C17. Memory safety of the parser: on every line, kernel and state, the only misbehaviour
  \<^verbatim>\<open>parse_read_line\<close> can meet is the use after free of \<^verbatim>\<open>parse_command_substitution\<close>, and only
  when the line has a substitution that redirects its own standard output, one with \<^verbatim>\<open>>\<close>,
  \<^verbatim>\<open>>|\<close> or \<^verbatim>\<open>>>\<close> between \<^verbatim>\<open><(\<close> and its closing token. On all other lines, with or without
  substitutions, the parser returns.
\<close>

theorem parse_read_line_safe:
  assumes "parse_read_line OS s st = Inl u"
  shows "u = Use_After_Free \<and> (\<exists>piece \<in> set (words s ''&''). redirects_inside (words piece '' ''))"
  by (rule parse_line_faults [OF assms])

text \<open>
  That misbehaviour is real: a substitution whose last call redirects its output makes the
  parser read the descriptors of a call it has just freed.
\<close>

lemma parse_read_line_safe_witness:
  "parse_read_line sample_os ''a <( b > f )'' initial_shell = Inl Use_After_Free \<and>
     (\<exists>piece \<in> set (words ''a <( b > f )'' ''&''). redirects_inside (words piece '' ''))"
proof -
  have p: "parse_read_line sample_os ''a <( b > f )'' initial_shell = Inl Use_After_Free" by code_simp
  show ?thesis using p parse_read_line_safe [OF p] by blast
qed

text \<open>
  C18. The commands of a line are what \<^verbatim>\<open>parse_command\<close> makes of the pieces between the symbols
  \<^verbatim>\<open>&\<close>, parsed one after the other: either every piece parses, or all but the last one do and
  the last one, which does not, is dropped and sets the exit status to 1. Each command has
  its piece without the outer spaces as its text and is in the background exactly when a
  symbol \<^verbatim>\<open>&\<close> follows the piece. No call belongs to two commands.
\<close>

theorem parse_read_line_commands:
  assumes "parse_read_line OS s st = Inr (Some cs, st')"
  defines "pieces \<equiv> words s ''&''"
  shows "\<exists>cmds. cs = map Some cmds \<and> cmds \<noteq> [] \<and>
           (parsed_in_turn OS pieces st cmds st' \<or>
            (\<exists>st1 st2. parsed_in_turn OS (butlast pieces) st cmds st1 \<and>
               parse_command OS (last pieces) st1 = Inr (None, st2) \<and> st' = st2\<lparr>last_exit_code := 1\<rparr>)) \<and>
           distinct (concat (map cmd_calls cmds)) \<and>
           (\<forall>k < length cmds. cmd_string (cmds ! k) = Some (strip (CHR '' '') (pieces ! k)) \<and>
              (cmd_background (cmds ! k) \<longleftrightarrow> k + 1 < length pieces \<or> last s = CHR ''&''))"
proof -
  obtain cmds where c: "cs = map Some cmds" "line_parsed s st st' cmds"
    using yields_InrD [OF parse_read_line_step assms(1)] by auto
  then show ?thesis
    using parse_read_line_in_turn [OF assms(1) [unfolded c(1)]]
    unfolding pieces_def by (auto simp: line_parsed_def Let_def)
qed

lemma parse_read_line_commands_witness:
  "\<exists>cmd st'. parse_read_line sample_os ''ls -l & '' initial_shell = Inr (Some [Some cmd], st') \<and>
     cmd_string cmd = Some ''ls -l'' \<and> cmd_background cmd"
proof -
  have "case parse_read_line sample_os ''ls -l & '' initial_shell of
      Inr (Some cs, st') \<Rightarrow> length cs = 1 | _ \<Rightarrow> False" by code_simp
  then obtain cs st' where r: "parse_read_line sample_os ''ls -l & '' initial_shell = Inr (Some cs, st')"
    and len: "length cs = 1"
    by (auto split: sum.splits option.splits)
  have p: "words ''ls -l & '' ''&'' = [''ls -l '', '' '']" "strip (CHR '' '') ''ls -l '' = ''ls -l''"
    by code_simp+
  obtain cmd where "cs = [Some cmd]" "cmd_string cmd = Some ''ls -l'' \<and> cmd_background cmd"
    using parse_read_line_commands [OF r] p len by (auto simp: length_Suc_conv)
  with r show ?thesis by blast
qed

end
