(* ===== verification/Prompt.thy ===== *)
theory Prompt
  imports Internals
begin

text \<open>
  The prompt and the read-eval loop (\<^verbatim>\<open>src/prompt.c\<close>), and \<^verbatim>\<open>main\<close> (\<^verbatim>\<open>src/jsh.c\<close>). The loop
  runs until \<^verbatim>\<open>exit\<close> succeeds, so it is a partial function: \<^const>\<open>None\<close> is a session that
  never ends.
\<close>

section \<open>The prompt\<close>

definition LIMIT_PROMPT_SIZE :: nat where "LIMIT_PROMPT_SIZE = 30"

text \<open>\<^verbatim>\<open>size_t\<close> arithmetic wraps.\<close>

definition size_t_minus :: "nat \<Rightarrow> nat \<Rightarrow> nat" where
  "size_t_minus a b = to_uint64 (int a - int b)"

text \<open>\<^verbatim>\<open>sprintf\<close> to a buffer of \<open>cap\<close> bytes.\<close>

definition sprintf_checked :: "nat \<Rightarrow> string \<Rightarrow> string cres" where
  "sprintf_checked cap s = (if length s + 1 \<le> cap then Inr s else Inl Out_Of_Bounds)"

definition get_prompt_string :: "os \<Rightarrow> shell \<Rightarrow> (string option \<times> shell) cres" where
  "get_prompt_string OS st =
     bindU (sprintf_checked 1024 (''['' @ show_nat (job_table_size st) @ '']'')) (\<lambda>total_jobs.
       let jobs = in_yellow (Some total_jobs);
           (pwd, st) = get_current_wd OS st;
           path = in_blue (Some (cstr_text pwd));
           dots = in_blue (Some ''...'');
           dollar_sign = (if last_exit_code st \<noteq> 0 then in_red (Some ''$ '') else in_green (Some ''$ ''));
           max_size = size_t_minus (size_t_minus (size_t_minus LIMIT_PROMPT_SIZE (length total_jobs))
                        (length ''...'')) (length ''$ '');
           truncated = (length (cstr_text pwd) > max_size)
       in bindU
            (if truncated
             then bindU (truncated_cwd OS max_size st) (\<lambda>(trunc_pwd, st).
                  case trunc_pwd of
                    None \<Rightarrow> Inr (None, perror OS ''malloc(): prompt'' st)
                  | Some t \<Rightarrow>
                      bindU (sprintf_checked (3 * LIMIT_PROMPT_SIZE)
                               (the jobs @ the dots @ the (in_blue (Some (cstr_text t))) @
                                the dollar_sign)) (\<lambda>prompt_string.
                      bindU (c_free t) (\<lambda>_. Inr (Some prompt_string, st))))
             else bindU (sprintf_checked (3 * LIMIT_PROMPT_SIZE)
                           (the jobs @ the path @ the dollar_sign)) (\<lambda>prompt_string.
                  Inr (Some prompt_string, st)))
            (\<lambda>(prompt_string, st).
               case prompt_string of
                 None \<Rightarrow> Inr (None, st)
               | Some s \<Rightarrow> bindU (c_free pwd) (\<lambda>_. Inr (Some s, st))))"

section \<open>The read-eval loop\<close>

text \<open>
  The loop over the commands of a line. A null command would be dereferenced. A command
  whose result is not null is destroyed with it.
\<close>

fun execute_commands :: "os \<Rightarrow> command option list \<Rightarrow> shell \<Rightarrow> shell proc" where
  "execute_commands OS [] st = ret st"
| "execute_commands OS (None # commands) st = Inl Null_Deref"
| "execute_commands OS (Some cmd # commands) st =
     bindP (execute_command OS cmd st) (\<lambda>(result, st).
     bindP (lift_cres (case result of
                         Some r \<Rightarrow> destroy_command_result (Some r) st
                       | None \<Rightarrow> destroy_command (Some cmd) st))
       (execute_commands OS commands))"

text \<open>One round of the loop of \<^verbatim>\<open>prompt\<close>. The end of the input reads as \<^verbatim>\<open>exit\<close>.\<close>

definition prompt_round :: "os \<Rightarrow> shell \<Rightarrow> shell proc" where
  "prompt_round OS st =
     (let st = update_jobs OS st
      in bindP (lift_cres (get_prompt_string OS st)) (\<lambda>(prompt_string, st).
         let (line, st) = sys_readline OS (case prompt_string of None \<Rightarrow> [] | Some s \<Rightarrow> s) st;
             buf = (case line of None \<Rightarrow> ''exit'' | Some l \<Rightarrow> l)
         in bindP (lift_cres (parse_read_line OS buf st)) (\<lambda>(commands, st).
            case commands of
              None \<Rightarrow> ret st
            | Some cs \<Rightarrow> execute_commands OS cs (add_history buf st))))"

partial_function (option) prompt :: "os \<Rightarrow> shell \<Rightarrow> shell proc option" where
  "prompt OS st =
     (if should_exit st then Some (ret st)
      else case prompt_round OS st of
             Inr (Running st) \<Rightarrow> prompt OS st
           | r \<Rightarrow> Some r)"

declare prompt.simps [code]

section \<open>The program\<close>

abbreviation (input) EXIT_FAILURE :: int where "EXIT_FAILURE \<equiv> 1"

text \<open>\<^verbatim>\<open>main\<close>: the exit status and the state in which the process ends.\<close>

definition main_program :: "os \<Rightarrow> string list \<Rightarrow> shell \<Rightarrow> (int \<times> shell) proc option" where
  "main_program OS argv st =
     (if length argv > 1
      then Some (ret (EXIT_FAILURE, dprintf STDOUT_FILENO (''Usage: '' @ hd argv @ nl) st))
      else case bindP (ignore_signals OS st) (\<lambda>st. lift_cres (init_internals st)) of
             Inr (Running st) \<Rightarrow>
               Option.bind (prompt OS st) (\<lambda>r. Some (
                 bindP r (\<lambda>st. bindP (lift_cres (destroy_job_table st)) (\<lambda>st.
                   ret (last_exit_code st, st)))))
           | Inl u \<Rightarrow> Some (Inl u)
           | Inr (Exited n st) \<Rightarrow> Some (Inr (Exited n st))
           | Inr (Replaced p args st) \<Rightarrow> Some (Inr (Replaced p args st)))"

section \<open>What the terminal shows\<close>

text \<open>
  A string as it appears: an escape sequence runs up to its letter \<^verbatim>\<open>m\<close>, and the bytes 1 and
  2 are the marks of \<^verbatim>\<open>readline\<close>.
\<close>

function visible :: "string \<Rightarrow> string" where
  "visible [] = []"
| "visible (c # cs) =
     (if c = CHR 0x01 \<or> c = CHR 0x02 then visible cs
      else if c = CHR 0x1B then visible (drop 1 (dropWhile (\<lambda>c. c \<noteq> CHR ''m'') cs))
      else c # visible cs)"
  by pat_completeness auto
termination
  by (relation "measure length") (auto intro: le_imp_less_Suc [OF le_trans [OF diff_le_self length_dropWhile_le], simplified])

definition plain :: "string \<Rightarrow> bool" where
  "plain s \<longleftrightarrow> set s \<inter> {CHR 0x01, CHR 0x02, CHR 0x1B} = {}"

lemma visible_plain: "plain s \<Longrightarrow> visible (s @ t) = s @ visible t"
  by (induction s) (auto simp: plain_def)

lemma visible_colored:
  assumes "plain s"
  shows "visible (the (in_red (Some s)) @ t) = s @ visible t"
    and "visible (the (in_green (Some s)) @ t) = s @ visible t"
    and "visible (the (in_yellow (Some s)) @ t) = s @ visible t"
    and "visible (the (in_blue (Some s)) @ t) = s @ visible t"
  using assms
  by (simp_all add: in_red_def in_green_def in_yellow_def in_blue_def colored_def visible_plain)

lemma length_colored [simp]:
  "length (the (in_red (Some s))) = length s + 13" "length (the (in_green (Some s))) = length s + 13"
  "length (the (in_yellow (Some s))) = length s + 13" "length (the (in_blue (Some s))) = length s + 13"
  by (simp_all add: in_red_def in_green_def in_yellow_def in_blue_def colored_def)

lemma plain_simps [simp]:
  "plain []" "plain (c # s) \<longleftrightarrow> c \<notin> {CHR 0x01, CHR 0x02, CHR 0x1B} \<and> plain s"
  "plain (s @ t) \<longleftrightarrow> plain s \<and> plain t" "plain s \<Longrightarrow> plain (drop n s)"
  by (auto simp: plain_def dest: in_set_dropD)

lemma plain_show_nat [simp]: "plain (show_nat n)"
proof -
  have "c \<in> {CHR 0x01, CHR 0x02, CHR 0x1B} \<Longrightarrow> \<not> is_digit c" for c
    by (auto simp: is_digit_def)
  moreover have "\<forall>c \<in> set (show_nat n). is_digit c" using show_nat_digits by (simp add: list_all_iff)
  ultimately show ?thesis unfolding plain_def by blast
qed

lemma size_t_minus_le:
  assumes "b \<le> a" and "a \<le> LIMIT_PROMPT_SIZE" shows "size_t_minus a b = a - b"
proof -
  have "(int a - int b) mod 2 ^ 64 = int a - int b"
    using assms by (intro mod_pos_pos_trivial) (simp_all add: LIMIT_PROMPT_SIZE_def)
  then show ?thesis using assms(1) by (simp add: size_t_minus_def to_uint64_def)
qed

section \<open>The prompt string\<close>

lemma prompt_string_shown:
  assumes "job_table_size st < 2 ^ 31"
    and "os_getcwd OS (trace st) = Some d" and "os_getcwd OS (Ev_Getcwd (Some d) # trace st) = Some d"
    and "set d \<inter> {CHR 0x01, CHR 0x02, CHR 0x1B} = {}"
  defines "jobs \<equiv> ''['' @ show_nat (job_table_size st) @ '']''"
  shows "\<exists>s st'. get_prompt_string OS st = Inr (Some s, st') \<and> same_globals st st' \<and>
           length s < 90 \<and> length (visible s) \<le> 30 \<and>
           visible s = (if length jobs + length d + 5 \<le> 30 then jobs @ d @ ''$ ''
                        else jobs @ ''...'' @ drop (length d - (25 - length jobs)) d @ ''$ '')"
proof -
  obtain dollar where dollar: "dollar = (if last_exit_code st \<noteq> 0 then in_red (Some ''$ '') else in_green (Some ''$ ''))"
    by blast
  have dollar2: "length (the dollar) = 15" "visible (the dollar) = ''$ ''"
    using visible_colored [of "''$ ''" "[]"] by (simp_all add: dollar)
  have "length (show_nat (job_table_size st)) \<le> 10"
    using assms(1) by (intro length_show_nat_bound) simp_all
  then have len: "length jobs \<le> 12" and pj: "plain jobs" and pd: "plain d"
    using assms(4) by (auto simp: jobs_def plain_def [of d])
  have size: "size_t_minus (size_t_minus (size_t_minus LIMIT_PROMPT_SIZE (length jobs))
      (length ''...'')) (length ''$ '') = 25 - length jobs"
    using len by (simp add: size_t_minus_le LIMIT_PROMPT_SIZE_def)
  note size = size [simplified LIMIT_PROMPT_SIZE_def, simplified]
  have cwd: "get_current_wd OS st = (Heap d, st\<lparr>trace := Ev_Getcwd (Some d) # trace st\<rparr>)"
    using assms(2) by (simp add: get_current_wd_def sys_getcwd_def record_event_def Let_def)
  show ?thesis
  proof (cases "length d \<le> 25 - length jobs")
    case True
    have fits: "length jobs + length d \<le> 25" using True len by arith
    let ?s = "the (in_yellow (Some jobs)) @ the (in_blue (Some d)) @ the dollar"
    have "get_prompt_string OS st = Inr (Some ?s, st\<lparr>trace := Ev_Getcwd (Some d) # trace st\<rparr>)"
      unfolding get_prompt_string_def jobs_def [symmetric] sprintf_checked_def Let_def
      using True len fits by (simp add: LIMIT_PROMPT_SIZE_def cwd size dollar)
    moreover have "visible ?s = jobs @ d @ ''$ ''"
      using pj pd dollar2(2) by (simp add: visible_colored)
    ultimately show ?thesis using fits dollar2(1) by (auto simp: same_globals_iff)
  next
    case False
    define n where "n = 25 - length jobs"
    have n: "n < length d" "n \<le> 25" "length jobs + n = 25" using False len by (auto simp: n_def)
    have "0 < n" using n(3) len by simp
    then obtain t where t: "trunc_start (Some d) n = Inr (Some t)" "cstr_text t = drop (length d - n) d"
      "c_free t = Inr ()"
      using n(1) by (simp add: trunc_start_def)
    let ?s = "the (in_yellow (Some jobs)) @ the (in_blue (Some ''...'')) @
                the (in_blue (Some (cstr_text t))) @ the dollar"
    define st1 where "st1 = st\<lparr>trace := Ev_Getcwd (Some d) # Ev_Getcwd (Some d) # trace st\<rparr>"
    have "truncated_cwd OS n (st\<lparr>trace := Ev_Getcwd (Some d) # trace st\<rparr>) = Inr (Some t, st1)"
      using t(1) assms(3)
      by (simp add: truncated_cwd_def get_current_wd_def sys_getcwd_def record_event_def Let_def st1_def)
    then have "get_prompt_string OS st = Inr (Some ?s, st1)"
      unfolding get_prompt_string_def jobs_def [symmetric] sprintf_checked_def Let_def
      using n len t(2,3) by (simp add: LIMIT_PROMPT_SIZE_def cwd size n_def [symmetric] dollar)
    moreover have "visible ?s = jobs @ ''...'' @ drop (length d - n) d @ ''$ ''"
      using pj pd dollar2(2) t(2) by (simp add: visible_colored)
    ultimately show ?thesis
      using n len dollar2(1) t(2) by (auto simp: same_globals_iff st1_def n_def)
  qed
qed

section \<open>Properties\<close>

text \<open>
  C37. The prompt never leaves its buffer of 90 bytes and shows at most 30 characters: the number
  of jobs, the current directory or dots and exactly as many of its last characters as
  make 30, and the dollar sign. The directory is cut as soon as the prompt would have more
  than 27 characters, because the code counts the dots before it knows whether it needs
  them: a prompt of 28, 29 or 30 characters, which would fit, is cut too. There the code
  differs from \<^verbatim>\<open>project.md\<close>, whose example \<^verbatim>\<open>[0]/home/titi/pas/trop/long$\<close> of 29 characters
  is cut by the code, as the witness shows.
\<close>

theorem prompt_string_fits:
  assumes "job_table_size st < 2 ^ 31"
    and "os_getcwd OS (trace st) = Some d" and "os_getcwd OS (Ev_Getcwd (Some d) # trace st) = Some d"
    and "set d \<inter> {CHR 0x01, CHR 0x02, CHR 0x1B} = {}"
  defines "jobs \<equiv> ''['' @ show_nat (job_table_size st) @ '']''"
  shows "\<exists>s st'. get_prompt_string OS st = Inr (Some s, st') \<and> same_globals st st' \<and>
           length s < 90 \<and> length (visible s) \<le> 30 \<and>
           (if length (jobs @ d @ ''$ '') \<le> 27 then visible s = jobs @ d @ ''$ ''
            else visible s = jobs @ ''...'' @ drop (length d - (25 - length jobs)) d @ ''$ '' \<and>
                 length (visible s) = 30)"
proof -
  have "length (show_nat (job_table_size st)) \<le> 10"
    using assms(1) by (intro length_show_nat_bound) simp_all
  then have "length jobs \<le> 12" by (simp add: jobs_def)
  then have cut: "length (jobs @ ''...'' @ drop (length d - (25 - length jobs)) d @ ''$ '') = 30"
    if "\<not> length jobs + length d + 5 \<le> 30" using that by simp
  have "length (jobs @ d @ ''$ '') \<le> 27 \<longleftrightarrow> length jobs + length d + 5 \<le> 30" by simp
  then show ?thesis
    using prompt_string_shown [OF assms(1-4), folded jobs_def] cut by (metis (no_types, lifting))
qed

lemma prompt_string_fits_witness:
  "\<exists>s st'. get_prompt_string (sample_os\<lparr>os_getcwd := (\<lambda>h. Some ''/home/titi/pas/trop/long'')\<rparr>)
       initial_shell = Inr (Some s, st') \<and>
     length ''[0]/home/titi/pas/trop/long$ '' = 29 \<and> visible s = ''[0]...ome/titi/pas/trop/long$ ''"
proof -
  have "show_nat 0 = ''0''" by code_simp
  then show ?thesis
    using prompt_string_fits [of initial_shell
        "sample_os\<lparr>os_getcwd := (\<lambda>h. Some ''/home/titi/pas/trop/long'')\<rparr>" "''/home/titi/pas/trop/long''"]
    by (auto simp: initial_shell_def)
qed

end
