(* ===== verification/Session.thy ===== *)
theory Session
  imports Pipeline Prompt Job_Control Execution
begin

text \<open>
  The shell as a whole: what every command, every line and every round of the loop keeps.
  \<open>session_inv\<close> is the invariant of the globals between two commands; \<open>keeps\<close> says that a
  computation keeps it and leaves the calls in the store alone; \<open>command_faults\<close> are the
  kinds of undefined behaviour that a built-in can run into, \<open>round_faults\<close> those of a round of
  the loop. Then the ways in which the processes of the shell end.
\<close>

section \<open>The invariant\<close>

definition exit_status :: "int \<Rightarrow> bool" where
  "exit_status n \<longleftrightarrow> 0 \<le> n \<and> n \<le> 255"

definition session_inv :: "shell \<Rightarrow> bool" where
  "session_inv st \<longleftrightarrow> table_wf st \<and> exit_status (last_exit_code st)"

definition keeps :: "shell \<Rightarrow> shell \<Rightarrow> bool" where
  "keeps st st' \<longleftrightarrow> (session_inv st \<longrightarrow> session_inv st') \<and> call_heap st' = call_heap st"

definition command_faults :: "ub set" where
  "command_faults = {Null_Deref, Out_Of_Bounds, Invalid_Free, Diverges}"

lemma command_faults_simps [simp]:
  "Null_Deref \<in> command_faults" "Out_Of_Bounds \<in> command_faults" "Invalid_Free \<in> command_faults"
  "Diverges \<in> command_faults"
  by (simp_all add: command_faults_def)

lemma keeps_refl [simp, intro]: "keeps st st"
  by (simp add: keeps_def)

lemma keeps_trans [trans]: "keeps a b \<Longrightarrow> keeps b c \<Longrightarrow> keeps a c"
  by (simp add: keeps_def)

interpretation inv_frame: frame_relation keeps
  by unfold_locales (auto intro: keeps_trans)

lemma keeps_same_globals: "same_globals a b \<Longrightarrow> keeps a b"
  using table_wf_same_globals [of a b] by (auto simp: keeps_def session_inv_def same_globals_iff)

lemma keeps_record_event [simp]: "keeps a (record_event e b) = keeps a b" "keeps a (dprintf fd m b) = keeps a b"
  "keeps a (perror OS m b) = keeps a b"
proof -
  have "keeps b (record_event e b)" "keeps (record_event e b) b" for e
    by (auto intro!: keeps_same_globals simp: same_globals_def record_event_def)
  then show "keeps a (record_event e b) = keeps a b" for e using keeps_trans by blast
  then show "keeps a (dprintf fd m b) = keeps a b" "keeps a (perror OS m b) = keeps a b"
    by (simp_all add: dprintf_def perror_def)
qed

lemma keeps_sys:
  "sys_open OS path flags st = (f, st') \<Longrightarrow> keeps st st'" "sys_pipe OS st = (p, st') \<Longrightarrow> keeps st st'"
  "sys_kill OS q sig st = (r, st') \<Longrightarrow> keeps st st'" "sys_getcwd OS st = (d, st') \<Longrightarrow> keeps st st'"
  "sys_read OS fd n st = (b, st') \<Longrightarrow> keeps st st'" "sys_fork OS st = (r, st') \<Longrightarrow> keeps st st'"
  "sys_read_int OS fd st = (v, st') \<Longrightarrow> keeps st st'" "sys_write_int OS fd w st = (ok, st') \<Longrightarrow> keeps st st'"
  "sys_getpgrp OS st = (r, st') \<Longrightarrow> keeps st st'" "sys_tcsetpgrp OS fd q st = (r, st') \<Longrightarrow> keeps st st'"
  "keeps st (sys_close fd st)" "sys_readline OS s st = (d, st') \<Longrightarrow> keeps st st'"
  "keeps st (add_history l st)"
  by (auto simp: sys_open_def sys_pipe_def sys_kill_def sys_getcwd_def sys_read_def sys_fork_def sys_read_int_def
      sys_write_int_def sys_getpgrp_def sys_tcsetpgrp_def sys_close_def sys_readline_def add_history_def Let_def)

lemma keeps_table: "table_wf st \<Longrightarrow> table_wf st' \<Longrightarrow> table_only st st' \<Longrightarrow> keeps st st'"
  by (auto simp: keeps_def session_inv_def table_only_def)

text \<open>Nothing but the table depends on the table being well-formed.\<close>

lemma keepsI: "(session_inv st \<Longrightarrow> keeps st st') \<Longrightarrow> call_heap st' = call_heap st \<Longrightarrow> keeps st st'"
  by (auto simp: keeps_def)

section \<open>Built-ins\<close>

abbreviation good_result :: "shell \<Rightarrow> (int \<times> shell) cres \<Rightarrow> bool" where
  "good_result st r \<equiv> yields command_faults r (\<lambda>(n, st'). exit_status n \<and> keeps st st')"

lemma exit_status_simps [simp]: "exit_status 0" "exit_status 1"
  by (simp_all add: exit_status_def)

lemma keeps_inv: "keeps a b \<Longrightarrow> session_inv a \<Longrightarrow> session_inv b"
  by (simp add: keeps_def)

lemma set_new_cwd_keeps: "yields command_faults (set_new_cwd OS path err st) (\<lambda>(ok, st'). keeps st st')"
proof -
  have "keeps st (snd (is_valid_target_dir OS path err st))"
    by (rule keeps_same_globals [OF is_valid_target_dir_frame(1)])
  moreover have "keeps st (st\<lparr>trace := h, lwd := d\<rparr>)" "keeps st (st\<lparr>trace := h\<rparr>)" for h d
    by (simp_all add: keeps_def session_inv_def table_wf_def)
  ultimately show ?thesis
    by (auto simp: set_new_cwd_step Let_def command_faults_def split: option.splits)
qed

lemma good_cd: "good_result st (cd OS call st)"
proof -
  have to: "good_result st' (cd_to OS call path st')" for path st'
    unfolding cd_to_def by (rule yields_bind [OF set_new_cwd_keeps]) auto
  obtain d st1 where c: "sys_getcwd OS st = (d, st1)" by fastforce
  have "good_result st (cd_to OS call path st1)" for path
    by (rule yields_mono [OF to]) (use keeps_trans [OF keeps_sys(4) [OF c]] in auto)
  then show ?thesis
    using to keeps_sys(4) [OF c] by (simp add: cd_def c split: option.splits)
qed

lemma good_pwd: "good_result st (pwd OS call st)"
proof -
  obtain d st1 where c: "sys_getcwd OS st = (d, st1)" by fastforce
  show ?thesis using keeps_sys(4) [OF c]
    by (auto simp: pwd_def get_current_wd_def c command_faults_def Let_def split: option.splits)
qed

lemma good_last_exit_code: "good_result st (Inr (last_exit_code_command call st))"
  by (simp add: last_exit_code_command_def)

lemma table_only_keeps: "(table_wf st \<Longrightarrow> table_wf st') \<Longrightarrow> table_only st st' \<Longrightarrow> keeps st st'"
  by (auto simp: keeps_def session_inv_def table_only_def)

lemma keeps_update_jobs [simp]: "session_inv st \<Longrightarrow> keeps st (fd_update_jobs OS fd st)"
  by (rule table_only_keeps) (simp_all add: session_inv_def fd_update_jobs_correct)

definition good :: "shell \<Rightarrow> int \<times> shell \<Rightarrow> bool" where
  "good st p \<longleftrightarrow> exit_status (fst p) \<and> keeps st (snd p)"

lemma good_Pair [simp]: "good st (n, st') \<longleftrightarrow> exit_status n \<and> keeps st st'"
  by (simp add: good_def)

lemma good_result_Inr: "good_result st (Inr p) \<longleftrightarrow> good st p"
  by (cases p) simp

lemma table_wf_exit [simp]:
  "table_wf (st\<lparr>should_exit := b\<rparr>) = table_wf st" "table_wf (st\<lparr>last_exit_code := n\<rparr>) = table_wf st"
  "table_wf (st\<lparr>last_exit_code := n, should_exit := b\<rparr>) = table_wf st"
  by (simp_all add: table_wf_def)

lemma good_exit: "session_inv st \<Longrightarrow> good st (exit_command OS (Some call) st)"
proof -
  assume inv: "session_inv st"
  define st1 where "st1 = update_jobs OS st"
  have k: "keeps st st1" using inv by (simp add: st1_def update_jobs_def)
  have e: "exit_status (last_exit_code st1)" using keeps_inv [OF k inv] by (simp add: session_inv_def)
  have t: "keeps st (st1\<lparr>should_exit := True\<rparr>)" using k by (simp add: keeps_def session_inv_def)
  have n: "keeps st (st1\<lparr>last_exit_code := n, should_exit := True\<rparr>)" if "exit_status n" for n
    using k that by (simp add: keeps_def session_inv_def)
  have "good st (case parse_intmax_t (cc_argv call ! 1) of
      Inl msg \<Rightarrow> (1, dprintf (cc_stderr call) msg st1)
    | Inr v \<Rightarrow> if v < 0 \<or> v > 255 then (1, dprintf (cc_stderr call) (m v) st1)
               else (v, st1\<lparr>last_exit_code := v, should_exit := True\<rparr>))" for m
    using k n by (simp add: exit_status_def split: sum.split)
  then show ?thesis
    using k e t unfolding exit_command_def st1_def [symmetric] Let_def by simp
qed

lemma keeps_get_job: "get_job s fd st = (r, st') \<Longrightarrow> keeps st st'"
  by (rule keeps_same_globals) (rule same_globals_get_job)

lemma keeps_kill_query: "kill_query OS err p sig st1 = (r, st2) \<Longrightarrow> keeps st st1 \<Longrightarrow> keeps st st2"
  using keeps_same_globals [OF same_globals_kill_query] keeps_trans by blast

lemma good_kill: "good st (kill_command OS call st)"
proof -
  have "good st (kill_target OS call i sig st)" for i sig
    by (auto simp: kill_target_def Let_def keeps_get_job keeps_kill_query
        split: prod.split option.split sum.split intro: keeps_kill_query keeps_get_job)
  then show ?thesis
    by (simp add: kill_command_def split: sum.split)
qed

text \<open>\<^verbatim>\<open>fg\<close> and \<^verbatim>\<open>bg\<close> on a job of the table.\<close>

lemma put_job_in_foreground_keeps:
  assumes "session_inv st" and "jobs_of st (i + 1) = Some j"
    and "put_job_in_foreground OS (Some i) st = (r, st')"
  shows "keeps st st'"
proof -
  have i: "i < job_table_capacity st" "job_table st ! i = Some j"
    using assms(2) by (auto simp: jobs_of_def split: if_splits)
  obtain a st1 where s1: "sys_tcsetpgrp OS STDERR_FILENO (job_pgid j) st = (a, st1)" by fastforce
  obtain b st2 where s2: "sys_kill OS (- job_pgid j) SIGCONT st1 = (b, st2)" by fastforce
  obtain code j' st3 where s3: "blocking_wait_for_job OS j st2 = (code, j', st3)" by (metis prod_cases3)
  define st4 where "st4 = st3\<lparr>job_table := (job_table st3)[i := Some j']\<rparr>"
  define st5 where "st5 = (if is_job_finished (Some j') then snd (remove_job (job_id j') st4)
                            else print_job j' STDERR_FILENO st4)"
  obtain pg st6 where s6: "sys_getpgrp OS st5 = (pg, st6)" by fastforce
  obtain c st7 where s7: "sys_tcsetpgrp OS STDERR_FILENO pg st6 = (c, st7)" by fastforce
  have g12: "same_globals st st2" using s1 s2 by (auto simp: sys_defs same_globals_iff)
  have g3: "same_globals st st3"
    using g12 blocking_wait_for_job_frame(1) [OF s3] same_globals_trans by blast
  have wf3: "table_wf st3" "job_table st3 = job_table st"
    using g3 assms(1) table_wf_same_globals [OF g3] by (auto simp: session_inv_def same_globals_iff)
  then have wf4: "table_wf st4"
    using table_wf_put [of st3 i j j'] i blocking_wait_for_job_frame(2) [OF s3]
    by (simp add: st4_def same_job_def)
  have k4: "keeps st st4"
    using g3 wf4 by (auto simp: keeps_def session_inv_def st4_def same_globals_iff)
  have k5: "keeps st4 st5"
  proof (cases "is_job_finished (Some j')")
    case True
    obtain r5 where r5: "remove_job (job_id j') st4 = (r5, st5)"
      using True by (cases "remove_job (job_id j') st4") (simp add: st5_def)
    show ?thesis
      by (rule table_only_keeps [OF remove_job_correct(2) [OF wf4 r5] table_only_update [OF remove_job_correct(5) [OF wf4 r5]]])
  next
    case False
    then show ?thesis by (simp add: st5_def print_job_def)
  qed
  have "keeps st st1" "keeps st st2" "keeps st st5" "keeps st st6" "keeps st st7"
    using keeps_sys(3) [OF s2] keeps_sys(10) [OF s1] keeps_trans [OF k4 k5] keeps_sys(9) [OF s6] keeps_sys(10) [OF s7]
      keeps_trans by blast+
  then show ?thesis
    using assms(3) k4 i(2) s1 s2 s3 s6 s7 unfolding st5_def st4_def
    by (auto simp: Let_def simp del: is_job_finished.simps split: if_split_asm prod.splits)
qed

lemma good_fg_bg:
  assumes "session_inv st"
  shows "good st (fg_command OS call st)" and "good st (bg_command OS call st)"
proof -
  obtain j st1 where g: "get_job (cc_argv call ! 1) (cc_stderr call) st = (j, st1)" by fastforce
  have k: "keeps st st1" by (rule keeps_get_job [OF g])
  have job: "st1 = st \<and> (\<exists>j. jobs_of st (i + 1) = Some j)" if "j = Some i" for i
    using g that get_job_step [of st "cc_argv call ! 1" "cc_stderr call"] assms
    by (auto simp: session_inv_def jobs_of_def split: if_splits sum.splits)
  have "keeps st (snd (put_job_in_foreground OS (Some i) st1))" if "j = Some i" for i
    using job [OF that] put_job_in_foreground_keeps [OF assms] by (metis surjective_pairing)
  moreover have "keeps st (snd (continue_job_in_background OS (Some i) st1))" for i
    using k keeps_sys(3) keeps_trans by (fastforce simp: Let_def split: prod.split)
  ultimately show "good st (fg_command OS call st)" "good st (bg_command OS call st)"
    using k by (cases j; simp add: fg_command_def bg_command_def g [simplified] good_def case_prod_beta
        del: put_job_in_foreground.simps continue_job_in_background.simps)+
qed

text \<open>
  The walk over the processes for \<^verbatim>\<open>jobs\<close> may read out of bounds or never end, but meets no
  null pointer.
\<close>

definition walk_faults :: "ub set" where
  "walk_faults = {Out_Of_Bounds, Diverges}"

lemma walk_faults_simps [simp]:
  "Out_Of_Bounds \<in> walk_faults" "Diverges \<in> walk_faults" "Null_Deref \<notin> walk_faults"
  "walk_faults \<subseteq> command_faults"
  by (simp_all add: walk_faults_def command_faults_def)

lemma keeps_read_all:
  "read_all OS fd buf n s st = Some r \<Longrightarrow> yields walk_faults r (\<lambda>(s, st'). keeps st st')"
proof (induction rule: read_all.raw_induct [rotated 1, consumes 1, case_names step])
  case (step rec OS fd buf n s st r)
  obtain b st1 where b: "sys_read OS fd BUFSIZ st = (b, st1)" by fastforce
  have k: "keeps st st1" by (rule keeps_sys(5) [OF b])
  have rec: "rec OS fd buf n s st1 = Some r \<Longrightarrow> yields walk_faults r (\<lambda>(s, st'). keeps st st')" for buf n s
    using step.IH [of OS fd buf n s st1 r] keeps_trans [OF k] by (auto elim: yields_mono)
  have c: "keeps st (sys_close fd (perror OS m st1))" for m
    using k by (simp add: sys_close_def)
  show ?case
  proof (cases b)
    case None
    then have "r = Inr (None, sys_close fd (perror OS ''read'' st1))" using step.hyps by (simp add: b)
    then show ?thesis using c by simp
  next
    case (Some bytes)
    define buf' where "buf' = bytes @ drop (length bytes) buf"
    define s' where "s' = (if n + length bytes = 0 then s else snprintf2 (n + length bytes) s (c_string buf'))"
    have "(if length buf' \<ge> BUFSIZ \<and> CHR 0x00 \<notin> set buf' then Some (Inl Out_Of_Bounds)
           else if length bytes = 0 then Some (Inr (Some (take (n + length bytes) s'), st1))
           else rec OS fd buf' (n + length bytes) s' st1) = Some r"
      using step.hyps by (simp add: b Some Let_def buf'_def s'_def cong: if_cong)
    then show ?thesis using rec k by (auto split: if_split_asm)
  qed
qed

lemma keeps_parse_children: "parse_children ws st = (r, st') \<Longrightarrow> keeps st st'"
  by (induction ws arbitrary: r st') (auto split: sum.splits if_splits prod.splits)

lemma keeps_get_children:
  assumes "get_children OS p st = Some r"
  shows "yields walk_faults r (\<lambda>(s, st'). keeps st st')"
proof -
  obtain fd st1 where o: "sys_open OS (children_path p) [O_RDONLY] st = (fd, st1)" by fastforce
  have k: "keeps st st1" by (rule keeps_sys(1) [OF o])
  show ?thesis
  proof (cases "fd < 0")
    case True
    then show ?thesis using assms o k by (auto simp: get_children_def)
  next
    case False
    then obtain r1 where r1: "read_all OS fd [] 0 [] st1 = Some r1"
      and r: "r = bindU r1 (\<lambda>(s, st). case s of None \<Rightarrow> Inr (None, st)
         | Some s \<Rightarrow> bindU (split_string s '' '') (\<lambda>ws.
             Inr (parse_children (case ws of None \<Rightarrow> [] | Some ws \<Rightarrow> ws) (sys_close fd st))))"
      using assms o by (auto simp: get_children_def split: Option.bind_splits)
    have "keeps st (snd (parse_children ws (sys_close fd st2)))" if "keeps st1 st2" for ws st2
    proof -
      have "keeps st2 (sys_close fd st2)" by (rule keeps_sys(11))
      then show ?thesis
        using keeps_parse_children [of ws "sys_close fd st2"] keeps_trans k that by (metis surjective_pairing)
    qed
    then show ?thesis
      unfolding r using keeps_trans [OF k]
      by (intro yields_bind [OF keeps_read_all [OF r1]])
        (auto simp: split_string_words case_prod_beta split: option.split)
  qed
qed

lemma keeps_print_children_loop:
  "print_children_loop OS j n fd children st = Some r \<Longrightarrow> yields walk_faults r (keeps st)"
proof (induction rule: print_children_loop.raw_induct [rotated 1, consumes 1, case_names step])
  case (step rec OS j n fd children st r)
  show ?case
  proof (cases children)
    case Nil
    then have "r = Inr st" using step.hyps by simp
    then show ?thesis by simp
  next
    case (Cons child rest)
    define st1 where "st1 = dprintf fd (tab @ repeat_str tab n @ ''| '' @ tab @ show_int child @ tab @
                               job_status_to_string (sj_last_status j) @ tab @ sj_command j @ nl) st"
    have k1: "keeps st st1" by (simp add: st1_def)
    have body: "Option.bind (get_children OS child st1) (\<lambda>r. case r of Inl u \<Rightarrow> Some (Inl u)
       | Inr (cs, st) \<Rightarrow> Option.bind (rec OS j (n + 1) fd (case cs of None \<Rightarrow> [] | Some cs \<Rightarrow> cs) st) (\<lambda>r.
           case r of Inl u \<Rightarrow> Some (Inl u) | Inr st \<Rightarrow> rec OS j n fd rest st)) = Some r"
      using step.hyps unfolding Cons list.case Let_def st1_def .
    then obtain r1 where r1: "get_children OS child st1 = Some r1" by (auto split: Option.bind_splits)
    show ?thesis
    proof (cases r1)
      case (Inl u)
      then show ?thesis
        using body r1 keeps_get_children [OF r1] by auto
    next
      case (Inr p)
      obtain cs st2 where p: "p = (cs, st2)" by fastforce
      have k2: "keeps st st2"
        using keeps_get_children [OF r1] keeps_trans [OF k1] by (simp add: Inr p)
      obtain r2 where r2: "rec OS j (n + 1) fd (case cs of None \<Rightarrow> [] | Some cs \<Rightarrow> cs) st2 = Some r2"
        and r: "(case r2 of Inl u \<Rightarrow> Some (Inl u) | Inr st \<Rightarrow> rec OS j n fd rest st) = Some r"
        using body r1 Inr p by (auto split: Option.bind_splits)
      have y2: "yields walk_faults r2 (keeps st2)" by (rule step.IH [OF r2])
      show ?thesis
      proof (cases r2)
        case (Inl u)
        then show ?thesis using r y2 by auto
      next
        case (Inr st3)
        then have "keeps st st3" using y2 keeps_trans [OF k2] by simp
        moreover have "yields walk_faults r (keeps st3)" using step.IH r Inr by simp
        ultimately show ?thesis using keeps_trans by (auto elim: yields_mono)
      qed
    qed
  qed
qed

lemma keeps_print_children: "yields walk_faults (finished (print_children OS j q n fd st)) (keeps st)"
proof (cases "get_children OS q st")
  case None
  then show ?thesis by (simp add: print_children_def finished_def)
next
  case (Some r)
  note g = keeps_get_children [OF Some]
  show ?thesis
  proof (cases r)
    case (Inl u)
    then show ?thesis using g by (simp add: print_children_def Some)
  next
    case (Inr p)
    obtain cs st1 where p: "p = (cs, st1)" by fastforce
    define cs' where "cs' = (case cs of None \<Rightarrow> [] | Some cs \<Rightarrow> cs)"
    have k: "keeps st st1" using g by (simp add: Inr p)
    have "print_children OS j q n fd st = print_children_loop OS j n fd cs' st1"
      by (simp add: print_children_def Some Inr p cs'_def)
    then show ?thesis
      using keeps_print_children_loop [of OS j n fd cs' st1] keeps_trans [OF k]
      by (cases "print_children_loop OS j n fd cs' st1") (auto simp: finished_def elim: yields_mono)
  qed
qed

lemma keeps_print_job [simp]: "keeps st (print_job j fd st)"
  by (simp add: print_job_def)

lemma keeps_print_job_tree: "yields command_faults (print_job_tree_loop OS j fd index subjobs st) (keeps st)"
proof (induction subjobs arbitrary: index st)
  case (Cons s subjobs)
  define st1 where "st1 = (if index = 0 then dprintf fd (''['' @ show_nat (job_id j) @ '']'') st else st)"
  show ?case
  proof (cases s)
    case None
    then show ?thesis by (simp add: Let_def)
  next
    case (Some t)
    have k: "keeps st (print_subjob t fd st1)" by (simp add: print_subjob_def st1_def)
    have "yields command_faults (bindU (finished (print_children OS t (sj_pid t) 0 fd (print_subjob t fd st1)))
            (print_job_tree_loop OS j fd (index + 1) subjobs)) (keeps st)"
      by (rule inv_frame.later [OF k], rule inv_frame.bind [OF yields_widen [OF keeps_print_children]])
        (simp, rule Cons.IH)
    then show ?thesis by (simp add: Some st1_def Let_def)
  qed
qed simp

lemma keeps_print_jobs: "yields command_faults (print_jobs OS tree fd slots st) (keeps st)"
proof (induction OS tree fd slots st rule: print_jobs.induct)
  case (3 OS tree fd j slots st)
  have "yields command_faults (if tree then print_job_tree OS j fd st else Inr (print_job j fd st)) (keeps st)"
    using keeps_print_job_tree by (simp add: print_job_tree_def)
  then show ?case
    unfolding print_jobs.simps
    by (rule inv_frame.bind) (rule "3.IH")
qed simp_all

lemma good_jobs: "session_inv st \<Longrightarrow> good_result st (jobs_command OS call st)"
proof -
  assume inv: "session_inv st"
  define st1 where "st1 = fd_update_jobs OS (cc_stdout call) st"
  have k: "keeps st st1" using inv by (simp add: st1_def)
  have tree: "good_result st (bindU (print_job_tree OS j fd st2) (\<lambda>st. Inr (0, st)))" if "keeps st st2" for j fd st2
    unfolding print_job_tree_def
    by (rule yields_bind [OF keeps_print_job_tree]) (use keeps_trans [OF that] in auto)
  have all: "good_result st (bindU (print_jobs OS t fd slots st1) (\<lambda>st. Inr (0, st)))" for t fd slots
    by (rule yields_bind [OF keeps_print_jobs]) (use keeps_trans [OF k] in auto)
  have one: "keeps st st2" if "get_job w fd st1 = (j, st2)" for w fd j st2
    using keeps_get_job [OF that] keeps_trans [OF k] by blast
  have print: "keeps st (print_job j fd st2)" if "keeps st st2" for j fd st2
    using keeps_trans [OF that keeps_print_job] .
  show ?thesis
    unfolding jobs_command_def st1_def [symmetric] Let_def
    using k tree all one print
    by (auto split: prod.split option.split simp del: fd_update_jobs_def)
qed

lemma good_internal:
  assumes "session_inv st"
  shows "good_result st (execute_internal_command OS call st)"
  unfolding execute_internal_command_def
  using good_cd good_pwd good_last_exit_code good_kill good_exit [OF assms] good_fg_bg [OF assms] good_jobs [OF assms]
  by (simp add: good_def case_prod_beta)

section \<open>Processes\<close>

text \<open>The triple of \<open>Prelude\<close> for a process that may also end in \<^verbatim>\<open>exit\<close> or \<^verbatim>\<open>execvp\<close>.\<close>

definition yieldsP :: "ub set \<Rightarrow> 'a proc \<Rightarrow> ('a \<Rightarrow> bool) \<Rightarrow> bool" where
  "yieldsP U m Q \<longleftrightarrow> yields U m (\<lambda>r. \<forall>x. r = Running x \<longrightarrow> Q x)"

lemma yieldsP_simps [simp]:
  "yieldsP U (Inl u) Q \<longleftrightarrow> u \<in> U" "yieldsP U (ret x) Q \<longleftrightarrow> Q x"
  "yieldsP U (Inr (Exited n st)) Q" "yieldsP U (Inr (Replaced p args st)) Q"
  "yieldsP U (lift_cres m) R \<longleftrightarrow> yields U m R"
  by (cases m; simp add: yieldsP_def)+

lemma yieldsP_bind:
  assumes "yieldsP U m R" and "\<And>x. m = ret x \<Longrightarrow> R x \<Longrightarrow> yieldsP U (f x) Q"
  shows "yieldsP U (bindP m f) Q"
proof (cases m)
  case (Inr r)
  with assms show ?thesis by (cases r) auto
qed (use assms(1) in simp)

lemma yieldsP_mono: "yieldsP U m R \<Longrightarrow> (\<And>x. R x \<Longrightarrow> Q x) \<Longrightarrow> yieldsP U m Q"
  by (auto simp: yieldsP_def elim: yields_mono)

lemma yieldsP_InrD: "yieldsP U m Q \<Longrightarrow> m = ret x \<Longrightarrow> Q x"
  by simp

lemma yieldsP_set_signals: "yieldsP {} (set_signal_actions_loop OS h sigs st) (\<lambda>_. True)"
  by (induction sigs arbitrary: st) (auto split: prod.split)

lemma yieldsP_exec: "yieldsP U (exec_call OS call st) Q"
  by (auto simp: exec_call_def Let_def split: prod.split)

text \<open>A call of a parsed command knows its pipes, so that the child may look them up.\<close>

definition knows_pipes :: "command \<Rightarrow> command_call \<Rightarrow> bool" where
  "knows_pipes cmd call \<longleftrightarrow>
     cmd_open_pipes cmd = [] \<or> cc_reading_pipes call \<noteq> None \<and> cc_writing_pipes call \<noteq> None"

lemma command_tree_knows_pipes: "command_tree st cmd \<Longrightarrow> a \<in> set (cmd_calls cmd) \<Longrightarrow> knows_pipes cmd (the_call st a)"
  by (auto simp: command_tree_def wired_def writes_at_most_one_def knows_pipes_def)

lemma yieldsP_child:
  assumes "knows_pipes cmd call"
  shows "yieldsP U (child_process OS cmd call p1 p2 st) Q"
proof -
  have r: "yields U (close_reading_pipes (Some cmd) (Some call) st) (\<lambda>_. True)"
    and w: "yields U (close_writing_pipes (Some cmd) (Some call) st) (\<lambda>_. True)" for st
    using assms by (auto simp: close_reading_pipes_def close_writing_pipes_def knows_pipes_def)
  have s: "yieldsP U (restore_signals OS st) (\<lambda>_. True)" for st
    using yieldsP_set_signals [of OS SIG_DFL signals_to_ignore st]
    unfolding restore_signals_def set_signal_actions_def yieldsP_def
    by (rule yields_widen) simp
  show ?thesis
    unfolding child_process_def Let_def
    by (auto split: prod.split option.split intro!: yieldsP_bind [OF _ yieldsP_exec]
        yieldsP_bind [of U "lift_cres m" "\<lambda>_. True" for m] simp: r w s intro: s)
qed

text \<open>
  How the process may end elsewhere than at the end of \<^verbatim>\<open>main\<close>: with status 1, in a child, or
  right after the kernel has refused to give the terminal or to set a signal; and in another
  program only in a child.
\<close>

fun refused :: "history \<Rightarrow> bool" where
  "refused (Ev_Write fd msg # Ev_Tcsetpgrp fd' pg r # h) \<longleftrightarrow> r = -1"
| "refused (Ev_Write fd msg # Ev_Sigaction sig handler r # h) \<longleftrightarrow> r = -1"
| "refused h \<longleftrightarrow> False"

definition forked :: "shell \<Rightarrow> bool" where
  "forked st \<longleftrightarrow> Ev_Fork 0 \<in> set (trace st)"

fun ends_well :: "'a proc \<Rightarrow> bool" where
  "ends_well (Inr (Exited n st)) \<longleftrightarrow> n = 1 \<and> (forked st \<or> refused (trace st))"
| "ends_well (Inr (Replaced prog args st)) \<longleftrightarrow> forked st"
| "ends_well m \<longleftrightarrow> True"

lemma ends_well_lift [simp]: "ends_well (lift_cres m)"
  by (cases m) simp_all

lemma ends_well_bind: "ends_well m \<Longrightarrow> (\<And>x. m = ret x \<Longrightarrow> ends_well (f x)) \<Longrightarrow> ends_well (bindP m f)"
  by (cases m rule: ends_well.cases) simp_all

lemma ends_well_signals: "ends_well (set_signal_actions_loop OS h sigs st)"
  by (induction sigs arbitrary: st) (auto simp: sys_defs split: prod.split)

lemma ends_well_exec: "forked st \<Longrightarrow> ends_well (exec_call OS call st)"
  by (auto simp: exec_call_def sys_defs forked_def split: prod.split)

lemma ends_well_child:
  assumes "forked st"
  shows "ends_well (child_process OS cmd call p1 p2 st :: 'a proc)"
proof -
  have r: "forked st2" if "close_reading_pipes (Some cmd) (Some call) st1 = Inr st2" "forked st1" for st1 st2
    using that by (auto simp: close_reading_pipes_def close_unlisted_trace forked_def split: if_splits option.splits)
  have w: "forked st2" if "close_writing_pipes (Some cmd) (Some call) st1 = Inr st2" "forked st1" for st1 st2
    using that by (auto simp: close_writing_pipes_def close_unlisted_trace forked_def split: if_splits option.splits)
  have s: "forked st2" if "restore_signals OS st1 = ret st2" "forked st1" for st1 st2
    using set_signal_actions_loop_trace [OF that(1) [unfolded restore_signals_def set_signal_actions_def]] that(2)
    by (auto simp: forked_def)
  have k: "forked (st1\<lparr>trace := e # trace st1\<rparr>)" if "forked st1" for e st1
    using that by (simp add: forked_def)
  have tail: "ends_well (bindP (lift_cres (close_reading_pipes (Some cmd) (Some call) st1)) (\<lambda>st.
      bindP (lift_cres (close_writing_pipes (Some cmd) (Some call) st)) (\<lambda>st.
        let (r, st) = (if \<not> cmd_background cmd then sys_tcsetpgrp OS STDERR_FILENO pgid st else (0, st))
        in if r = -1 then Inr (Exited 1 (perror OS ''tcsetpgrp'' st))
           else bindP (restore_signals OS st) (exec_call OS call :: shell \<Rightarrow> 'a proc))))" if "forked st1" for st1 pgid
  proof (intro ends_well_bind ends_well_lift)
    fix st2 st3 assume "lift_cres (close_reading_pipes (Some cmd) (Some call) st1) = ret st2"
      and "lift_cres (close_writing_pipes (Some cmd) (Some call) st2) = ret st3"
    then have f: "forked st3" using r w that by simp
    have run: "ends_well (bindP (restore_signals OS st4) (exec_call OS call :: shell \<Rightarrow> 'a proc))" if "forked st4" for st4
      using s [OF _ that] by (intro ends_well_bind ends_well_exec)
        (simp_all add: restore_signals_def set_signal_actions_def ends_well_signals)
    show "ends_well (let (r, st) = (if \<not> cmd_background cmd then sys_tcsetpgrp OS STDERR_FILENO pgid st3 else (0, st3))
        in if r = -1 then Inr (Exited 1 (perror OS ''tcsetpgrp'' st))
           else bindP (restore_signals OS st) (exec_call OS call :: shell \<Rightarrow> 'a proc))"
      using f k [OF f] run by (auto simp: sys_defs k)
  qed
  have sys: "forked (sys_close fd st1)" "forked (perror OS m st1)"
    "sys_read_int OS fd st1 = (r1, st2) \<Longrightarrow> forked st2" "sys_setpgid OS p pg st1 = (r2, st2) \<Longrightarrow> forked st2"
    "sys_write_int OS fd v st1 = (r3, st2) \<Longrightarrow> forked st2" if "forked st1" for fd m p pg v st1 st2 r1 r2 r3
    using that by (auto simp: sys_defs forked_def)
  define st1 where "st1 = sys_close (fst p2) (sys_close (snd p1) st)"
  have f1: "forked st1" unfolding st1_def by (intro sys(1) assms)
  obtain r2 st2 where s2: "sys_read_int OS (fst p1) st1 = (r2, st2)" by fastforce
  note f2 = sys(3) [OF f1 s2]
  show ?thesis
  proof (cases r2)
    case None
    then show ?thesis using sys(2) [OF f2] by (simp add: child_process_def st1_def [symmetric] s2)
  next
    case (Some pgid)
    obtain r3 st3 where s3: "sys_setpgid OS 0 pgid (sys_close (fst p1) st2) = (r3, st3)" by fastforce
    obtain r4 st4 where s4: "sys_write_int OS (snd p2) pgid st3 = (r4, st4)" by fastforce
    note f3 = sys(4) [OF sys(1) [OF f2] s3]
    note f4 = sys(5) [OF f3 s4]
    show ?thesis
      using sys(2) [OF f3] sys(2) [OF f4] tail [OF sys(1) [OF f4]]
      unfolding child_process_def Let_def st1_def [symmetric] s2 prod.case Some option.case s3 s4
      by simp
  qed
qed

lemma ends_well_single: "ends_well (execute_single_command OS cmd call j st)"
proof -
  have i: "ends_well (bindP (lift_cres (execute_internal_command OS call st)) (\<lambda>(exit_code, st).
             ret (Some (new_internal_exit_info UNINITIALIZED_PID exit_code), j, st)))"
    by (rule ends_well_bind) auto
  have p: "ends_well (parent_process OS p p1 p2 j st1)" for p p1 p2 st1
    using parent_process_returns [of OS p p1 p2 j st1] by auto
  have c: "ends_well (child_process OS cmd call p1 p2 st2)" if "sys_fork OS st1 = (0, st2)" for p1 p2 st1 st2
    using that by (intro ends_well_child) (auto simp: sys_defs forked_def)
  show ?thesis
    unfolding execute_single_command_def Let_def
    using i p c by (auto split: prod.split option.split)
qed

lemma ends_well_calls: "ends_well (execute_calls OS cmd i calls info j st)"
proof (induction calls arbitrary: i info j st)
  case (Cons a calls)
  show ?case
    unfolding execute_calls.simps
    by (intro ends_well_bind ends_well_lift ends_well_single) (auto simp: Let_def Cons.IH split: option.split)
qed simp

lemma ends_well_external: "ends_well (execute_external_command OS cmd st)"
  unfolding execute_external_command_def Let_def execute_as_job_def
  by (intro ends_well_bind ends_well_calls) (auto simp: sys_defs split: prod.split option.split)

lemma ends_well_command: "ends_well (execute_command OS cmd st)"
  unfolding execute_command_def
  by (intro ends_well_bind ends_well_lift) (auto intro!: ends_well_bind ends_well_external split: option.split)

lemma ends_well_commands: "ends_well (execute_commands OS commands st)"
proof (induction OS commands st rule: execute_commands.induct)
  case (3 OS cmd commands st)
  show ?case
    unfolding execute_commands.simps
    by (intro ends_well_bind ends_well_command) (auto intro!: ends_well_bind "3.IH")
qed simp_all

lemma ends_well_round: "ends_well (prompt_round OS st)"
  unfolding prompt_round_def Let_def
  by (auto intro!: ends_well_bind ends_well_commands split: prod.split option.split)

definition good_info :: "shell \<Rightarrow> internal_exit_info option \<times> job \<times> shell \<Rightarrow> bool" where
  "good_info st r \<longleftrightarrow>
     (case r of (info, j, st') \<Rightarrow>
        keeps st st' \<and> (\<forall>i. info = Some i \<longrightarrow> ie_exit_code i = UNINITIALIZED_EXIT_CODE \<or> exit_status (ie_exit_code i)))"

lemma good_infoI:
  "keeps st st' \<Longrightarrow> (\<And>i. info = Some i \<Longrightarrow> ie_exit_code i = UNINITIALIZED_EXIT_CODE \<or> exit_status (ie_exit_code i)) \<Longrightarrow>
     good_info st (info, j, st')"
  by (simp add: good_info_def)

lemma good_parent: "yieldsP U (parent_process OS p p1 p2 j st) (good_info st)"
proof -
  have "parent_process OS p p1 p2 j st = ret (info, j', st') \<Longrightarrow> same_globals st st' \<and>
      (\<forall>i. info = Some i \<longrightarrow> ie_exit_code i = UNINITIALIZED_EXIT_CODE)" for info j' st'
    by (auto simp: parent_process_def sys_defs same_globals_iff new_internal_exit_info_def
        split: if_splits option.splits)
  moreover obtain info j' st' where "parent_process OS p p1 p2 j st = ret (info, j', st')"
    using parent_process_returns [of OS p p1 p2 j st] by (metis prod_cases3)
  ultimately show ?thesis by (simp add: good_info_def keeps_same_globals)
qed

lemma good_single:
  assumes "session_inv st" and "knows_pipes cmd call"
  shows "yieldsP command_faults (execute_single_command OS cmd call j st) (good_info st)"
proof (cases "is_internal_command call")
  case True
  have i: "yieldsP command_faults (lift_cres (execute_internal_command OS call st))
      (\<lambda>(n, st'). exit_status n \<and> keeps st st')"
    using good_internal [OF assms(1)] by simp
  have "execute_single_command OS cmd call j st =
      bindP (lift_cres (execute_internal_command OS call st)) (\<lambda>(exit_code, st).
        ret (Some (new_internal_exit_info UNINITIALIZED_PID exit_code), j, st))"
    using True by (simp add: execute_single_command_def)
  moreover have "yieldsP command_faults \<dots> (good_info st)"
    by (rule yieldsP_bind [OF i]) (auto simp: good_info_def new_internal_exit_info_def)
  ultimately show ?thesis by simp
next
  case False
  obtain p1 st1 where s1: "sys_pipe OS st = (p1, st1)" by fastforce
  obtain p2 st2 where s2: "sys_pipe OS st1 = (p2, st2)" by fastforce
  obtain p st3 where s3: "sys_fork OS st2 = (p, st3)" by fastforce
  have k: "keeps st st1" "keeps st st2" "keeps st st3"
    using keeps_sys(2) [OF s1] keeps_sys(2) [OF s2] keeps_sys(6) [OF s3] keeps_trans by blast+
  have par: "yieldsP command_faults (parent_process OS p a b j st3) (good_info st)" for a b
    by (rule yieldsP_mono [OF good_parent]) (use keeps_trans [OF k(3)] in \<open>auto simp: good_info_def\<close>)
  show ?thesis
    using False k par yieldsP_child [OF assms(2)]
    by (auto simp: execute_single_command_def s1 s2 s3 good_info_def split: option.split)
qed

lemma good_calls:
  assumes "session_inv st" and "\<forall>a \<in> set calls. live st a \<and> knows_pipes cmd (the_call st a)"
    and "\<forall>i. info = Some i \<longrightarrow> ie_exit_code i = UNINITIALIZED_EXIT_CODE \<or> exit_status (ie_exit_code i)"
  shows "yieldsP command_faults (execute_calls OS cmd i calls info j st) (good_info st)"
  using assms
proof (induction calls arbitrary: i info j st)
  case Nil
  then show ?case by (simp add: good_info_def)
next
  case (Cons a calls)
  have a: "read_call a st = Inr (the_call st a)" "knows_pipes cmd (the_call st a)"
    using Cons.prems(2) by (simp_all add: read_call_live)
  show ?case
    unfolding execute_calls.simps a(1) lift_cres_def bindU_Inr bindP_simps
  proof (rule yieldsP_bind [OF good_single [OF Cons.prems(1) a(2)]], clarify)
    fix info1 j1 st1 assume "good_info st (info1, j1, st1)"
    then have k: "keeps st st1" and e: "\<And>i. info1 = Some i \<Longrightarrow>
        ie_exit_code i = UNINITIALIZED_EXIT_CODE \<or> exit_status (ie_exit_code i)"
      by (simp_all add: good_info_def)
    show "yieldsP command_faults
       (case info1 of
          None \<Rightarrow> ret (None, j1, if job_pgid j1 \<noteq> 0 then snd (sys_kill OS (- job_pgid j1) SIGKILL st1) else st1)
        | Some info1 \<Rightarrow>
            let info = if i = 0 then Some (new_internal_exit_info (ie_pid info1) (ie_exit_code info1)) else info;
                j = if ie_pid info1 \<noteq> UNINITIALIZED_PID
                    then j1\<lparr>job_subjobs := (job_subjobs j1)
                              [i := Some (new_subjob (the_call st a) (ie_pid info1) RUNNING)]\<rparr>
                    else j1
            in execute_calls OS cmd (i + 1) calls info j st1) (good_info st)"
    proof (cases info1)
      case None
      have "keeps st (snd (sys_kill OS p sig st1))" for p sig
        using keeps_trans [OF k keeps_sys(3)] by (metis surjective_pairing)
      then show ?thesis using None k by (simp add: good_info_def)
    next
      case (Some i1)
      have "\<forall>a \<in> set calls. live st1 a \<and> knows_pipes cmd (the_call st1 a)"
        using Cons.prems(2) k by (auto simp: keeps_def live_iff the_call_def)
      then have IH: "yieldsP command_faults (execute_calls OS cmd (i + 1) calls info' j' st1) (good_info st)"
        if "\<forall>i. info' = Some i \<longrightarrow> ie_exit_code i = UNINITIALIZED_EXIT_CODE \<or> exit_status (ie_exit_code i)"
        for info' j'
        by (rule yieldsP_mono [OF Cons.IH [OF keeps_inv [OF k Cons.prems(1)] _ that]])
          (use keeps_trans [OF k] in \<open>auto simp: good_info_def\<close>)
      show ?thesis
        unfolding Some option.case Let_def
        by (rule IH) (use e [OF Some] Cons.prems(3) in \<open>auto simp: new_internal_exit_info_def\<close>)
    qed
  qed
qed

lemma keeps_close_pipes [simp]: "keeps st (close_pipes ps st)"
proof (induction ps arbitrary: st)
  case (Cons p ps)
  obtain rd wr where p: "p = (rd, wr)" by fastforce
  have "keeps st (sys_close wr (sys_close rd st))" using keeps_trans [OF keeps_sys(11) keeps_sys(11)] .
  then show ?case unfolding p close_pipes.simps using keeps_trans Cons.IH by blast
qed simp

lemma good_register:
  assumes "session_inv st" and "register_job j info result st = (result', st')"
  shows "keeps st st' \<and> r_exit_code result' = 0 \<and> r_command result' = r_command result"
proof -
  obtain n st1 where a: "add_job (Some j) st = (int n, st1)" "table_wf st1"
    "st1 = st\<lparr>job_table := job_table st1, job_table_size := job_table_size st1\<rparr>"
    using add_job_correct [of st j] assms(1) by (auto simp: session_inv_def)
  have "keeps st st1" by (rule table_only_keeps [OF a(2) table_only_update [OF a(3)]])
  then show ?thesis
    using assms(2) a(1) keeps_trans [OF _ keeps_print_job] by (auto simp: register_job_def Let_def simp del: add_job.simps)
qed

lemma blocking_wait_for_job_code:
  assumes "blocking_wait_for_job OS j st = (code, j', st')"
  shows "code = -1 \<or> 0 \<le> code \<and> code \<le> 255"
proof -
  obtain r sub st1 where w: "blocking_wait_loop OS 0 (job_subjobs j) 0 st = (r, sub, st1)"
    by (metis prod_cases3)
  show ?thesis
    using assms w blocking_wait_loop_code [of OS 0 "job_subjobs j" 0 st _ sub st1]
    by (cases r) (auto simp: blocking_wait_for_job_def Let_def split: prod.splits)
qed

definition good_outcome :: "command \<Rightarrow> shell \<Rightarrow> command_result \<times> shell \<Rightarrow> bool" where
  "good_outcome cmd st r \<longleftrightarrow>
     (case r of (result, st') \<Rightarrow>
        keeps st st' \<and> exit_status (r_exit_code result) \<and> r_command result = cmd)"

lemma good_external:
  assumes "session_inv st" and "\<forall>a \<in> set (cmd_calls cmd). live st a \<and> knows_pipes cmd (the_call st a)"
  shows "yieldsP command_faults (execute_external_command OS cmd st) (good_outcome cmd st)"
  unfolding execute_external_command_def Let_def execute_as_job_def
proof (rule yieldsP_bind [OF good_calls [OF assms, of None]], simp, clarify)
  fix info j st1 assume g: "good_info st (info, j, st1)"
  define st2 where "st2 = close_pipes (cmd_open_pipes cmd) st1"
  have k2: "keeps st st2"
    using g keeps_trans [OF _ keeps_close_pipes] by (simp add: good_info_def st2_def)
  have reg: "good_outcome cmd st (register_job j' i (new_command_result 1 cmd) st3)" if "keeps st st3" for j' i st3
    using good_register [OF keeps_inv [OF that assms(1)]] keeps_trans [OF that]
    by (cases "register_job j' i (new_command_result 1 cmd) st3")
      (fastforce simp: good_outcome_def new_command_result_def)
  show "yieldsP command_faults
     (case info of
        None \<Rightarrow> ret (new_command_result 1 cmd, close_pipes (cmd_open_pipes cmd) st1)
      | Some info \<Rightarrow>
          if \<not> cmd_background cmd
          then case blocking_wait_for_job OS j (close_pipes (cmd_open_pipes cmd) st1) of (exit_code, j, st) \<Rightarrow>
            case sys_getpgrp OS st of (pgrp, st) \<Rightarrow> case sys_tcsetpgrp OS STDERR_FILENO pgrp st of (r, st) \<Rightarrow>
              if r = -1 then Inr (Exited 1 (perror OS ''tcsetpgrp'' st))
              else if exit_code = -1 then ret (new_command_result 1 cmd, perror OS ''waitpid'' st)
              else if job_status j = DONE \<or> job_status j = KILLED \<or> job_status j = DETACHED
              then ret (new_command_result 1 cmd\<lparr>r_exit_code := (if has_exit_code (Some info)
                                                 then ie_exit_code info else exit_code)\<rparr>, st)
              else ret (register_job j info (new_command_result 1 cmd) st)
          else ret (register_job j info (new_command_result 1 cmd) (close_pipes (cmd_open_pipes cmd) st1)))
     (good_outcome cmd st)"
  proof (cases info)
    case None
    then show ?thesis using k2 by (simp add: good_outcome_def new_command_result_def st2_def)
  next
    case (Some i)
    obtain exit_code j' st3 where b: "blocking_wait_for_job OS j st2 = (exit_code, j', st3)" by (metis prod_cases3)
    obtain pgrp st4 where p: "sys_getpgrp OS st3 = (pgrp, st4)" by fastforce
    obtain r st5 where t: "sys_tcsetpgrp OS STDERR_FILENO pgrp st4 = (r, st5)" by fastforce
    have "keeps st st3" using keeps_trans [OF k2 keeps_same_globals [OF blocking_wait_for_job_frame(1) [OF b]]] .
    then have k5: "keeps st st5" using keeps_sys(9) [OF p] keeps_sys(10) [OF t] keeps_trans by blast
    have "exit_code = -1 \<or> exit_status exit_code" using blocking_wait_for_job_code [OF b] by (auto simp: exit_status_def)
    moreover have "ie_exit_code i = UNINITIALIZED_EXIT_CODE \<or> exit_status (ie_exit_code i)"
      using g by (simp add: good_info_def Some)
    ultimately have "good_outcome cmd st (new_command_result 1 cmd\<lparr>r_exit_code := (if has_exit_code (Some i)
                                                 then ie_exit_code i else exit_code)\<rparr>, st5)" if "exit_code \<noteq> -1"
      using that k5 by (auto simp: good_outcome_def new_command_result_def has_exit_code_def)
    moreover have "good_outcome cmd st (new_command_result 1 cmd, perror OS m st5)" for m
      using k5 by (simp add: good_outcome_def new_command_result_def)
    ultimately show ?thesis
      unfolding Some option.case st2_def [symmetric] b prod.case p t
      using reg [OF k5] reg [OF k2] by simp
  qed
qed

section \<open>Commands and lines\<close>

lemma good_command:
  assumes "session_inv st" and "command_tree st cmd"
  shows "yieldsP command_faults (execute_command OS cmd st)
     (\<lambda>(result, st'). \<exists>r. result = Some r \<and> r_command r = cmd \<and> keeps st st' \<and>
        last_exit_code st' = r_exit_code r)"
proof -
  have calls: "\<forall>a \<in> set (cmd_calls cmd). live st a \<and> knows_pipes cmd (the_call st a)"
    using assms(2) command_tree_knows_pipes [OF assms(2)] by (auto simp: command_tree_def)
  have internal: "yieldsP command_faults (lift_cres (if command_call_count cmd = 1
      then bindU (read_call (hd (cmd_calls cmd)) st)
             (\<lambda>call. Inr (if is_internal_command call then Some call else None))
      else Inr None)) (\<lambda>_. True)"
    using calls by (cases "cmd_calls cmd") (auto simp: read_call_live)
  have run: "yieldsP command_faults (case internal of
       Some call \<Rightarrow> bindP (lift_cres (execute_internal_command OS call st)) (\<lambda>(exit_code, st).
         ret (new_command_result exit_code cmd, st))
     | None \<Rightarrow> execute_external_command OS cmd st) (good_outcome cmd st)" for internal
  proof (cases internal)
    case None
    then show ?thesis using good_external [OF assms(1) calls] by simp
  next
    case (Some call)
    have "yieldsP command_faults (lift_cres (execute_internal_command OS call st))
        (\<lambda>(n, st'). exit_status n \<and> keeps st st')"
      using good_internal [OF assms(1)] by simp
    then show ?thesis
      unfolding Some option.case
      by (rule yieldsP_bind) (auto simp: good_outcome_def new_command_result_def)
  qed
  show ?thesis
    unfolding execute_command_def
  proof (rule yieldsP_bind [OF internal], rule yieldsP_bind [OF run], clarify)
    fix result st1 assume g: "good_outcome cmd st (result, st1)"
    then have k: "keeps st st1" by (simp add: good_outcome_def)
    then have "\<forall>a \<in> set (cmd_calls cmd). live st1 a" using calls by (auto simp: keeps_def live_iff)
    then obtain st2 where c: "close_unused_file_descriptors (Some cmd) st1 = Inr st2" and s: "same_globals st1 st2"
      using close_calls_live [of "cmd_calls cmd" st1 cmd] by (auto simp: close_unused_file_descriptors_def)
    have "keeps st (st2\<lparr>last_exit_code := r_exit_code result\<rparr>)"
      using keeps_trans [OF k keeps_same_globals [OF s]] g
      by (simp add: keeps_def session_inv_def good_outcome_def)
    then show "yieldsP command_faults (bindP (lift_cres (close_unused_file_descriptors (Some cmd) st1))
        (\<lambda>st. ret (Some result, update_command_history (Some result) st)))
        (\<lambda>(result, st'). \<exists>r. result = Some r \<and> r_command r = cmd \<and> keeps st st' \<and> last_exit_code st' = r_exit_code r)"
      using g by (simp add: c update_command_history_def good_outcome_def)
  qed
qed

text \<open>What a line does to the store: it frees each of its calls, and no other.\<close>

definition frees :: "addr set \<Rightarrow> shell \<Rightarrow> shell \<Rightarrow> bool" where
  "frees as st st' \<longleftrightarrow> length (call_heap st') = length (call_heap st) \<and>
     (\<forall>a < length (call_heap st). call_heap st' ! a = (if a \<in> as then None else call_heap st ! a))"

lemma command_tree_frees:
  assumes "command_tree st cmd" and "frees as st st'" and "set (cmd_calls cmd) \<inter> as = {}"
  shows "command_tree st' cmd"
proof -
  have "live st' a \<and> the_call st' a = the_call st a" if "a \<in> set (cmd_calls cmd)" for a
    using that assms by (auto simp: command_tree_def frees_def live_iff the_call_def)
  then show ?thesis using assms(1) by (simp add: command_tree_def cong: map_cong)
qed

text \<open>The loop over the commands destroys a command when it has been executed.\<close>

lemma destroy_executed:
  assumes "session_inv st" and tree: "command_tree st cmd" and k: "keeps st st1"
  defines "st2 \<equiv> st1\<lparr>call_heap := fold (\<lambda>a h. h[a := None]) (cmd_calls cmd) (call_heap st1)\<rparr>"
  shows "destroy_command (Some cmd) st1 = Inr st2" and "frees (set (cmd_calls cmd)) st st2"
    and "session_inv st2"
proof -
  have "\<forall>a \<in> set (cmd_calls cmd). live st1 a" and "distinct (cmd_calls cmd)"
    using tree k by (auto simp: command_tree_def keeps_def live_iff)
  then show "destroy_command (Some cmd) st1 = Inr st2"
    using destroy_calls_live [of "cmd_calls cmd" st1] by (simp add: destroy_command_def st2_def)
  show "frees (set (cmd_calls cmd)) st st2"
    using k by (simp add: frees_def st2_def keeps_def fold_free_nth)
  show "session_inv st2"
    using keeps_inv [OF k assms(1)] by (simp add: st2_def session_inv_def table_wf_def)
qed

lemma good_commands:
  assumes "session_inv st" and "\<forall>c \<in> set cmds. command_tree st c"
    and "distinct (concat (map cmd_calls cmds))"
  shows "yieldsP command_faults (execute_commands OS (map Some cmds) st)
     (\<lambda>st'. session_inv st' \<and> frees (set (concat (map cmd_calls cmds))) st st')"
  using assms
proof (induction cmds arbitrary: st)
  case Nil
  then show ?case by (simp add: frees_def)
next
  case (Cons cmd cmds)
  have tree: "command_tree st cmd" using Cons.prems(2) by simp
  show ?case
    unfolding list.map execute_commands.simps
  proof (rule yieldsP_bind [OF good_command [OF Cons.prems(1) tree]], clarify)
    fix r :: command_result and st1 assume k: "keeps st st1" and cmd: "cmd = r_command r"
    define st2 where "st2 = st1\<lparr>call_heap := fold (\<lambda>a h. h[a := None]) (cmd_calls cmd) (call_heap st1)\<rparr>"
    note destroyed = destroy_executed [OF Cons.prems(1) tree k, folded st2_def]
    have destroy: "destroy_command_result (Some r) st1 = Inr st2"
      using destroyed(1) by (simp add: destroy_command_result_def cmd [symmetric])
    note heap = destroyed(2) and inv = destroyed(3)
    have "\<forall>c \<in> set cmds. command_tree st2 c"
      using Cons.prems(2,3) command_tree_frees [OF _ heap] by (auto simp: disjoint_iff)
    then have IH: "yieldsP command_faults (execute_commands OS (map Some cmds) st2)
       (\<lambda>st'. session_inv st' \<and> frees (set (concat (map cmd_calls cmds))) st2 st')"
      using Cons.IH [OF inv] Cons.prems(3) by simp
    have "frees (set (concat (map cmd_calls (cmd # cmds)))) st st'"
      if "frees (set (concat (map cmd_calls cmds))) st2 st'" for st'
      using that heap by (auto simp: frees_def)
    with IH show "yieldsP command_faults (bindP (lift_cres (case Some r of
          Some r \<Rightarrow> destroy_command_result (Some r) st1 | None \<Rightarrow> destroy_command (Some (r_command r)) st1))
        (execute_commands OS (map Some cmds)))
        (\<lambda>st'. session_inv st' \<and> frees (set (concat (cmd_calls (r_command r) # map cmd_calls cmds))) st st')"
      by (auto simp: destroy cmd elim!: yieldsP_mono)
  qed
qed

lemma parse_pieces_exit_code:
  "parse_pieces OS lb index pieces abort st = Inr (cs, ab, trim, st') \<Longrightarrow>
     last_exit_code st' = last_exit_code st \<or> last_exit_code st' = 1"
proof (induction pieces arbitrary: index abort st cs ab trim)
  case (Cons piece pieces)
  show ?case
  proof (cases abort)
    case True
    then show ?thesis using Cons.prems Cons.IH by (fastforce simp: bindU_eq_Inr)
  next
    case False
    obtain cmd st1 where p: "parse_command OS piece st = Inr (cmd, st1)"
      using Cons.prems False by (auto simp: bindU_eq_Inr)
    have "parser_only st st1" using yields_InrD [OF parse_command_tree p] by simp
    then have e: "last_exit_code st1 = last_exit_code st" by (simp add: parser_only_iff)
    show ?thesis
    proof (cases cmd)
      case None
      have "last_exit_code st' = 1"
        if "parse_pieces OS lb i pieces ab1 (st1\<lparr>last_exit_code := 1\<rparr>) = Inr (cs1, ab2, trim1, st')"
        for i ab1 cs1 ab2 trim1
        using Cons.IH [OF that] by simp
      then show ?thesis
        using Cons.prems False p None by (auto simp: bindU_eq_Inr Let_def split: if_split_asm) blast
    next
      case (Some c)
      then show ?thesis
        using Cons.prems False p e Cons.IH [of _ _ st1] by (fastforce simp: bindU_eq_Inr)
    qed
  qed
qed simp

lemma parse_read_line_exit_code:
  assumes "parse_read_line OS s st = Inr (r, st')"
  shows "last_exit_code st' = last_exit_code st \<or> last_exit_code st' = 1"
  using assms parse_pieces_exit_code
  by (auto simp: parse_read_line_def bindU_eq_Inr split: if_split_asm option.splits) (blast+)?

lemma parse_read_line_inv:
  assumes "parse_read_line OS s st = Inr (r, st')" and "session_inv st"
  shows "session_inv st'"
proof -
  have "line_only st st'" using yields_InrD [OF parse_read_line_step assms(1)] by simp
  then have "table_wf st'" using assms(2) by (simp add: line_only_iff session_inv_def table_wf_def)
  then show ?thesis using parse_read_line_exit_code [OF assms(1)] assms(2) by (auto simp: session_inv_def)
qed

lemma keeps_prompt_string: "yields command_faults (get_prompt_string OS st) (\<lambda>(s, st'). keeps st st')"
proof -
  obtain d st1 where c: "get_current_wd OS st = (d, st1)" by fastforce
  have cwd: "get_current_wd OS st = (d, st') \<Longrightarrow> keeps st st'" for st d st'
    by (auto simp: get_current_wd_def Let_def split: prod.splits option.splits dest: keeps_sys(4))
  have sp: "yields command_faults (sprintf_checked n s) (\<lambda>_. True)" for n s by (simp add: sprintf_checked_def)
  have fr: "yields command_faults (c_free t) (\<lambda>_. True)" for t by (cases t) simp_all
  have tr: "yields command_faults (truncated_cwd OS n st1) (\<lambda>(t, st'). keeps st st')" for n
  proof -
    obtain d2 st2 where c2: "get_current_wd OS st1 = (d2, st2)" by fastforce
    have k: "keeps st st2" using keeps_trans [OF cwd [OF c] cwd [OF c2]] .
    have "yields command_faults (trunc_start (Some (cstr_text d2)) n) (\<lambda>_. True)"
      by (simp add: trunc_start_def)
    then show ?thesis
      unfolding truncated_cwd_def c2 Let_def prod.case
      by (rule yields_bind) (rule yields_bind [of _ _ "\<lambda>_. True"], use fr k in auto)
  qed
  show ?thesis
    unfolding get_prompt_string_def Let_def c prod.case
  proof (rule yields_bind [OF sp], rule yields_bind [of _ _ "\<lambda>(s, st'). keeps st st'"])
    fix total_jobs :: string
    show "yields command_faults
       (if length (cstr_text d) > size_t_minus (size_t_minus (size_t_minus LIMIT_PROMPT_SIZE (length total_jobs))
              (length ''...'')) (length ''$ '')
        then bindU (truncated_cwd OS (size_t_minus (size_t_minus (size_t_minus LIMIT_PROMPT_SIZE
              (length total_jobs)) (length ''...'')) (length ''$ '')) st1)
          (\<lambda>(trunc_pwd, st). case trunc_pwd of None \<Rightarrow> Inr (None, perror OS ''malloc(): prompt'' st)
             | Some t \<Rightarrow> bindU (sprintf_checked (3 * LIMIT_PROMPT_SIZE)
                 (the (in_yellow (Some total_jobs)) @ the (in_blue (Some ''...'')) @
                  the (in_blue (Some (cstr_text t))) @
                  the (if last_exit_code st1 \<noteq> 0 then in_red (Some ''$ '') else in_green (Some ''$ ''))))
                 (\<lambda>prompt_string. bindU (c_free t) (\<lambda>_. Inr (Some prompt_string, st))))
        else bindU (sprintf_checked (3 * LIMIT_PROMPT_SIZE)
               (the (in_yellow (Some total_jobs)) @ the (in_blue (Some (cstr_text d))) @
                the (if last_exit_code st1 \<noteq> 0 then in_red (Some ''$ '') else in_green (Some ''$ ''))))
               (\<lambda>prompt_string. Inr (Some prompt_string, st1))) (\<lambda>(s, st'). keeps st st')"
      using cwd [OF c]
      by (auto intro!: yields_bind [OF tr] yields_bind [OF sp] yields_bind [OF fr] split: option.split)
  next
    fix total_jobs x assume "(\<lambda>(s, st'). keeps st st') (x :: string option \<times> shell)"
    then show "yields command_faults (case x of (prompt_string, st) \<Rightarrow>
        case prompt_string of None \<Rightarrow> Inr (None, st) | Some s \<Rightarrow> bindU (c_free d) (\<lambda>_. Inr (Some s, st)))
        (\<lambda>(s, st'). keeps st st')"
      by (auto intro!: yields_bind [OF fr] split: option.split)
  qed
qed

section \<open>Rounds\<close>

lemma line_parsed_tree: "line_parsed s st st' cmds \<Longrightarrow> c \<in> set cmds \<Longrightarrow> command_tree st' c"
  unfolding line_parsed_def Let_def in_set_conv_nth by blast

text \<open>
  The line that a round from the state \<open>st\<close> on reads, and the state in which it is parsed; what
  can go wrong in the round: what the built-ins and the prompt do wrong, and what the parser
  does wrong on this very line.
\<close>

definition reads_line :: "os \<Rightarrow> shell \<Rightarrow> string \<Rightarrow> shell \<Rightarrow> bool" where
  "reads_line OS st line st' \<longleftrightarrow>
     (\<exists>ps st2. get_prompt_string OS (update_jobs OS st) = Inr (ps, st2) \<and>
        sys_readline OS (case ps of None \<Rightarrow> [] | Some s \<Rightarrow> s) st2 = (Some line, st'))"

definition round_faults :: "os \<Rightarrow> shell \<Rightarrow> ub set" where
  "round_faults OS st =
     command_faults \<union> {u. \<exists>line st3. reads_line OS st line st3 \<and> parse_read_line OS line st3 = Inl u}"

definition session_faults :: "ub set" where
  "session_faults = command_faults \<union> {Use_After_Free}"

lemma round_faults_le: "round_faults OS st \<subseteq> session_faults"
proof -
  have "u = Use_After_Free" if "parse_read_line OS line st3 = Inl u" for u line st3
    using parse_line_faults [OF that] by blast
  then show ?thesis by (auto simp: round_faults_def session_faults_def)
qed

lemma good_round:
  assumes "session_inv st"
  shows "yieldsP (round_faults OS st) (prompt_round OS st) session_inv"
proof -
  define U where "U = round_faults OS st"
  then have faults: "command_faults \<subseteq> U" by (simp add: round_faults_def)
  define st1 where "st1 = update_jobs OS st"
  have inv1: "session_inv st1" using keeps_inv [OF keeps_update_jobs assms] assms by (simp add: st1_def update_jobs_def)
  show ?thesis
    unfolding prompt_round_def Let_def st1_def [symmetric] U_def [symmetric]
  proof (rule yieldsP_bind [of _ _ "\<lambda>(s, st'). keeps st1 st'"])
    show "yieldsP U (lift_cres (get_prompt_string OS st1)) (\<lambda>(s, st'). keeps st1 st')"
      using yields_widen [OF keeps_prompt_string faults] by simp
  next
    fix x assume "(\<lambda>(s, st'). keeps st1 st') (x :: string option \<times> shell)"
    and got: "lift_cres (get_prompt_string OS st1) = ret x"
    then obtain ps st2 where x: "x = (ps, st2)" and k2: "keeps st1 st2" by (cases x) auto
    obtain line st3 where r: "sys_readline OS (case ps of None \<Rightarrow> [] | Some s \<Rightarrow> s) st2 = (line, st3)" by fastforce
    define buf where "buf = (case line of None \<Rightarrow> ''exit'' | Some l \<Rightarrow> l)"
    have inv3: "session_inv st3"
      using keeps_inv [OF keeps_trans [OF k2 keeps_sys(12) [OF r]] inv1] .
    have exit: "words ''exit'' ''&'' = [''exit'']" "words ''exit'' '' '' = [''exit'']" by code_simp+
    have faulty: "u \<in> U" if "parse_read_line OS buf st3 = Inl u" for u
    proof (cases line)
      case None
      have "redirects_inside [''exit''] = False" by code_simp
      then show ?thesis
        using parse_line_faults [OF that] exit None by (simp add: buf_def)
    next
      case (Some l)
      then have "reads_line OS st buf st3"
        using got r by (auto simp: reads_line_def x st1_def buf_def)
      then show ?thesis using that by (auto simp: U_def round_faults_def)
    qed
    have parse: "yields U (parse_read_line OS buf st3) (\<lambda>(cs, st4). session_inv st4 \<and>
        (\<forall>c. cs = Some c \<longrightarrow> (\<exists>cmds. c = map Some cmds \<and> line_parsed buf st3 st4 cmds)))"
      using parse_read_line_step [of buf OS st3] parse_read_line_inv [OF _ inv3] faulty
      by (cases "parse_read_line OS buf st3") auto
    have run: "yieldsP U (execute_commands OS c (add_history buf st4)) session_inv"
      if "session_inv st4" "c = map Some cmds" "line_parsed buf st3 st4 cmds" for c st4 cmds
    proof -
      have "keeps st4 (add_history buf st4)" by (rule keeps_sys(13))
      then have k: "session_inv (add_history buf st4)" "keeps_calls st4 (add_history buf st4)"
        using that(1) by (simp_all add: keeps_def keeps_calls_def)
      have "command_tree st4 c" if "c \<in> set cmds" for c
        using line_parsed_tree [OF \<open>line_parsed buf st3 st4 cmds\<close> that] .
      then have "\<forall>c \<in> set cmds. command_tree (add_history buf st4) c" using command_tree_keeps k(2) by blast
      moreover have "distinct (concat (map cmd_calls cmds))" using that(3) by (simp add: line_parsed_def Let_def)
      ultimately have "yieldsP command_faults (execute_commands OS c (add_history buf st4)) session_inv"
        using yieldsP_mono [OF good_commands [OF k(1)]] that(2) by simp
      then show ?thesis unfolding yieldsP_def by (rule yields_widen) (rule faults)
    qed
    show "yieldsP U (case x of (prompt_string, st) \<Rightarrow>
        case sys_readline OS (case prompt_string of None \<Rightarrow> [] | Some s \<Rightarrow> s) st of (line, st) \<Rightarrow>
          bindP (lift_cres (parse_read_line OS (case line of None \<Rightarrow> ''exit'' | Some l \<Rightarrow> l) st)) (\<lambda>(commands, st).
            case commands of None \<Rightarrow> ret st
            | Some cs \<Rightarrow> execute_commands OS cs (add_history (case line of None \<Rightarrow> ''exit'' | Some l \<Rightarrow> l) st)))
        session_inv"
      unfolding x prod.case r buf_def [symmetric]
      by (rule yieldsP_bind [of _ _ "\<lambda>(cs, st4). session_inv st4 \<and>
        (\<forall>c. cs = Some c \<longrightarrow> (\<exists>cmds. c = map Some cmds \<and> line_parsed buf st3 st4 cmds))"])
        (use parse run in \<open>auto split: option.split\<close>)
  qed
qed

lemma prompt_result:
  assumes "prompt OS st = Some r" and "session_inv st"
  shows "yieldsP session_faults r (\<lambda>st'. session_inv st' \<and> should_exit st')"
  using assms
proof (induction rule: prompt.raw_induct [rotated 1, consumes 1, case_names step])
  case (step rec OS st r)
  show ?case
  proof (cases "should_exit st")
    case True
    then have "r = ret st" using step.hyps by simp
    then show ?thesis using True step.prems by simp
  next
    case False
    have round: "yieldsP session_faults (prompt_round OS st) session_inv"
      using good_round [OF step.prems] round_faults_le unfolding yieldsP_def by (rule yields_widen)
    show ?thesis
    proof (cases "\<exists>st1. prompt_round OS st = ret st1")
      case True
      then obtain st1 where r1: "prompt_round OS st = ret st1" by blast
      then have "rec OS st1 = Some r" using step.hyps False by simp
      moreover have "session_inv st1" using round r1 by simp
      ultimately show ?thesis using step.IH by blast
    next
      case not_running: False
      then have "r = prompt_round OS st"
        using step.hyps False by (cases "prompt_round OS st") (auto split: run.splits)
      then show ?thesis using round not_running by (cases "prompt_round OS st") (auto simp: yieldsP_def)
    qed
  qed
qed

lemma prompt_ends_well:
  "prompt OS st = Some r \<Longrightarrow> ends_well r"
proof (induction rule: prompt.raw_induct [rotated 1, consumes 1, case_names step])
  case (step rec OS st r)
  show ?case
  proof (cases "should_exit st \<or> \<not> (\<exists>st1. prompt_round OS st = ret st1)")
    case True
    then have "r = ret st \<or> r = prompt_round OS st"
      using step.hyps by (cases "prompt_round OS st") (auto split: run.splits if_splits)
    then show ?thesis using ends_well_round by auto
  next
    case False
    then obtain st1 where "prompt_round OS st = ret st1" by blast
    then have "rec OS st1 = Some r" using step.hyps False by simp
    then show ?thesis by (rule step.IH)
  qed
qed

text \<open>The whole program, from \<^verbatim>\<open>main\<close> to its end.\<close>

definition good_end :: "string list \<Rightarrow> int \<times> shell \<Rightarrow> bool" where
  "good_end argv r \<longleftrightarrow> exit_status (fst r) \<and>
     (length argv \<le> 1 \<longrightarrow> should_exit (snd r) \<and> fst r = last_exit_code (snd r))"

lemma startup:
  "yieldsP {} (bindP (ignore_signals OS initial_shell) (\<lambda>st. lift_cres (init_internals st))) session_inv"
proof (rule yieldsP_bind [of _ _ "\<lambda>st. job_table_ptr st = Null_Table"])
  have "yieldsP {} (set_signal_actions_loop OS h sigs st) (\<lambda>st. job_table_ptr st = Null_Table)"
    if "job_table_ptr st = Null_Table" for h sigs st
    using that by (induction sigs arbitrary: st) (auto simp: sys_defs split: prod.split)
  then show "yieldsP {} (ignore_signals OS initial_shell) (\<lambda>st. job_table_ptr st = Null_Table)"
    by (simp add: ignore_signals_def set_signal_actions_def initial_shell_def)
  fix st :: shell assume n: "job_table_ptr st = Null_Table"
  then obtain st1 where i: "init_internals st = Inr st1" "last_exit_code st1 = 0"
    by (simp add: init_internals_def init_job_table_def destroy_job_table_def)
  then have "table_wf st1" using init_job_table_wf by (auto simp: init_internals_def)
  then show "yieldsP {} (lift_cres (init_internals st)) session_inv"
    by (simp add: i session_inv_def exit_status_def)
qed

lemma destroy_live_table:
  "table_wf st \<Longrightarrow> \<exists>st'. destroy_job_table st = Inr st' \<and> last_exit_code st' = last_exit_code st \<and>
     should_exit st' = should_exit st"
  by (simp add: destroy_job_table_def table_wf_def)

lemma main_program_result:
  assumes "main_program OS argv initial_shell = Some r"
  shows "yieldsP session_faults r (good_end argv)"
proof (cases "length argv > 1")
  case True
  then show ?thesis using assms by (auto simp: main_program_def good_end_def exit_status_def)
next
  case False
  let ?m = "bindP (ignore_signals OS initial_shell) (\<lambda>st. lift_cres (init_internals st))"
  show ?thesis
  proof (cases "\<exists>st1. ?m = ret st1")
    case True
    then obtain st1 where m: "?m = ret st1" by blast
    then have "session_inv st1" using yieldsP_InrD [OF startup m] by simp
    moreover obtain r1 where r1: "prompt OS st1 = Some r1"
      and r: "r = bindP r1 (\<lambda>st. bindP (lift_cres (destroy_job_table st)) (\<lambda>st. ret (last_exit_code st, st)))"
      using assms False m by (auto simp: main_program_def split: Option.bind_splits)
    ultimately have p: "yieldsP session_faults r1 (\<lambda>st'. session_inv st' \<and> should_exit st')"
      using prompt_result by blast
    have "yieldsP session_faults (bindP (lift_cres (destroy_job_table st)) (\<lambda>st. ret (last_exit_code st, st)))
        (good_end argv)" if "session_inv st \<and> should_exit st" for st
      using that destroy_live_table [of st] by (auto simp: session_inv_def good_end_def)
    then show ?thesis unfolding r by (intro yieldsP_bind [OF p]) blast
  next
    case not_running: False
    then show ?thesis
      using assms False startup [of OS] by (cases ?m) (auto simp: main_program_def yieldsP_def split: run.splits)
  qed
qed

lemma main_program_ends_well:
  assumes "main_program OS argv initial_shell = Some r"
  shows "ends_well r"
proof (cases "length argv > 1")
  case True
  then show ?thesis using assms by (auto simp: main_program_def)
next
  case False
  let ?m = "bindP (ignore_signals OS initial_shell) (\<lambda>st. lift_cres (init_internals st))"
  have m: "ends_well ?m"
    by (intro ends_well_bind ends_well_lift) (simp add: ignore_signals_def set_signal_actions_def ends_well_signals)
  show ?thesis
  proof (cases "\<exists>st1. ?m = ret st1")
    case True
    then obtain st1 where st1: "?m = ret st1" by blast
    obtain r1 where r1: "prompt OS st1 = Some r1"
      and r: "r = bindP r1 (\<lambda>st. bindP (lift_cres (destroy_job_table st)) (\<lambda>st. ret (last_exit_code st, st)))"
      using assms False st1 by (auto simp: main_program_def split: Option.bind_splits)
    show ?thesis unfolding r by (intro ends_well_bind prompt_ends_well [OF r1]) auto
  next
    case not_running: False
    then show ?thesis
      using assms False m by (cases ?m) (auto simp: main_program_def split: run.splits)
  qed
qed

text \<open>What an evaluated run shows.\<close>

lemma running_iff: "(case m of Inl u \<Rightarrow> False | Inr r \<Rightarrow> (case r of Running x \<Rightarrow> P x | _ \<Rightarrow> False)) \<longleftrightarrow> (\<exists>x. m = ret x \<and> P x)"
  by (auto split: sum.splits run.splits)

section \<open>Properties\<close>

text \<open>
  Executing a parsed line frees every call of the line exactly once and no other, and
  keeps the invariant of the shell.
\<close>

theorem line_frees_its_calls:
  assumes "table_wf st" and "0 \<le> last_exit_code st" and "last_exit_code st \<le> 255"
    and "parse_read_line OS s st = Inr (Some cs, st1)" and "execute_commands OS cs st1 = ret st2"
  shows "\<exists>cmds. cs = map Some cmds \<and> distinct (concat (map cmd_calls cmds)) \<and>
           length (call_heap st2) = length (call_heap st1) \<and>
           (\<forall>a < length (call_heap st1).
              call_heap st2 ! a = (if a \<in> set (concat (map cmd_calls cmds)) then None else call_heap st1 ! a)) \<and>
           (\<forall>a < length (call_heap st). call_heap st2 ! a = call_heap st ! a)"
proof -
  have inv: "session_inv st" using assms(1-3) by (simp add: session_inv_def exit_status_def)
  obtain cmds where c: "cs = map Some cmds" "line_parsed s st st1 cmds" and k: "keeps_calls st st1"
    using yields_InrD [OF parse_read_line_step assms(4)] by auto
  have d: "distinct (concat (map cmd_calls cmds))" and f: "set (concat (map cmd_calls cmds)) \<subseteq> set (fresh st st1)"
    using c(2) by (simp_all add: line_parsed_def Let_def)
  have "\<forall>c \<in> set cmds. command_tree st1 c" using line_parsed_tree [OF c(2)] by blast
  then have frees: "frees (set (concat (map cmd_calls cmds))) st1 st2"
    using yieldsP_InrD [OF good_commands [OF parse_read_line_inv [OF assms(4) inv] _ d] assms(5) [unfolded c(1)]]
    by blast
  moreover have "a < length (call_heap st1) \<and> a \<notin> set (concat (map cmd_calls cmds)) \<and>
      call_heap st1 ! a = call_heap st ! a" if "a < length (call_heap st)" for a
    using that k f by (auto simp: keeps_calls_def fresh_def)
  ultimately have "length (call_heap st2) = length (call_heap st1)"
    "\<forall>a < length (call_heap st1).
       call_heap st2 ! a = (if a \<in> set (concat (map cmd_calls cmds)) then None else call_heap st1 ! a)"
    "\<forall>a < length (call_heap st). call_heap st2 ! a = call_heap st ! a"
    unfolding frees_def by metis+
  then show ?thesis using c(1) d by blast
qed

lemma line_frees_its_calls_witness:
  "\<exists>cs st1 st2. parse_read_line sample_os ''ls | wc'' two_jobs = Inr (Some cs, st1) \<and>
     execute_commands sample_os cs st1 = ret st2 \<and> length (call_heap st2) = length (call_heap st1) \<and>
     distinct (concat (map (\<lambda>c. cmd_calls (the c)) cs))"
proof -
  let ?p = "parse_read_line sample_os ''ls | wc'' two_jobs"
  have "case ?p of Inr (Some cs, st1) \<Rightarrow>
      (case execute_commands sample_os cs st1 of Inr (Running st2) \<Rightarrow> True | _ \<Rightarrow> False) | _ \<Rightarrow> False"
    by code_simp
  then obtain cs st1 where p1: "?p = Inr (Some cs, st1)"
    and e: "case execute_commands sample_os cs st1 of Inr (Running st2) \<Rightarrow> True | _ \<Rightarrow> False"
    by (cases ?p) (auto split: option.splits)
  then obtain st2 where p: "?p = Inr (Some cs, st1)" "execute_commands sample_os cs st1 = ret st2"
    by (auto simp: running_iff)
  have "0 \<le> last_exit_code two_jobs \<and> last_exit_code two_jobs \<le> 255" by (simp add: two_jobs_def initial_shell_def)
  then show ?thesis
    using line_frees_its_calls [OF two_jobs_wf _ _ p] p by (fastforce simp: comp_def)
qed

text \<open>
  C32. The child never comes back into the shell: when \<^verbatim>\<open>fork\<close> answers 0, the execution of an
  external call ends with the program of the call in place of the shell or in
  \<^verbatim>\<open>exit(1)\<close>, whatever the kernel answers to everything that follows. The calls of a parsed
  command know their pipes (\<open>command_tree_knows_pipes\<close>), so that looking them up is safe.
\<close>

theorem child_never_returns:
  assumes "\<not> is_internal_command call" and "knows_pipes cmd call" and "\<And>h. os_fork OS h = 0"
    and "\<And>h. os_pipe OS h \<noteq> None"
  shows "\<exists>st'. execute_single_command OS cmd call j st = Inr (Exited 1 st') \<or>
           execute_single_command OS cmd call j st = Inr (Replaced (cc_name call) (cc_argv call) st')"
proof -
  obtain p1 st1 where s1: "sys_pipe OS st = (Some p1, st1)"
    using assms(4) [of "trace st"] by (auto simp: sys_pipe_def Let_def)
  obtain p2 st2 where s2: "sys_pipe OS st1 = (Some p2, st2)"
    using assms(4) [of "trace st1"] by (auto simp: sys_pipe_def Let_def)
  obtain st3 where s3: "sys_fork OS st2 = (0, st3)" using assms(3) by (simp add: sys_fork_def Let_def)
  then have f: "forked st3" by (auto simp: sys_defs forked_def)
  define m :: "(internal_exit_info option \<times> job \<times> shell) proc" where
    "m = child_process OS cmd call p1 p2 st3"
  have e: "execute_single_command OS cmd call j st = m"
    using assms(1) by (simp add: execute_single_command_def s1 s2 s3 m_def)
  have "yieldsP {} m (\<lambda>_. True)" "never_returns m" "ends_well m"
    unfolding m_def by (rule yieldsP_child [OF assms(2)], rule never_returns_child, rule ends_well_child [OF f])
  moreover have "prog = cc_name call \<and> args = cc_argv call" if "m = Inr (Replaced prog args st')" for prog args st'
    using child_process_Replaced [OF that [unfolded m_def]] exec_call_Replaced by blast
  ultimately show ?thesis unfolding e by (cases m rule: ends_well.cases) auto
qed

lemma child_never_returns_witness:
  "\<exists>st'. execute_single_command (sample_os\<lparr>os_fork := (\<lambda>h. 0)\<rparr>) ls_command ls_call (setup_job ls_command) initial_shell =
           Inr (Exited 1 st') \<or>
         execute_single_command (sample_os\<lparr>os_fork := (\<lambda>h. 0)\<rparr>) ls_command ls_call (setup_job ls_command) initial_shell =
           Inr (Replaced ''ls'' [''ls''] st')"
proof -
  have "\<not> is_internal_command ls_call" "knows_pipes ls_command ls_call" "cc_name ls_call = ''ls''" "cc_argv ls_call = [''ls'']"
    by (simp_all add: ls_call_def is_internal_command_def internal_commands_def knows_pipes_def)
  then show ?thesis
    using child_never_returns [of ls_call ls_command "sample_os\<lparr>os_fork := (\<lambda>h. 0)\<rparr>"] by (simp add: sample_os_def)
qed

text \<open>
  C33. The ways in which the shell ends, from \<^verbatim>\<open>main\<close> on: by \<^verbatim>\<open>exit\<close> or the end of its input,
  which reads as \<^verbatim>\<open>exit\<close>, with the last exit status, which is from 0 to 255 (or at once when
  it is given arguments); or with status 1 right after the kernel has refused \<^verbatim>\<open>tcsetpgrp\<close> or
  \<^verbatim>\<open>sigaction\<close>. Every other end is that of a forked child, with status 1 or in another
  program.
\<close>

theorem main_program_exit_status:
  assumes "main_program OS argv initial_shell = Some (Inr r)"
  shows "case r of
           Running (n, st') \<Rightarrow> 0 \<le> n \<and> n \<le> 255 \<and>
             (if length argv > 1 then n = 1 else should_exit st' \<and> n = last_exit_code st')
         | Exited n st' \<Rightarrow> n = 1 \<and> (Ev_Fork 0 \<in> set (trace st') \<or> refused (trace st'))
         | Replaced prog args st' \<Rightarrow> Ev_Fork 0 \<in> set (trace st')"
proof -
  have "n = 1" if "length argv > 1" "r = Running (n, st')" for n st'
    using that assms by (auto simp: main_program_def)
  then show ?thesis
    using main_program_result [OF assms] main_program_ends_well [OF assms]
    by (cases r) (auto simp: good_end_def exit_status_def forked_def)
qed

lemma main_program_exit_status_witness:
  "\<exists>n st'. main_program sample_os [''jsh''] initial_shell = Some (ret (n, st')) \<and> 0 \<le> n \<and> n \<le> 255 \<and> should_exit st'"
proof -
  let ?m = "main_program sample_os [''jsh''] initial_shell"
  have "case ?m of Some (Inr (Running (n, st'))) \<Rightarrow> True | _ \<Rightarrow> False" by code_simp
  then obtain n st' where m: "?m = Some (ret (n, st'))"
    by (auto simp: running_iff split: option.splits prod.splits)
  then show ?thesis using main_program_exit_status [OF m] by auto
qed

end
