(* ===== verification/Observation.thy ===== *)
theory Observation
  imports Prompt
begin

text \<open>
  What the built-ins and the job control of the shell look like to an observer of the
  trace who does not care about output, signals, waiting and directories: like nothing. They
  create no process and no pipe, and the one file that \<^verbatim>\<open>jobs -t\<close> opens it closes. The
  observer is a locale; the descriptors that are open and the processes that have been created
  are two interpretations of it, in theories \<open>Leak_Freedom\<close> and \<open>Job_Processes\<close>.
\<close>

section \<open>The observer\<close>

fun quiet :: "event \<Rightarrow> bool" where
  "quiet (Ev_Open path flags r) = False"
| "quiet (Ev_Close r) = False"
| "quiet (Ev_Pipe p) = False"
| "quiet (Ev_Fork p) = False"
| "quiet e = True"

named_theorems kept \<open>operations that an observer does not see\<close>

text \<open>
  An observation that ignores the quiet events, and in which closing a file undoes opening it.
\<close>

locale trace_observer =
  fixes obs :: "shell \<Rightarrow> 'o" and opened :: "fd \<Rightarrow> 'o \<Rightarrow> 'o" and closed :: "fd \<Rightarrow> 'o \<Rightarrow> 'o"
  assumes same_trace: "trace st = trace st' \<Longrightarrow> obs st = obs st'"
    and quiet: "quiet e \<Longrightarrow> obs (record_event e st) = obs st"
    and opens: "obs (record_event (Ev_Open path flags r) st) = (if r < 0 then obs st else opened r (obs st))"
    and closes: "obs (record_event (Ev_Close r) st) = closed r (obs st)"
    and inverse: "closed r (opened r x) = x"
begin

sublocale unseen: frame_relation "\<lambda>st st'. obs st' = obs st"
  by unfold_locales simp_all

lemma seen_record [simp]:
  "obs (dprintf fd m st) = obs st" "obs (perror OS m st) = obs st"
  "obs (print_job j fd st) = obs st" "obs (print_subjob s fd st) = obs st"
  "obs (add_history l st) = obs st"
  by (simp_all add: print_job_def print_subjob_def dprintf_def perror_def add_history_def quiet)

lemma seen_fields [simp]:
  "obs (st\<lparr>job_table := t\<rparr>) = obs st" "obs (st\<lparr>lwd := d\<rparr>) = obs st"
  "obs (st\<lparr>should_exit := e\<rparr>) = obs st" "obs (st\<lparr>last_exit_code := n\<rparr>) = obs st"
  "obs (st\<lparr>last_exit_code := n, should_exit := e\<rparr>) = obs st"
  "obs (st\<lparr>job_table := t, job_table_size := k\<rparr>) = obs st" "obs (st\<lparr>call_heap := h\<rparr>) = obs st"
  by (rule same_trace, simp)+

lemma seen_sys [kept]:
  "sys_kill OS q sig st = (r, st') \<Longrightarrow> obs st' = obs st" "sys_getcwd OS st = (d, st') \<Longrightarrow> obs st' = obs st"
  "sys_read OS fd n st = (b, st') \<Longrightarrow> obs st' = obs st" "sys_getpgrp OS st = (p, st') \<Longrightarrow> obs st' = obs st"
  "sys_tcsetpgrp OS fd q st = (r, st') \<Longrightarrow> obs st' = obs st" "sys_waitpid OS q opts st = (w, st') \<Longrightarrow> obs st' = obs st"
  "sys_stat OS path st = (s, st') \<Longrightarrow> obs st' = obs st" "sys_chdir OS path st = (c, st') \<Longrightarrow> obs st' = obs st"
  "sys_readline OS path st = (d, st') \<Longrightarrow> obs st' = obs st"
  "sys_read_int OS fd st = (v, st') \<Longrightarrow> obs st' = obs st" "sys_write_int OS fd v' st = (ok, st') \<Longrightarrow> obs st' = obs st"
  by (auto simp: sys_kill_def sys_getcwd_def sys_read_def sys_getpgrp_def sys_tcsetpgrp_def sys_waitpid_def
      sys_stat_def sys_chdir_def sys_readline_def sys_read_int_def sys_write_int_def Let_def quiet split: prod.splits)

section \<open>Jobs\<close>

lemma seen_wait [kept]:
  "process_waitpid_response OS p status ls st = (c, ls', st') \<Longrightarrow> obs st' = obs st"
  "update_job_status OS j st = (j', st') \<Longrightarrow> obs st' = obs st"
  by (auto simp: process_waitpid_response_def update_job_status_def split: if_splits prod.splits dest: kept)

lemma seen_wait_loop: "wait_loop OS subjobs st = (r, subjobs', st') \<Longrightarrow> obs st' = obs st"
proof (induction subjobs arbitrary: st r subjobs' st')
  case (Cons a subjobs)
  from Cons.prems show ?case
    by (cases a) (auto simp: Let_def split: if_split_asm prod.splits dest!: kept Cons.IH)
qed simp

lemma seen_blocking_wait_loop:
  "blocking_wait_loop OS i subjobs e st = (r, subjobs', st') \<Longrightarrow> obs st' = obs st"
proof (induction subjobs arbitrary: i e st r subjobs' st')
  case (Cons a subjobs)
  from Cons.prems show ?case
    by (cases a) (auto simp: Let_def split: if_split_asm prod.splits dest!: kept Cons.IH)
qed simp

lemma seen_wait_for_job [kept]:
  "wait_for_job OS j st = (r, j', st') \<Longrightarrow> obs st' = obs st"
  "blocking_wait_for_job OS j st = (r, j', st') \<Longrightarrow> obs st' = obs st"
  by (auto simp: wait_for_job_def blocking_wait_for_job_def Let_def
      split: if_splits prod.splits option.splits
      dest!: seen_wait_loop seen_blocking_wait_loop kept)

lemma seen_table [simp]:
  "obs (snd (remove_job n st)) = obs st" "obs (snd (add_job j st)) = obs st"
  by (simp add: remove_job_def, cases j) (auto simp: Let_def split: option.splits)

lemma seen_update_slot [simp]: "obs (update_slot OS fd i st) = obs st"
  by (auto simp: update_slot_def Let_def split: option.split prod.split dest!: kept)

lemma seen_update_jobs [simp]: "obs (fd_update_jobs OS fd st) = obs st" "obs (update_jobs OS st) = obs st"
  by (simp_all add: fd_update_jobs_def update_jobs_def unseen.fold)

lemma seen_get_job [kept]: "get_job s fd st = (r, st') \<Longrightarrow> obs st' = obs st"
  by (auto simp: get_job_def Let_def split: sum.splits if_splits)

lemma seen_foreground [kept]:
  "put_job_in_foreground OS j st = (r, st') \<Longrightarrow> obs st' = obs st"
  "continue_job_in_background OS j st = (r, st') \<Longrightarrow> obs st' = obs st"
  by (cases j; auto simp: Let_def split: if_split_asm prod.splits dest!: kept)+

section \<open>Built-ins\<close>

lemma seen_simple_builtins [kept]:
  "exit_command OS call st = (r, st') \<Longrightarrow> obs st' = obs st"
  "fg_command OS c st = (r, st') \<Longrightarrow> obs st' = obs st" "bg_command OS c st = (r, st') \<Longrightarrow> obs st' = obs st"
  "last_exit_code_command c st = (r, st') \<Longrightarrow> obs st' = obs st"
  by (auto simp: exit_command_def fg_command_def bg_command_def last_exit_code_command_def Let_def
      split: if_split_asm prod.splits sum.splits option.splits dest!: kept)

lemma seen_kill_query [kept]: "kill_query OS err p sig st = (r, st') \<Longrightarrow> obs st' = obs st"
  by (auto simp: kill_query_def split: if_split_asm prod.splits errno.splits dest!: kept)

lemma seen_kill [kept]:
  "kill_target OS call i sig st = (r, st') \<Longrightarrow> obs st' = obs st"
  "kill_command OS call st = (r, st') \<Longrightarrow> obs st' = obs st"
proof -
  show target: "obs st' = obs st" if "kill_target OS call i sig st = (r, st')" for i sig st r st'
    using that by (auto simp: kill_target_def Let_def split: if_split_asm prod.splits sum.splits option.splits dest!: kept)
  show "kill_command OS call st = (r, st') \<Longrightarrow> obs st' = obs st"
    by (auto simp: kill_command_def split: if_split_asm sum.splits dest!: target)
qed

lemma seen_pwd [kept]: "pwd OS call st = Inr (r, st') \<Longrightarrow> obs st' = obs st"
  by (auto simp: pwd_def get_current_wd_def Let_def elim!: bindU_InrE split: if_split_asm prod.splits option.splits
      dest!: kept)

lemma seen_cd [kept]: "cd OS call st = Inr (r, st') \<Longrightarrow> obs st' = obs st"
proof -
  have valid: "obs st' = obs st" if "is_valid_target_dir OS path err st = (ok, st')" for path err st ok st'
    using that
    by (auto simp: is_valid_target_dir_def is_valid_path_def Let_def
        split: if_split_asm prod.splits option.splits errno.splits dest!: kept)
  have set: "obs st' = obs st" if "set_new_cwd OS path err st = Inr (ok, st')" for path err st ok st'
    using that
    by (auto simp: set_new_cwd_def Let_def split: if_split_asm prod.splits option.splits dest!: kept valid)
  have "obs st' = obs st" if "cd_to OS call path st = Inr (r, st')" for path st r st'
    using that by (auto simp: cd_to_def elim!: bindU_InrE dest!: set)
  then show "cd OS call st = Inr (r, st') \<Longrightarrow> obs st' = obs st"
    by (auto simp: cd_def split: if_split_asm prod.splits option.splits dest!: kept)
qed

section \<open>The children of a process\<close>

lemma seen_close [simp]: "obs (sys_close fd st) = closed fd (obs st)"
  by (simp add: sys_close_def closes)

lemma seen_open:
  "sys_open OS path flags st = (fd, st') \<Longrightarrow> obs st' = (if fd < 0 then obs st else opened fd (obs st))"
  by (auto simp: sys_open_def Let_def opens)

lemma seen_read_all:
  "read_all OS fd buf n s st = Some r \<Longrightarrow> r = Inr (x, st') \<Longrightarrow>
     obs st' = (if x = None then closed fd (obs st) else obs st)"
proof (induction arbitrary: x st' rule: read_all.raw_induct [rotated 1, consumes 1, case_names step])
  case (step rec OS fd buf n s st r)
  from step.hyps step.prems show ?case
    by (auto simp: Let_def split: prod.splits option.splits if_split_asm dest!: kept step.IH [OF _ refl])
qed

lemma seen_parse_children [simp]: "obs (snd (parse_children ws st)) = obs st"
  by (induction ws) (auto split: sum.splits prod.splits)

lemma seen_get_children [kept]: "get_children OS p st = Some (Inr (cs, st')) \<Longrightarrow> obs st' = obs st"
proof -
  assume g: "get_children OS p st = Some (Inr (cs, st'))"
  have pc: "parse_children ws st1 = (cs, st') \<Longrightarrow> obs st' = obs st1" for ws st1
    using seen_parse_children [of ws st1] by simp
  obtain fd st1 where o: "sys_open OS (children_path p) [O_RDONLY] st = (fd, st1)" by fastforce
  show ?thesis
    using g seen_open [OF o]
    by (auto simp: get_children_def o Let_def split: if_split_asm Option.bind_split_asm option.splits
        elim!: bindU_InrE simp: inverse dest!: seen_read_all [OF _ refl] pc)
qed

lemma seen_print_children_loop:
  "print_children_loop OS j n fd children st = Some r \<Longrightarrow> r = Inr st' \<Longrightarrow> obs st' = obs st"
proof (induction arbitrary: st' rule: print_children_loop.raw_induct [rotated 1, consumes 1, case_names step])
  case (step rec OS j n fd children st r)
  from step.hyps step.prems show ?case
    by (auto simp: Let_def split: list.splits prod.splits sum.splits Option.bind_split_asm
        dest!: kept step.IH [OF _ refl])
qed

lemma seen_print_children [kept]: "finished (print_children OS j p n fd st) = Inr st' \<Longrightarrow> obs st' = obs st"
  by (auto simp: print_children_def finished_def split: option.splits Option.bind_split_asm sum.splits prod.splits
      dest!: kept seen_print_children_loop [OF _ refl])

lemma seen_print_job_tree: "print_job_tree_loop OS j fd index subjobs st = Inr st' \<Longrightarrow> obs st' = obs st"
proof (induction subjobs arbitrary: index st)
  case (Cons s subjobs)
  from Cons.prems show ?case
    by (auto simp: Let_def elim!: bindU_InrE split: option.splits if_split_asm dest!: kept Cons.IH)
qed simp

lemma seen_print_jobs: "print_jobs OS tree fd slots st = Inr st' \<Longrightarrow> obs st' = obs st"
proof (induction slots arbitrary: tree st)
  case (Cons s slots)
  from Cons.prems show ?case
    by (cases s) (auto simp: print_job_tree_def elim!: bindU_InrE split: if_split_asm dest!: seen_print_job_tree Cons.IH)
qed simp

lemma seen_jobs [kept]: "jobs_command OS call st = Inr (r, st') \<Longrightarrow> obs st' = obs st"
  by (auto simp: jobs_command_def print_job_tree_def Let_def elim!: bindU_InrE
      split: if_split_asm prod.splits option.splits dest!: kept seen_print_jobs seen_print_job_tree)

lemma seen_internal [kept]: "execute_internal_command OS call st = Inr (r, st') \<Longrightarrow> obs st' = obs st"
  by (auto simp: execute_internal_command_def split: if_split_asm dest!: kept)

end

end
