(* ===== verification/Descriptors.thy ===== *)
theory Descriptors
  imports Pipeline
begin

text \<open>
  The descriptors that the parser opens for a command it returns: the ends of its pipes and
  the files of its redirections, and no other. \<open>open_fds\<close> reads the open descriptors off the
  trace. That executing the command closes exactly these is in theories \<open>Leak_Freedom\<close> and \<open>No_Leaks\<close>.
\<close>

section \<open>What a command holds\<close>

text \<open>The kernel never answers with a descriptor that is open, or with 0, 1 or 2.\<close>

definition fresh_fds :: "os \<Rightarrow> bool" where
  "fresh_fds OS \<longleftrightarrow>
     (\<forall>h path flags. let r = os_open OS h path flags in r < 0 \<or> (2 < r \<and> r \<notin> set (open_fds h))) \<and>
     (\<forall>h r w. os_pipe OS h = Some (r, w) \<longrightarrow>
        2 < r \<and> 2 < w \<and> r \<noteq> w \<and> r \<notin> set (open_fds h) \<and> w \<notin> set (open_fds h))"

text \<open>
  The ends of pipes; the files among the descriptors of a call, which are no end of a pipe
  and not 0, 1 or 2; and all that the calls of a part of the store hold.
\<close>

definition pipe_ends :: "(fd \<times> fd) list \<Rightarrow> fd multiset" where
  "pipe_ends ps = (\<Sum>p\<leftarrow>ps. {#fst p, snd p#})"

definition files :: "(fd \<times> fd) list \<Rightarrow> fd list \<Rightarrow> fd multiset" where
  "files ps xs = {#x \<in># mset xs. 2 < x \<and> x \<notin># pipe_ends ps#}"

definition call_fds :: "command_call \<Rightarrow> fd list" where
  "call_fds c = [cc_stdin c, cc_stdout c, cc_stderr c]"

fun slot_files :: "(fd \<times> fd) list \<Rightarrow> command_call option \<Rightarrow> fd multiset" where
  "slot_files ps None = {#}"
| "slot_files ps (Some c) = files ps (call_fds c)"

definition heap_files :: "(fd \<times> fd) list \<Rightarrow> command_call option list \<Rightarrow> fd multiset" where
  "heap_files ps h = (\<Sum>c\<leftarrow>h. slot_files ps c)"

definition sane_fds :: "fd list \<Rightarrow> bool" where
  "sane_fds F \<longleftrightarrow> distinct F \<and> (\<forall>x \<in> set F. 2 < x)"

text \<open>
  In the middle of a parse: \<open>X\<close> was open before, the calls from address \<open>A\<close> on are those of
  the command, and \<open>B\<close> is what the builders of the pending calls hold.
\<close>

definition holds :: "addr \<Rightarrow> fd multiset \<Rightarrow> fd multiset \<Rightarrow> command \<Rightarrow> shell \<Rightarrow> bool" where
  "holds A X B cmd st \<longleftrightarrow>
     sane_fds (open_fds (trace st)) \<and> A \<le> length (call_heap st) \<and>
     mset (open_fds (trace st)) =
       X + pipe_ends (cmd_open_pipes cmd) + heap_files (cmd_open_pipes cmd) (drop A (call_heap st)) + B"

text \<open>Inside a substitution the parser keeps the address of the first call it has built.\<close>

definition sub_ok :: "bool \<Rightarrow> addr \<Rightarrow> shell \<Rightarrow> bool" where
  "sub_ok inside A st \<longleftrightarrow>
     (inside \<longrightarrow> (\<forall>l. last_parsed_command_call_substitution st = Some l \<longrightarrow> A \<le> l))"

lemma pipe_ends_simps [simp]:
  "pipe_ends [] = {#}" "pipe_ends (p # ps) = add_mset (fst p) (add_mset (snd p) (pipe_ends ps))"
  "pipe_ends (ps @ qs) = pipe_ends ps + pipe_ends qs"
  by (simp_all add: pipe_ends_def)

lemma heap_files_simps [simp]:
  "heap_files ps [] = {#}" "heap_files ps (c # h) = slot_files ps c + heap_files ps h"
  "heap_files ps (g @ h) = heap_files ps g + heap_files ps h"
  by (simp_all add: heap_files_def)

lemma files_simps [simp]:
  "files ps [] = {#}"
  "files ps (x # xs) = (if 2 < x \<and> x \<notin># pipe_ends ps then add_mset x (files ps xs) else files ps xs)"
  by (auto simp: files_def)

lemma files_mono:
  assumes "\<And>x. x \<in> set xs \<Longrightarrow> 2 < x \<Longrightarrow> x \<in># pipe_ends ps \<longleftrightarrow> x \<in># pipe_ends qs"
  shows "files ps xs = files qs xs"
  using assms by (induction xs) auto

lemma in_files: "x \<in> set xs \<Longrightarrow> 2 < x \<Longrightarrow> x \<notin># pipe_ends ps \<Longrightarrow> x \<in># files ps xs"
  by (simp add: files_def)

lemma slot_files_le: "c \<in> set h \<Longrightarrow> slot_files ps c \<subseteq># heap_files ps h"
  by (induction h) (auto intro: subset_mset.add_increasing subset_mset.add_increasing2)

lemma heap_files_cong: "(\<And>c. c \<in> set h \<Longrightarrow> slot_files ps c = slot_files qs c) \<Longrightarrow> heap_files ps h = heap_files qs h"
  by (induction h) simp_all

lemma heap_files_update:
  assumes "i < length h" and "slot_files ps c = slot_files ps (h ! i)"
  shows "heap_files ps (h[i := c]) = heap_files ps h"
  using assms by (subst (2) id_take_nth_drop [of i h]) (simp_all add: upd_conv_take_nth_drop)

lemma set_open_fds: "holds A X B cmd st \<Longrightarrow> x \<in> set (open_fds (trace st)) \<longleftrightarrow>
    x \<in># X + pipe_ends (cmd_open_pipes cmd) + heap_files (cmd_open_pipes cmd) (drop A (call_heap st)) + B"
  by (metis holds_def set_mset_mset)

section \<open>The steps of the parser\<close>

lemma holds_trace:
  assumes "holds A X B cmd st" and "same_globals st st'"
    and "open_fds (trace st') = open_fds (trace st)"
  shows "holds A X B cmd st'"
  using assms by (auto simp: holds_def same_globals_iff)

text \<open>A descriptor that is open, or an end of a pipe, is not one the kernel gives next.\<close>

lemma holds_known:
  assumes "holds A X B cmd st" and "c \<in> set (drop A (call_heap st))" and "c = Some d"
    and "x \<in> set (call_fds d)" and "2 < x"
  shows "x \<in> set (open_fds (trace st))"
proof (cases "x \<in># pipe_ends (cmd_open_pipes cmd)")
  case False
  then have "x \<in># slot_files (cmd_open_pipes cmd) c" using assms(3-5) by (simp add: in_files)
  then show ?thesis
    using slot_files_le [OF assms(2)] mset_subset_eqD by (fastforce simp: set_open_fds [OF assms(1)])
qed (simp add: set_open_fds [OF assms(1)])

lemma holds_pipe:
  assumes "fresh_fds OS" and H: "holds A X (B + files (cmd_open_pipes cmd) fds) cmd st"
    and p: "sys_pipe OS st = (Some q, st')"
  shows "holds A X (B + files (cmd_open_pipes cmd @ [q]) fds) (add_pipe cmd q) st'"
    and "fst q \<noteq> snd q" and "2 < fst q" and "2 < snd q"
    and "x \<in> set (open_fds (trace st)) \<Longrightarrow> x \<noteq> fst q \<and> x \<noteq> snd q"
proof -
  let ?ps = "cmd_open_pipes cmd"
  obtain r w where q: "q = (r, w)" by (cases q)
  have os: "os_pipe OS (trace st) = Some (r, w)" and st': "st' = st\<lparr>trace := Ev_Pipe (Some (r, w)) # trace st\<rparr>"
    using p q by (auto simp: sys_defs)
  have new: "2 < r" "2 < w" "r \<noteq> w" "r \<notin> set (open_fds (trace st))" "w \<notin> set (open_fds (trace st))"
    using assms(1) os by (auto simp: fresh_fds_def)
  then show "fst q \<noteq> snd q" "2 < fst q" "2 < snd q"
    "x \<in> set (open_fds (trace st)) \<Longrightarrow> x \<noteq> fst q \<and> x \<noteq> snd q" by (auto simp: q)
  have ext: "files (?ps @ [q]) xs = files ?ps xs"
    if "\<And>x. x \<in> set xs \<Longrightarrow> 2 < x \<Longrightarrow> x \<notin># pipe_ends ?ps \<Longrightarrow> x \<in> set (open_fds (trace st))" for xs
    using that new by (intro files_mono) (auto simp: q)
  have "slot_files (?ps @ [q]) c = slot_files ?ps c" if "c \<in> set (drop A (call_heap st))" for c
    using holds_known [OF H that] ext by (cases c) auto
  then have h: "heap_files (?ps @ [q]) (drop A (call_heap st)) = heap_files ?ps (drop A (call_heap st))"
    by (rule heap_files_cong)
  have "x \<in> set (open_fds (trace st))" if "x \<in> set fds" "2 < x" "x \<notin># pipe_ends ?ps" for x
    using in_files [OF that] by (simp add: set_open_fds [OF H])
  then have "files (?ps @ [q]) fds = files ?ps fds" by (rule ext)
  with h new H show "holds A X (B + files (?ps @ [q]) fds) (add_pipe cmd q) st'"
    by (auto simp: holds_def st' add_pipe_def sane_fds_def q)
qed

lemma holds_update:
  assumes H: "holds A X B cmd st" and "A \<le> a" and "update_call a f st = Inr st'"
    and "\<And>c. read_call a st = Inr c \<Longrightarrow>
           files (cmd_open_pipes cmd) (call_fds (f c)) = files (cmd_open_pipes cmd) (call_fds c)"
  shows "holds A X B cmd st'" and "trace st' = trace st"
    and "last_parsed_command_call_substitution st' = last_parsed_command_call_substitution st"
proof -
  obtain c where c: "read_call a st = Inr c" and st': "st' = st\<lparr>call_heap := (call_heap st)[a := Some (f c)]\<rparr>"
    using assms(3) by (auto simp: update_call_def bindU_def split: sum.splits)
  have a: "a < length (call_heap st)" "call_heap st ! a = Some c"
    using c by (auto simp: read_call_def split: if_splits option.splits)
  have "drop A ((call_heap st)[a := Some (f c)]) = (drop A (call_heap st))[a - A := Some (f c)]"
    using assms(2) by (simp add: drop_update_swap)
  then have "heap_files (cmd_open_pipes cmd) (drop A ((call_heap st)[a := Some (f c)])) =
      heap_files (cmd_open_pipes cmd) (drop A (call_heap st))"
    using a assms(2) assms(4) [OF c] by (simp add: heap_files_update)
  then show "holds A X B cmd st'" using H by (simp add: holds_def st')
  show "trace st' = trace st"
    "last_parsed_command_call_substitution st' = last_parsed_command_call_substitution st"
    by (simp_all add: st')
qed

lemma files_update:
  "k < length xs \<Longrightarrow> files ps (xs[k := y]) + files ps [xs ! k] = files ps xs + files ps [y]"
  by (subst (2) id_take_nth_drop [of k xs])
    (simp_all add: upd_conv_take_nth_drop files_def del: files_simps)

lemma sane_remove: "sane_fds F \<Longrightarrow> sane_fds (remove1 x F)"
  by (auto simp: sane_fds_def dest: notin_set_remove1)

lemma holds_redirect:
  assumes "fresh_fds OS" and H: "holds A X (B + files (cmd_open_pipes cmd) fds) cmd st"
    and own: "\<And>x. x \<in> set fds \<Longrightarrow> x \<notin># pipe_ends (cmd_open_pipes cmd)"
    and "length fds = 3" and "k < 3"
    and "sys_open OS path flags st = (fd, st1)" and "\<not> fd < 0" and "redirect fds k fd st1 = (r, fds', st')"
  shows "holds A X (B + files (cmd_open_pipes cmd) fds') cmd st' \<and> length fds' = 3 \<and>
     (\<forall>x \<in> set fds'. x \<notin># pipe_ends (cmd_open_pipes cmd))"
proof -
  let ?ps = "cmd_open_pipes cmd" and ?F = "open_fds (trace st)"
  define old where "old = (if 2 < fds ! k then {#fds ! k#} else {#})"
  have st1: "st1 = st\<lparr>trace := Ev_Open path flags fd # trace st\<rparr>" and os: "fd = os_open OS (trace st) path flags"
    using assms(6) by (auto simp: sys_defs)
  have new: "2 < fd" "fd \<notin> set ?F"
    using assms(1,7) os unfolding fresh_fds_def Let_def by blast+
  then have newE: "fd \<notin># pipe_ends ?ps" by (simp add: set_open_fds [OF H])
  have fds': "fds' = fds[k := fd]" and st': "st' = (if 2 < fds ! k then sys_close (fds ! k) st1 else st1)"
    using assms(8) by (auto simp: redirect_def)
  have k: "k < length fds" using assms(4,5) by simp
  then have "files ?ps [fds ! k] = old" using own [of "fds ! k"] by (simp add: old_def)
  with files_update [OF k, of ?ps fd] have f: "files ?ps fds' + old = add_mset fd (files ?ps fds)"
    using new newE by (simp add: fds')
  have o: "open_fds (trace st') = (if 2 < fds ! k then remove1 (fds ! k) (fd # ?F) else fd # ?F)"
    using assms(7) by (simp add: st' st1 sys_close_def record_event_def)
  have "sane_fds (fd # ?F)" using H new by (simp add: holds_def sane_fds_def)
  then have sane: "sane_fds (open_fds (trace st'))" unfolding o by (simp add: sane_remove del: remove1.simps)
  have "mset (open_fds (trace st')) = add_mset fd (mset ?F) - old"
    unfolding o old_def by simp
  also have "mset ?F = X + pipe_ends ?ps + heap_files ?ps (drop A (call_heap st)) + (B + files ?ps fds)"
    using H by (simp add: holds_def)
  also have "add_mset fd \<dots> - old =
      X + pipe_ends ?ps + heap_files ?ps (drop A (call_heap st)) + B + add_mset fd (files ?ps fds) - old"
    by (simp add: add.assoc)
  also have "\<dots> = X + pipe_ends ?ps + heap_files ?ps (drop A (call_heap st)) + (B + files ?ps fds')"
    unfolding f [symmetric] by (simp add: add.assoc)
  finally have "holds A X (B + files ?ps fds') cmd st'"
    using H sane by (simp add: holds_def st' st1 sys_close_def record_event_def)
  moreover have "x \<notin># pipe_ends ?ps" if "x \<in> set fds'" for x
    using that own newE set_update_subset_insert [of fds k fd] unfolding fds' by blast
  moreover have "length fds' = 3" using assms(4) by (simp add: fds')
  ultimately show ?thesis by blast
qed

text \<open>One branch of \<^verbatim>\<open>parse_redirections\<close>.\<close>

lemma redirection_opened:
  assumes "(let (fd, st) = sys_open OS path flags st
            in if fd < 0 then (-1, fds, f st) else redirect fds k fd st) = (r, fds', st')"
    and "\<not> r < (0 :: int)" and "k < 3"
  shows "\<exists>k flags fd st1. k < 3 \<and> sys_open OS path flags st = (fd, st1) \<and> \<not> fd < 0 \<and>
           redirect fds k fd st1 = (r, fds', st')"
  using assms by (cases "sys_open OS path flags st") (auto split: if_splits)

lemma if_eqE: "(if b then x else y) = z \<Longrightarrow> (x = z \<Longrightarrow> P) \<Longrightarrow> (y = z \<Longrightarrow> P) \<Longrightarrow> P"
  by (simp split: if_splits)

lemma parse_redirections_cases:
  assumes "parse_redirections OS fds symbol path st = (r, fds', st')" and "\<not> r < 0"
  shows "\<exists>k flags fd st1. k < 3 \<and> sys_open OS path flags st = (fd, st1) \<and> \<not> fd < 0 \<and>
           redirect fds k fd st1 = (r, fds', st')"
  using assms(1) unfolding parse_redirections_def
  by (elim if_eqE redirection_opened [OF _ assms(2)]) (use assms(2) in simp_all)

lemma holds_alloc:
  assumes H: "holds A X (B + files (cmd_open_pipes cmd) (b_fds b)) cmd st" and "length (b_fds b) = 3"
    and "same_globals st st'" and "open_fds (trace st') = open_fds (trace st)"
    and c_def: "c = built_call b args s"
  shows "holds A X B cmd (st'\<lparr>call_heap := call_heap st' @ [Some c]\<rparr>)"
    and "b_fds b ! 0 = -1 \<Longrightarrow> cc_stdin c = 0"
proof -
  obtain f g h where b: "b_fds b = [f, g, h]" using assms(2) by (auto simp: length_Suc_conv numeral_3_eq_3)
  have fds: "call_fds c = [if f = -1 then 0 else f, if g = -1 then 1 else g, if h = -1 then 2 else h]"
    unfolding c_def built_call_def by (simp add: call_fds_def b new_command_call_def)
  then have c: "files (cmd_open_pipes cmd) (call_fds c) = files (cmd_open_pipes cmd) (b_fds b)"
    by (simp add: b)
  have heap: "call_heap st' = call_heap st"     "last_parsed_command_call_substitution st' = last_parsed_command_call_substitution st"
    using assms(3) by (auto simp: same_globals_iff)
  show "holds A X B cmd (st'\<lparr>call_heap := call_heap st' @ [Some c]\<rparr>)"
    using H assms(4) by (simp add: holds_def heap c add_ac)
  show "b_fds b ! 0 = -1 \<Longrightarrow> cc_stdin c = 0"
    using fds by (simp add: b call_fds_def)
qed

lemma finish_call_holds:
  assumes "finish_call inside inpipe s args b cmd st = Inr (Some a, cmd', st')"
    and H: "holds A X (B + files (cmd_open_pipes cmd) (b_fds b)) cmd st" and "length (b_fds b) = 3"
  shows "holds A X B cmd' st' \<and> A \<le> a \<and> (\<exists>c. read_call a st' = Inr c \<and> (inpipe \<longrightarrow> cc_stdin c = 0)) \<and>
     cmd' = cmd \<and> (sub_ok inside A st \<longrightarrow> sub_ok inside A st')"
proof -
  obtain t where run: "sanitize_command_string (Some s) = Inr (Some t)" "inpipe \<longrightarrow> b_fds b ! 0 = -1"
    using assms(1) by (auto simp: finish_call_def bindU_def split: if_splits sum.splits option.splits)
  define c where "c = built_call b args (remove_extra_pipes t)"
  define st1 where "st1 = st\<lparr>call_heap := call_heap st @ [Some c]\<rparr>"
  have a: "a = length (call_heap st)" and "cmd' = cmd"
    and st': "st' = st1\<lparr>last_parsed_command_call := last_parsed_command_call st',
       last_parsed_command_call_substitution :=
         (if last_parsed_command_call_substitution st = None \<and> inside then Some a
          else last_parsed_command_call_substitution st)\<rparr>"
    using assms(1) run
    by (auto simp: finish_call_def build_command_built c_def st1_def Let_def split: if_split_asm)
  note al = holds_alloc [OF H assms(3) same_globals_refl refl c_def, folded st1_def]
  have "A \<le> a" using H by (simp add: holds_def a)
  then have "holds A X B cmd' st'"
    using al(1) \<open>cmd' = cmd\<close> by (subst st') (simp add: holds_def st1_def)
  moreover have sub: "sub_ok inside A st \<longrightarrow> sub_ok inside A st'"
    using \<open>A \<le> a\<close> by (subst st') (simp add: sub_ok_def)
  moreover have "read_call a st' = Inr c"
    by (subst st') (simp add: read_call_def a st1_def)
  ultimately show ?thesis using al(2) run(2) \<open>A \<le> a\<close> \<open>cmd' = cmd\<close> sub by blast
qed

lemma link_pipelines_holds:
  assumes "fresh_fds OS" and run: "link_pipelines OS cmd b a st = Inr (status, cmd', b', st')" and "status \<noteq> -1"
    and H: "holds A X (B + files (cmd_open_pipes cmd) (b_fds b)) cmd st" and "length (b_fds b) = 3"
    and "b_fds b ! 1 = -1" and "A \<le> a" and "read_call a st = Inr c" and "cc_stdin c = 0"
  shows "holds A X (B + files (cmd_open_pipes cmd') (b_fds b')) cmd' st' \<and> length (b_fds b') = 3 \<and>
     set (cmd_open_pipes cmd) \<subseteq> set (cmd_open_pipes cmd') \<and>
     last_parsed_command_call_substitution st' = last_parsed_command_call_substitution st"
proof -
  obtain rd wr st1 where p: "sys_pipe OS st = (Some (rd, wr), st1)"
    using run assms(3) by (auto simp: link_pipelines_def split: prod.splits option.splits)
  define f where "f c = c\<lparr>cc_reading_pipes := add_pipe_pipe_info (cc_reading_pipes c) (open_pipes_size cmd),
      cc_stdin := rd\<rparr>" for c :: command_call
  have u: "update_call a f st1 = Inr st'" and cmd': "cmd' = add_pipe cmd (rd, wr)"
    and b': "b_fds b' = (b_fds b)[1 := wr]"
    using run assms(3) p
    by (auto simp: link_pipelines_def f_def [abs_def] bindU_def Let_def split: sum.splits)
  have "read_call a st1 = read_call a st" using p by (auto simp: sys_defs read_call_def)
  then have r1: "read_call a st1 = Inr c" using assms(8) by simp
  note P = holds_pipe [OF assms(1) H p]
  let ?ps = "cmd_open_pipes cmd @ [(rd, wr)]"
  have ps: "cmd_open_pipes cmd' = ?ps" by (simp add: cmd' add_pipe_def)
  have fc: "files ?ps (call_fds (f c)) = files ?ps (call_fds c)"
    using assms(9) by (simp add: f_def call_fds_def)
  note up = holds_update [OF P(1) [folded cmd'] assms(7) u]
  have "holds A X (B + files ?ps (b_fds b)) cmd' st'" by (rule up(1)) (use r1 fc ps in auto)
  moreover have "last_parsed_command_call_substitution st' = last_parsed_command_call_substitution st1"
    by (rule up(3)) (use r1 fc ps in auto)
  moreover have "last_parsed_command_call_substitution st1 = last_parsed_command_call_substitution st"
    using p by (auto simp: sys_defs)
  moreover have "files ?ps (b_fds b') = files ?ps (b_fds b)"
    using files_update [of 1 "b_fds b" ?ps wr] assms(5,6) by (simp add: b')
  ultimately show ?thesis using assms(5) by (auto simp: ps b')
qed

lemma finish_substitution_holds:
  assumes run: "finish_substitution b i pos q call cmd st = Inr (Some r, b', cmd', st')"
    and H: "holds A X B cmd st" and q: "q \<in> set (cmd_open_pipes cmd)" and "sub_ok True A st"
  shows "holds A X B cmd' st' \<and> b_fds b' = b_fds b \<and> cmd_open_pipes cmd' = cmd_open_pipes cmd \<and>
     last_parsed_command_call_substitution st' = None"
proof -
  define f where "f c = c\<lparr>cc_stdout := snd q\<rparr>" for c :: command_call
  define g where "g c = c\<lparr>cc_writing_pipes := add_pipe_pipe_info (cc_writing_pipes c) pos\<rparr>" for c :: command_call
  obtain l a c st1 st2 where l: "last_parsed_command_call_substitution st = Some l"
    and c: "read_call l st = Inr c" "cc_stdout c = 1"
    and u: "update_call l f st = Inr st1" "update_call l g st1 = Inr st2"
    and st': "st' = st2\<lparr>last_parsed_command_call_substitution := None\<rparr>"
    and cmd': "cmd' = add_call_at_the_end cmd (Some a)" and b': "b_fds b' = b_fds b"
    using run
    by (auto simp: finish_substitution_def update_dependencies_def bindU_def f_def [abs_def] g_def [abs_def]
        split: option.splits sum.splits if_splits)
  have A: "A \<le> l" using assms(4) l by (simp add: sub_ok_def)
  have "snd q \<in># pipe_ends (cmd_open_pipes cmd)" using q by (force simp: pipe_ends_def)
  then have "files (cmd_open_pipes cmd) (call_fds (f c)) = files (cmd_open_pipes cmd) (call_fds c)"
    using c(2) by (simp add: f_def call_fds_def)
  then have H1: "holds A X B cmd st1"
    using c(1) by (intro holds_update(1) [OF H A u(1)]) auto
  have "holds A X B cmd st2"
    by (rule holds_update(1) [OF H1 A u(2)]) (simp add: g_def call_fds_def)
  then show ?thesis using b' by (simp add: st' cmd' holds_def add_call_at_the_end_def)
qed

section \<open>The induction over the parser\<close>

text \<open>What a builder holds is no end of a pipe, also after the parser has opened more pipes.\<close>

lemma builder_not_pipes:
  assumes "holds A X (B + files ps fds) cmd st" and "\<And>x. x \<in> set fds \<Longrightarrow> x \<notin># pipe_ends ps"
    and "x \<in> set fds"
  shows "x \<notin># pipe_ends (cmd_open_pipes cmd)"
proof
  assume e: "x \<in># pipe_ends (cmd_open_pipes cmd)"
  then have "x \<in> set (open_fds (trace st))" by (simp add: set_open_fds [OF assms(1)])
  then have "2 < x" "count (mset (open_fds (trace st))) x \<le> 1"
    using assms(1) by (auto simp: holds_def sane_fds_def distinct_count_atmost_1)
  moreover have "x \<in># files ps fds" using in_files [OF assms(3)] assms(2,3) \<open>2 < x\<close> by blast
  ultimately show False
    using e assms(1) by (simp add: holds_def flip: count_greater_zero_iff)
qed

abbreviation pipes_kept :: "command \<Rightarrow> command \<Rightarrow> bool" where
  "pipes_kept cmd cmd' \<equiv> set (cmd_open_pipes cmd) \<subseteq> set (cmd_open_pipes cmd')"

lemma parse_holds:
  "fresh_fds OS \<Longrightarrow> holds A X B cmd st \<Longrightarrow> sub_ok inside A st \<Longrightarrow>
     parse_command_call OS cmd s inside inpipe st = Inr (Some a, cmd', st') \<Longrightarrow>
     holds A X B cmd' st' \<and> pipes_kept cmd cmd' \<and> sub_ok inside A st' \<and> A \<le> a \<and>
     (\<exists>c. read_call a st' = Inr c \<and> (inpipe \<longrightarrow> cc_stdin c = 0))"
  "fresh_fds OS \<Longrightarrow> holds A X (B + files (cmd_open_pipes cmd) (b_fds b)) cmd st \<Longrightarrow>
     (\<And>x. x \<in> set (b_fds b) \<Longrightarrow> x \<notin># pipe_ends (cmd_open_pipes cmd)) \<Longrightarrow> length (b_fds b) = 3 \<Longrightarrow>
     sub_ok inside A st \<Longrightarrow>
     parse_tokens OS inside index args ts b cmd st = Inr (True, args', b', cmd', st') \<Longrightarrow>
     holds A X (B + files (cmd_open_pipes cmd') (b_fds b')) cmd' st' \<and> pipes_kept cmd cmd' \<and>
     sub_ok inside A st' \<and> length (b_fds b') = 3"
  "fresh_fds OS \<Longrightarrow> holds A X B cmd st \<Longrightarrow>
     parse_command_substitution OS cmd b ts st = Inr (Some r, b', cmd', st') \<Longrightarrow>
     holds A X B cmd' st' \<and> pipes_kept cmd cmd' \<and> b_fds b' = b_fds b \<and>
     last_parsed_command_call_substitution st' = None"
proof (induction OS cmd s inside inpipe st and OS inside index args ts b cmd st and OS cmd b ts st
    arbitrary: B a cmd' st' and B args' b' cmd' st' and B r b' cmd' st'
    rule: parse_command_call_parse_tokens_parse_command_substitution.induct)
  case (1 OS cmd s inside inpipe st)
  obtain tokens where t: "split_string s '' '' = Inr (Some tokens)"
    using "1.prems"(4) by (auto simp: parse_command_call.simps bindU_def split: sum.splits option.splits)
  obtain args b cmd1 st1
    where p: "parse_tokens OS inside 0 [] tokens new_command_call_builder cmd st = Inr (True, args, b, cmd1, st1)"
      and f: "finish_call inside inpipe s args b cmd1 st1 = Inr (Some a, cmd', st')"
    using "1.prems"(4) t
    by (auto simp: parse_command_call.simps elim!: bindU_InrE split: if_splits)
  have "holds A X (B + files (cmd_open_pipes cmd1) (b_fds b)) cmd1 st1 \<and> pipes_kept cmd cmd1 \<and>
      sub_ok inside A st1 \<and> length (b_fds b) = 3"
  proof (rule "1.IH" [OF t refl "1.prems"(1) _ _ _ "1.prems"(3) p])
    show "holds A X (B + files (cmd_open_pipes cmd) (b_fds new_command_call_builder)) cmd st"
      using "1.prems"(2) by (simp add: new_command_call_builder_def)
    have "2 < x" if "x \<in># pipe_ends (cmd_open_pipes cmd)" for x
      using "1.prems"(2) that set_open_fds [OF "1.prems"(2), of x] by (auto simp: holds_def sane_fds_def)
    then show "x \<notin># pipe_ends (cmd_open_pipes cmd)" if "x \<in> set (b_fds new_command_call_builder)" for x
      using that by (fastforce simp: new_command_call_builder_def)
  qed (simp add: new_command_call_builder_def)
  then show ?case using finish_call_holds [OF f] by blast
next
  case (2 OS inside index args b cmd st)
  then show ?case by (simp add: parse_tokens.simps)
next
  case (3 OS inside index args t rest b cmd st)
  note fresh = "3.prems"(1) and H = "3.prems"(2) and own = "3.prems"(3) and len = "3.prems"(4) and sub = "3.prems"(5)
  note run = "3.prems"(6)
  show ?case
  proof (cases "contains_string redirection_caret_symbols t")
    case False
    then show ?thesis using "3.IH"(1) [OF _ fresh H own len sub] run by (simp add: parse_tokens.simps)
  next
    case sym: True
    have rest: "\<not> (rest = [] \<or> index = 0)" and hd: "\<not> contains_string redirection_caret_symbols (hd rest)"
      using run sym by (auto simp: parse_tokens.simps split: if_splits)
    have nsym: "\<not> \<not> contains_string redirection_caret_symbols t" using sym by simp
    note eqs = parse_tokens_symbol [OF sym rest hd]
    consider (subst) "t = ''<(''" | (pipe) "t \<noteq> ''<(''" "t = ''|''" | (redir) "t \<noteq> ''<(''" "t \<noteq> ''|''" by blast
    then show ?thesis
    proof cases
      case subst
      obtain i dev b1 cmd1 st1
        where p: "parse_command_substitution OS cmd b rest st = Inr (Some (i, dev), b1, cmd1, st1)"
          and r: "parse_tokens OS inside (index + i + 2) (args @ [dev]) (drop (i + 1) rest) b1 cmd1 st1 =
            Inr (True, args', b', cmd', st')"
        using run unfolding eqs(1) [OF subst]
        by (auto elim!: bindU_InrE split: option.splits)
      note P = "3.IH"(2) [OF nsym rest hd subst fresh H p]
      have own1: "x \<notin># pipe_ends (cmd_open_pipes cmd1)" if "x \<in> set (b_fds b1)" for x
        using builder_not_pipes [OF conjunct1 [OF P] own, of x] that P by simp
      have b1: "b_fds b1 = b_fds b" using P by blast
      have "files (cmd_open_pipes cmd1) (b_fds b1) = files (cmd_open_pipes cmd) (b_fds b)"
        unfolding b1 using own own1 [unfolded b1] by (intro files_mono) simp_all
      then have H1: "holds A X (B + files (cmd_open_pipes cmd1) (b_fds b1)) cmd1 st1"
        using P by simp
      have "length (b_fds b1) = 3" using P len by simp
      from "3.IH"(3) [OF nsym rest hd subst p refl refl refl refl refl fresh H1 own1 this _ r]
      show ?thesis using P by (auto simp: sub_ok_def)
    next
      case pipe
      have un: "b_fds b ! 1 = -1" using run sym rest hd pipe by (auto simp: parse_tokens.simps split: if_splits)
      then have nun: "\<not> b_fds b ! 1 \<noteq> -1" by simp
      obtain joined where j: "join_strings rest '' '' = Inr joined" by (simp add: join_strings_intercalate)
      obtain a cmd1 st1 status cmd2
        where p: "parse_command_call OS cmd (cstr_text joined) inside True st = Inr (Some a, cmd1, st1)"
          and l: "link_pipelines OS cmd1 b a st1 = Inr (status, cmd2, b', st')" "status \<noteq> -1"
          and c: "cmd' = (if last_parsed_command_call st' \<noteq> Some a \<or> inside
                    then add_call_at_the_end cmd2 (Some a) else cmd2)"
        using run unfolding eqs(2) [OF pipe(2) un j]
        by (auto elim!: bindU_InrE split: option.splits if_splits)
      note P = "3.IH"(4) [OF nsym rest hd pipe nun j fresh H sub p]
      have own1: "x \<notin># pipe_ends (cmd_open_pipes cmd1)" if "x \<in> set (b_fds b)" for x
        using builder_not_pipes [OF conjunct1 [OF P] own that] .
      then have "files (cmd_open_pipes cmd1) (b_fds b) = files (cmd_open_pipes cmd) (b_fds b)"
        using own by (intro files_mono) simp_all
      then have "holds A X (B + files (cmd_open_pipes cmd1) (b_fds b)) cmd1 st1" using P by simp
      then have "holds A X (B + files (cmd_open_pipes cmd2) (b_fds b')) cmd2 st' \<and> length (b_fds b') = 3 \<and>
          pipes_kept cmd1 cmd2 \<and> last_parsed_command_call_substitution st' = last_parsed_command_call_substitution st1"
        using link_pipelines_holds [OF fresh l _ len un] P by blast
      moreover have "cmd_open_pipes cmd' = cmd_open_pipes cmd2" by (simp add: c add_call_at_the_end_def)
      ultimately show ?thesis using P by (simp add: holds_def sub_ok_def) blast
    next
      case redir
      obtain status fds1 st1 where pr: "parse_redirections OS (b_fds b) t (hd rest) st = (status, fds1, st1)"
        by (metis prod_cases3)
      have s: "\<not> status < 0"
        and r: "parse_tokens OS inside (index + 2) args (tl rest) (b\<lparr>b_fds := fds1\<rparr>) cmd st1 = Inr (True, args', b', cmd', st')"
        using run unfolding eqs(3) [OF redir pr] by (auto split: if_splits)
      have R: "holds A X (B + files (cmd_open_pipes cmd) fds1) cmd st1 \<and> length fds1 = 3 \<and>
          (\<forall>x \<in> set fds1. x \<notin># pipe_ends (cmd_open_pipes cmd))"
        using parse_redirections_cases [OF pr s] holds_redirect [OF fresh H own len] by blast
      have pr_sub: "last_parsed_command_call_substitution st1 = last_parsed_command_call_substitution st"
        using same_globals_parser [OF conjunct2 [OF parse_redirections_frame [OF pr]]] by blast
      show ?thesis
        by (rule "3.IH"(5) [OF nsym rest hd redir pr [symmetric] refl refl refl s fresh _ _ _ _ r])
          (use R sub pr_sub in \<open>simp_all add: sub_ok_def\<close>)
    qed
  qed
next
  case (4 OS cmd b ts st)
  define st0 where "st0 = st\<lparr>last_parsed_command_call_substitution := None\<rparr>"
  obtain i n where sc: "scan_substitution ts 0 0 = (i, n)" by fastforce
  have i: "\<not> (i = length ts \<or> n \<noteq> 0)"
    using "4.prems"(3) sc by (auto simp: parse_command_substitution.simps Let_def split: if_splits)
  obtain q st1 where p: "sys_pipe OS st0 = (Some q, st1)"
    using "4.prems"(3) sc i by (auto simp: parse_command_substitution.simps st0_def Let_def split: prod.splits option.splits)
  obtain joined where j: "join_strings (take i ts) '' '' = Inr joined" by (simp add: join_strings_intercalate)
  obtain call cmd1 st2
    where c: "parse_command_call OS (add_pipe cmd q) (cstr_text joined) True False st1 = Inr (call, cmd1, st2)"
      and f: "finish_substitution b i (open_pipes_size cmd) q call cmd1 st2 = Inr (Some r, b', cmd', st')"
    using "4.prems"(3) sc i p [unfolded st0_def] j
    by (auto simp: parse_command_substitution.simps Let_def elim!: bindU_InrE split: if_splits)
  obtain a where a: "call = Some a"
    using f by (cases call) (auto simp: finish_substitution_def split: option.splits)
  have H0: "holds A X (B + files (cmd_open_pipes cmd) []) cmd st0"
    using "4.prems"(2) by (simp add: holds_def st0_def)
  have H1: "holds A X B (add_pipe cmd q) st1"
    using holds_pipe(1) [OF "4.prems"(1) H0 p] by simp
  have "sub_ok True A st1" using p by (auto simp: sub_ok_def st0_def sys_defs)
  note P = "4.IH" [OF st0_def refl sc [symmetric] i refl p [symmetric] refl refl refl j "4.prems"(1) H1 this c [unfolded a]]
  have "q \<in> set (cmd_open_pipes cmd1)" and "pipes_kept cmd cmd1" using P by (auto simp: add_pipe_def)
  then show ?case using finish_substitution_holds [OF f conjunct1 [OF P]] P by simp
qed

section \<open>Commands\<close>

text \<open>What a command holds when it has been parsed.\<close>

definition held :: "command \<Rightarrow> shell \<Rightarrow> fd multiset" where
  "held cmd st = pipe_ends (cmd_open_pipes cmd) +
     (\<Sum>a\<leftarrow>cmd_calls cmd. files (cmd_open_pipes cmd) (call_fds (the_call st a)))"

lemma heap_files_calls:
  assumes "\<And>a. a \<in> set as \<Longrightarrow> live st a"
  shows "heap_files ps (map ((!) (call_heap st)) as) = (\<Sum>a\<leftarrow>as. files ps (call_fds (the_call st a)))"
  using assms by (induction as) (auto simp: the_call_at)

lemma parse_command_run:
  assumes "parse_command OS s st = Inr (Some cmd, st')"
  obtains t a cmd1 st1
    where "parse_command_call OS \<lparr>cmd_string = Some t, cmd_calls = [], cmd_background = False, cmd_open_pipes = []\<rparr>
             s False False (st\<lparr>last_parsed_command_call := None\<rparr>) = Inr (Some a, cmd1, st1)"
      and "cmd_open_pipes cmd = cmd_open_pipes cmd1" and "st' = st1\<lparr>last_parsed_command_call := None\<rparr>"
proof -
  obtain t cmd0 where t: "cmd0 = \<lparr>cmd_string = Some t, cmd_calls = [], cmd_background = False, cmd_open_pipes = []\<rparr>"
    and step: "bindU (parse_command_call OS cmd0 s False False (st\<lparr>last_parsed_command_call := None\<rparr>))
       (\<lambda>(call, cmd, st). case call of
          None \<Rightarrow> parse_command_error (add_call_at_the_end cmd (last_parsed_command_call st)) st
        | Some a \<Rightarrow>
            (if last_parsed_command_call st = None
             then parse_command_error (add_call_at_the_end cmd (Some a)) st
             else let cmd = (if last_parsed_command_call st \<noteq> Some a
                             then add_call_at_the_end cmd (Some a) else cmd);
                      cmd = add_call_at_the_beginning cmd (last_parsed_command_call st)
                  in Inr (Some cmd, st\<lparr>last_parsed_command_call := None\<rparr>))) = Inr (Some cmd, st')"
    using assms
    by (auto simp: parse_command_def new_empty_command_def destroy_command_def Let_def elim!: bindU_InrE
        split: if_splits option.splits)
  define st0 where "st0 = st\<lparr>last_parsed_command_call := None\<rparr>"
  obtain call cmd1 st1 where p: "parse_command_call OS cmd0 s False False st0 = Inr (call, cmd1, st1)"
    using step by (auto simp: st0_def elim!: bindU_InrE)
  have err: "parse_command_error c st1 \<noteq> Inr (Some cmd, st')" for c
    by (auto simp: parse_command_error_def Let_def elim!: bindU_InrE)
  obtain a where a: "call = Some a"
    using step p [unfolded st0_def] err by (cases call) auto
  have "cmd_open_pipes cmd = cmd_open_pipes cmd1" and "st' = st1\<lparr>last_parsed_command_call := None\<rparr>"
    using step p [unfolded st0_def] a err
    by (auto simp: Let_def add_call_at_the_end_def add_call_at_the_beginning_def split: if_splits option.splits)
  then show ?thesis using that p a by (auto simp: st0_def t)
qed

lemma parse_command_holds:
  assumes "fresh_fds OS" and sane: "sane_fds (open_fds (trace st))"
    and run: "parse_command OS s st = Inr (Some cmd, st')"
  defines "A \<equiv> length (call_heap st)"
  shows "sane_fds (open_fds (trace st')) \<and> mset (open_fds (trace st')) =
     mset (open_fds (trace st)) + pipe_ends (cmd_open_pipes cmd) +
     heap_files (cmd_open_pipes cmd) (drop A (call_heap st'))"
proof -
  define st0 where "st0 = st\<lparr>last_parsed_command_call := None\<rparr>"
  obtain t a cmd1 st1
    where p: "parse_command_call OS \<lparr>cmd_string = Some t, cmd_calls = [], cmd_background = False, cmd_open_pipes = []\<rparr>
             s False False st0 = Inr (Some a, cmd1, st1)"
      and cmd: "cmd_open_pipes cmd = cmd_open_pipes cmd1" and st': "st' = st1\<lparr>last_parsed_command_call := None\<rparr>"
    using parse_command_run [OF run] by (metis st0_def)
  have "holds A (mset (open_fds (trace st))) {#}
      \<lparr>cmd_string = Some t, cmd_calls = [], cmd_background = False, cmd_open_pipes = []\<rparr> st0"
    using sane by (simp add: holds_def st0_def A_def)
  then have "holds A (mset (open_fds (trace st))) {#} cmd1 st1"
    using parse_holds(1) [OF assms(1) _ _ p] by (simp add: sub_ok_def)
  then show ?thesis by (simp add: holds_def cmd st')
qed

lemma parse_command_held:
  assumes "fresh_fds OS" and "sane_fds (open_fds (trace st))"
    and "parse_command OS s st = Inr (Some cmd, st')"
  shows "sane_fds (open_fds (trace st')) \<and>
     mset (open_fds (trace st')) = mset (open_fds (trace st)) + held cmd st'"
proof -
  have t: "command_tree st' cmd" and c: "mset (cmd_calls cmd) = mset (fresh st st')"
    using yields_InrD [OF parse_command_tree assms(3)] by simp_all
  have live: "live st' a" if "a \<in> set (fresh st st')" for a
    using t that c by (metis command_tree_def set_mset_mset)
  have "drop (length (call_heap st)) (call_heap st') = map ((!) (call_heap st')) (fresh st st')"
    unfolding fresh_def by (rule nth_equalityI) simp_all
  then have "heap_files ps (drop (length (call_heap st)) (call_heap st')) =
      (\<Sum>a\<leftarrow>cmd_calls cmd. files ps (call_fds (the_call st' a)))" for ps
    using heap_files_calls [OF live, of "fresh st st'" ps] c
    by (metis (no_types, lifting) mset_map sum_mset_sum_list)
  then show ?thesis using parse_command_holds [OF assms] by (simp add: held_def add.assoc)
qed

text \<open>
  C15. The parser opens nothing that the command does not know: when it returns a command, the
  descriptors opened by then are exactly both ends of every pipe of the command and the
  files its calls are redirected to, each once, if the kernel never gives a descriptor that
  is in use.
\<close>

theorem parse_command_opens:
  assumes "fresh_fds OS" and "sane_fds (open_fds (trace st))"
    and "parse_command OS s st = Inr (Some cmd, st')"
  shows "sane_fds (open_fds (trace st')) \<and>
     mset (open_fds (trace st')) = mset (open_fds (trace st)) + held cmd st'"
  by (rule parse_command_held [OF assms])

lemma sample_os_fresh: "fresh_fds sample_os"
proof -
  have "r < next_fd h" if "r \<in> set (open_fds h)" for r h using that by (rule next_fd_fresh(2))
  then have "next_fd h \<notin> set (open_fds h)" "next_fd h + 1 \<notin> set (open_fds h)" for h by fastforce+
  moreover have "2 < next_fd h" "2 < next_fd h + 1" for h using next_fd_fresh(1) [of h] by simp_all
  ultimately show ?thesis by (simp add: fresh_fds_def sample_os_def)
qed

lemma parse_command_opens_witness:
  "\<exists>cmd st'. parse_command sample_os ''a <( b ) x | d > f'' initial_shell = Inr (Some cmd, st') \<and>
     size (held cmd st') = 5 \<and> length (open_fds (trace st')) = 5"
proof -
  let ?p = "parse_command sample_os ''a <( b ) x | d > f'' initial_shell"
  have "case ?p of Inr (Some cmd, st') \<Rightarrow> length (open_fds (trace st')) = 5 | _ \<Rightarrow> False" by code_simp
  then obtain cmd st' where p: "?p = Inr (Some cmd, st')" and l: "length (open_fds (trace st')) = 5"
    by (cases ?p) (auto split: option.splits)
  have "sane_fds (open_fds (trace initial_shell))" by (simp add: sane_fds_def initial_shell_def)
  from parse_command_opens [OF sample_os_fresh this p]
  have "mset (open_fds (trace st')) = held cmd st'" by (simp add: initial_shell_def)
  then show ?thesis using p l by (metis size_mset)
qed

end
