(* ===== verification/Leak_Freedom.thy ===== *)
theory Leak_Freedom
  imports Session Observation Descriptors
begin

text \<open>
  Executing a command closes every descriptor that parsing it has opened, and no other: the
  shell does not run out of descriptors, however long it runs. The built-ins open none that
  they do not close; the parent's side of \<^verbatim>\<open>fork\<close> is balanced; \<^verbatim>\<open>execute_external_command\<close>
  closes the pipes and \<^verbatim>\<open>close_unused_file_descriptors\<close> the files.
\<close>

section \<open>The open descriptors as an observation\<close>

definition fds :: "shell \<Rightarrow> fd multiset" where
  "fds st = mset (open_fds (trace st))"

interpretation descriptors: trace_observer fds add_mset "\<lambda>fd x. x - {#fd#}"
proof
  fix e :: event and st :: shell
  show "quiet e \<Longrightarrow> fds (record_event e st) = fds st" by (cases e) (simp_all add: fds_def record_event_def)
qed (simp_all add: fds_def record_event_def)

lemma fds_fork [kept]: "sys_fork OS st = (p, st') \<Longrightarrow> fds st' = fds st"
  by (auto simp: fds_def sys_defs)

section \<open>Processes\<close>

lemma lift_cres_ret: "lift_cres m = ret x \<longleftrightarrow> m = Inr x"
  by (cases m) (simp_all add: lift_cres_def)

text \<open>
  The kernel never refuses a pipe or a process, and the handshake of parent and child goes
  through. (Where it does refuse, \<^verbatim>\<open>execute_single_command\<close> leaves the ends of its pipes open.)
\<close>

definition grants :: "os \<Rightarrow> bool" where
  "grants OS \<longleftrightarrow>
     (\<forall>h. os_pipe OS h \<noteq> None \<and> os_fork OS h \<noteq> -1 \<and> (\<forall>fd. os_read_int OS h fd \<noteq> None) \<and>
          (\<forall>fd v. os_write_int OS h fd v))"

lemma single_command_started:
  assumes "grants OS" and "execute_single_command OS cmd call j st = ret (info, j', st')"
  shows "info \<noteq> None"
proof (cases "is_internal_command call")
  case True
  then show ?thesis
    using assms(2) by (cases "execute_internal_command OS call st") (auto simp: execute_single_command_def)
next
  case False
  have io [simp]: "os_read_int OS h fd \<noteq> None" "os_write_int OS h fd v" "os_pipe OS h \<noteq> None" "os_fork OS h \<noteq> -1"
    for h fd v using assms(1) by (simp_all add: grants_def)
  have parent: "parent_process OS p p1 p2 j st1 = ret (info, j', st') \<Longrightarrow> info \<noteq> None" for p p1 p2 st1
    by (auto simp: parent_process_def sys_read_int_def sys_write_int_def Let_def split: option.splits if_split_asm)
  have "child_process OS cmd call p1 p2 st1 \<noteq> ret (info, j', st')" for p1 p2 st1
    using never_returns_child never_returns.simps(2) by metis
  then show ?thesis
    using False assms(2) parent
    by (auto simp: execute_single_command_def sys_pipe_def sys_fork_def Let_def split: option.splits if_split_asm)
qed

lemma fds_single_command:
  assumes "grants OS" and "execute_single_command OS cmd call j st = ret (info, j', st')"
  shows "fds st' = fds st"
proof (cases "is_internal_command call")
  case True
  then show ?thesis
    using assms(2) descriptors.seen_internal
    by (cases "execute_internal_command OS call st") (auto simp: execute_single_command_def)
next
  case False
  obtain i where i: "info = Some i" using single_command_started [OF assms] by blast
  obtain p p1 p2 v where "trace st' = rev (parent_script p1 p2 (job_pgid j') v) @
      [Ev_Fork p, Ev_Pipe (Some p2), Ev_Pipe (Some p1)] @ trace st"
    using started_call [OF assms(2) [unfolded i] False] by fastforce
  then show ?thesis by (simp only: fds_def parent_script_balanced)
qed

lemma fds_execute_calls:
  assumes "grants OS"
  shows "execute_calls OS cmd i calls info j st = ret (info', j', st') \<Longrightarrow> fds st' = fds st"
proof (induction calls arbitrary: i info j st)
  case (Cons a calls)
  obtain call where c: "read_call a st = Inr call" using Cons.prems by (cases "read_call a st") simp_all
  obtain info1 j1 st1 where s: "execute_single_command OS cmd call j st = ret (info1, j1, st1)"
    using Cons.prems c by (auto simp: bindP_eq_Running)
  then obtain i1 where "info1 = Some i1" using single_command_started [OF assms] by blast
  with Cons show ?case using c s fds_single_command [OF assms s] by (auto simp: Let_def split: if_split_asm)
qed simp

lemma fds_close_pipes: "fds (close_pipes ps st) = fds st - pipe_ends ps"
  by (induction ps st rule: close_pipes.induct) (simp_all add: add_mset_commute)

lemma fds_register [kept]: "register_job j info result st = (result', st') \<Longrightarrow> fds st' = fds st"
  using descriptors.seen_table(2) [of "Some j" st] by (auto simp: register_job_def Let_def split: prod.splits)

lemma fds_external:
  assumes "grants OS" and "execute_external_command OS cmd st = ret (result, st')"
  shows "fds st' = fds st - pipe_ends (cmd_open_pipes cmd)"
proof -
  obtain info j st1 where e: "execute_as_job OS cmd (setup_job cmd) st = ret (info, j, st1)"
    using assms(2) by (auto simp: execute_external_command_def Let_def bindP_eq_Running)
  have "fds st1 = fds st" using fds_execute_calls [OF assms(1)] e by (simp add: execute_as_job_def)
  then show ?thesis
    using assms(2) fds_close_pipes
    by (auto simp: execute_external_command_def e Let_def split: option.splits if_split_asm prod.splits dest!: kept)
qed

section \<open>Files\<close>

lemma contains2_ends: "contains2 ps x \<longleftrightarrow> x \<in># pipe_ends ps"
  by (induction ps) auto

lemma fds_close_unpiped: "fds (close_unpiped ps xs st) = fds st - files ps xs"
  by (induction ps xs st rule: close_unpiped.induct) (auto simp: contains2_ends simp del: contains2_iff)

text \<open>The array of \<^verbatim>\<open>close_unused_file_descriptors_helper\<close> has every file once.\<close>

lemma files_set_of_three:
  assumes "\<And>x. count (files ps [a, b, c]) x \<le> 1"
  shows "files ps (snd (add_set (snd (add_set (snd (add_set [-1, -1, -1] a)) b)) c)) = files ps [a, b, c]"
proof -
  have "a = b \<Longrightarrow> 2 < a \<Longrightarrow> a \<in># pipe_ends ps" "a = c \<Longrightarrow> 2 < a \<Longrightarrow> a \<in># pipe_ends ps"
    "b = c \<Longrightarrow> 2 < b \<Longrightarrow> b \<in># pipe_ends ps"
    using assms [of a] assms [of b] by (auto split: if_split_asm)
  then show ?thesis by auto
qed

lemma distinct_le_one: "(\<And>x. count (mset xs) x \<le> 1) \<Longrightarrow> distinct xs"
proof -
  assume le: "\<And>x. count (mset xs) x \<le> 1"
  have "count (mset xs) x = (if x \<in> set xs then 1 else 0)" for x
  proof (cases "x \<in> set xs")
    case True
    then have "0 < count (mset xs) x" by (simp add: count_greater_zero_iff)
    then have "count (mset xs) x = 1" using le [of x] by linarith
    then show ?thesis using True by simp
  qed (simp add: count_eq_zero_iff)
  then show "distinct xs" by (simp add: distinct_count_atmost_1)
qed

lemma distinct_fds_le:
  assumes "fds st' \<subseteq># fds st" and "distinct (open_fds (trace st))"
  shows "distinct (open_fds (trace st'))"
proof (rule distinct_le_one)
  fix x
  have "count (fds st') x \<le> count (fds st) x" by (rule mset_subset_eq_count [OF assms(1)])
  also have "\<dots> \<le> 1" using assms(2) by (simp add: fds_def distinct_count_atmost_1)
  finally show "count (mset (open_fds (trace st'))) x \<le> 1" by (simp only: fds_def)
qed

lemma fds_close_calls:
  assumes "distinct (open_fds (trace st))" and "close_calls cmd as st = Inr st'"
    and "(\<Sum>a\<leftarrow>as. files (cmd_open_pipes cmd) (call_fds (the_call st a))) \<subseteq># fds st"
  shows "fds st' = fds st - (\<Sum>a\<leftarrow>as. files (cmd_open_pipes cmd) (call_fds (the_call st a)))"
  using assms
proof (induction as arbitrary: st)
  case (Cons a as)
  let ?f = "\<lambda>st a. files (cmd_open_pipes cmd) (call_fds (the_call st a))"
  obtain c where c: "read_call a st = Inr c"
    using Cons.prems(2) by (auto simp: close_unused_file_descriptors_helper_def elim!: bindU_InrE)
  then have tc: "the_call st a = c"
    by (auto simp: read_call_def the_call_def split: if_splits option.splits)
  define xs where "xs = snd (add_set (snd (add_set (snd (add_set [-1, -1, -1] (cc_stdin c))) (cc_stdout c))) (cc_stderr c))"
  define st1 where "st1 = close_unpiped (cmd_open_pipes cmd) xs st"
  have g: "same_globals st st1" unfolding st1_def by (rule same_globals_close_unpiped)
  then have tcs: "the_call st1 = the_call st" by (auto simp: same_globals_iff the_call_def)
  have run: "close_calls cmd as st1 = Inr st'"
    using Cons.prems(2) c by (simp add: close_unused_file_descriptors_helper_def xs_def st1_def Let_def)
  have le: "?f st a + (\<Sum>a\<leftarrow>as. ?f st a) \<subseteq># fds st" using Cons.prems(3) by simp
  have "count (?f st a) x \<le> 1" for x
  proof -
    have "count (?f st a) x \<le> count (fds st) x" using le by (meson mset_subset_eq_add_left mset_subset_eq_count order_trans)
    also have "\<dots> \<le> 1" using Cons.prems(1) by (simp add: fds_def distinct_count_atmost_1)
    finally show ?thesis .
  qed
  then have "files (cmd_open_pipes cmd) xs = ?f st a"
    unfolding xs_def tc call_fds_def by (rule files_set_of_three)
  then have f1: "fds st1 = fds st - ?f st a" by (simp add: st1_def fds_close_unpiped)
  have "(\<Sum>a\<leftarrow>as. ?f st1 a) \<subseteq># fds st1"
  proof (rule mset_subset_eqI)
    fix x show "count (\<Sum>a\<leftarrow>as. ?f st1 a) x \<le> count (fds st1) x"
      unfolding f1 tcs using mset_subset_eq_count [OF le, of x] by simp
  qed
  moreover have "distinct (open_fds (trace st1))"
    by (rule distinct_fds_le [OF _ Cons.prems(1)]) (simp add: f1)
  ultimately have "fds st' = fds st1 - (\<Sum>a\<leftarrow>as. ?f st1 a)" using Cons.IH run by blast
  then show ?case by (simp add: f1 tcs)
qed simp

section \<open>Commands\<close>

text \<open>The descriptors of a command that is executed are closed, all of them and no others.\<close>

lemma command_closes:
  assumes "grants OS" and "session_inv st" and tree: "command_tree st cmd"
    and "distinct (open_fds (trace st))" and F: "fds st = X + held cmd st"
    and run: "execute_command OS cmd st = ret (result, st')"
  shows "fds st' = X"
proof -
  let ?ps = "cmd_open_pipes cmd"
  have calls: "\<forall>a \<in> set (cmd_calls cmd). live st a \<and> knows_pipes cmd (the_call st a)"
    using tree command_tree_knows_pipes [OF tree] by (auto simp: command_tree_def)
  obtain internal r st1 st2
    where i: "lift_cres (if command_call_count cmd = 1
          then bindU (read_call (hd (cmd_calls cmd)) st)
                 (\<lambda>call. Inr (if is_internal_command call then Some call else None))
          else Inr None) = ret internal"
      and e: "(case internal of
          Some call \<Rightarrow> bindP (lift_cres (execute_internal_command OS call st)) (\<lambda>(exit_code, st).
            ret (new_command_result exit_code cmd, st))
        | None \<Rightarrow> execute_external_command OS cmd st) = ret (r, st1)"
      and c: "close_calls cmd (cmd_calls cmd) st1 = Inr st2"
      and st': "st' = st2\<lparr>last_exit_code := r_exit_code r\<rparr>"
    using run
    by (auto simp: execute_command_def bindP_eq_Running close_unused_file_descriptors_def
        update_command_history_def lift_cres_ret)
  have "fds st1 = fds st - pipe_ends ?ps \<and> call_heap st1 = call_heap st"
  proof (cases internal)
    case None
    then show ?thesis
      using e fds_external [OF assms(1)] yieldsP_InrD [OF good_external [OF assms(2) calls], of OS]
      by (auto simp: good_outcome_def keeps_def)
  next
    case (Some call)
    then have "?ps = []" using i tree by (auto simp: command_tree_def split: if_split_asm)
    moreover obtain n where n: "execute_internal_command OS call st = Inr (n, st1)"
      using e Some by (auto simp: bindP_eq_Running lift_cres_ret)
    ultimately show ?thesis
      using descriptors.seen_internal [OF n] good_internal [OF assms(2), of OS call] by (simp add: keeps_def)
  qed
  then have tc: "the_call st1 = the_call st"
    and f1: "fds st1 = X + (\<Sum>a\<leftarrow>cmd_calls cmd. files ?ps (call_fds (the_call st1 a)))"
    by (simp_all add: F held_def the_call_def fun_eq_iff)
  have "distinct (open_fds (trace st1))"
    by (rule distinct_fds_le [OF _ assms(4)]) (simp add: f1 F held_def tc)
  then show ?thesis using fds_close_calls [OF _ c] f1 by (simp add: st')
qed

lemma blank_piece: "set piece \<subseteq> {CHR '' ''} \<Longrightarrow> parse_command OS piece st = Inr (None, st)"
  by (auto simp: parse_command_def new_empty_command_def is_only_composed_of_single)

end
