(* ===== verification/Parse_Failure.thy ===== *)
theory Parse_Failure
  imports Leak_Freedom
begin

text \<open>
  A command that does not parse leaves nothing behind: the parser closes every descriptor it
  has opened and frees every call it has built, wherever in the command the error is, when
  the kernel refuses no pipe. (On the way out it may close the end of a pipe twice.)
\<close>

section \<open>After an error\<close>

text \<open>
  \<open>X\<close>, \<open>A\<close> and \<open>B\<close> are as in \<open>holds\<close>. The files are still open; ends of pipes may have been
  closed.
\<close>

definition left_over :: "addr \<Rightarrow> fd multiset \<Rightarrow> fd multiset \<Rightarrow> command \<Rightarrow> shell \<Rightarrow> bool" where
  "left_over A X B cmd st \<longleftrightarrow>
     (let P = pipe_ends (cmd_open_pipes cmd); H = heap_files (cmd_open_pipes cmd) (drop A (call_heap st))
      in A \<le> length (call_heap st) \<and> (\<forall>x. count (X + P + H + B) x \<le> 1) \<and>
         X + H + B \<subseteq># fds st \<and> fds st \<subseteq># X + P + H + B)"

text \<open>The calls built since \<open>st\<close> are listed in the command, but for the last one of the pipeline.\<close>

definition listed :: "bool \<Rightarrow> command \<Rightarrow> shell \<Rightarrow> command \<Rightarrow> shell \<Rightarrow> bool" where
  "listed inside cmd st cmd' st' \<longleftrightarrow>
     length (call_heap st) \<le> length (call_heap st') \<and>
     (\<exists>new. cmd_calls cmd' = cmd_calls cmd @ new \<and>
       (if inside then mset new = mset (fresh st st')
        else mset (new @ (case last_parsed_command_call st' of None \<Rightarrow> [] | Some l \<Rightarrow> [l])) =
             mset (fresh st st')))"

definition grants_pipes :: "os \<Rightarrow> bool" where
  "grants_pipes OS \<longleftrightarrow> (\<forall>h. os_pipe OS h \<noteq> None)"

lemma pipe_granted: "grants_pipes OS \<Longrightarrow> \<exists>q st'. sys_pipe OS st = (Some q, st')"
  by (auto simp: grants_pipes_def sys_pipe_def Let_def)

lemma holds_left_over: "holds A X B cmd st \<Longrightarrow> left_over A X B cmd st"
proof -
  assume H: "holds A X B cmd st"
  then have "distinct (open_fds (trace st))" by (simp add: holds_def sane_fds_def)
  then have "count (fds st) x \<le> 1" for x by (simp add: fds_def distinct_count_atmost_1)
  then show ?thesis
    using H by (simp add: left_over_def holds_def Let_def fds_def [symmetric] add_ac)
qed

lemma left_over_trace:
  assumes "left_over A X B cmd st" and "same_globals st st'" and "fds st' = fds st"
  shows "left_over A X B cmd st'"
  using assms same_globals_parser [OF assms(2)] by (simp add: left_over_def)

lemma left_over_counts:
  assumes "left_over A X B cmd st"
  defines "P \<equiv> pipe_ends (cmd_open_pipes cmd)"
    and "H \<equiv> heap_files (cmd_open_pipes cmd) (drop A (call_heap st))"
  shows "count X x + count P x + count H x + count B x \<le> 1"
    and "count X x + count H x + count B x \<le> count (fds st) x"
    and "count (fds st) x \<le> count X x + count P x + count H x + count B x"
proof -
  have one: "\<forall>x. count (X + P + H + B) x \<le> 1" and le: "X + H + B \<subseteq># fds st" "fds st \<subseteq># X + P + H + B"
    using assms(1) by (simp_all add: left_over_def Let_def P_def H_def)
  show "count X x + count P x + count H x + count B x \<le> 1" using one by simp
  show "count X x + count H x + count B x \<le> count (fds st) x"
    using mset_subset_eq_count [OF le(1), of x] by simp
  show "count (fds st) x \<le> count X x + count P x + count H x + count B x"
    using mset_subset_eq_count [OF le(2), of x] by simp
qed

lemma left_over_files:
  assumes "left_over A X (B + files ps xs) cmd st" and "\<And>x. x \<in> set xs \<Longrightarrow> x \<notin># pipe_ends ps"
  shows "files (cmd_open_pipes cmd) xs = files ps xs"
proof (rule files_mono)
  fix x assume x: "x \<in> set xs" "2 < x"
  then have "x \<in># files ps xs" by (rule in_files) (rule assms(2) [OF x(1)])
  then have "0 < count (files ps xs) x" by (simp only: count_greater_zero_iff)
  then have "count (pipe_ends (cmd_open_pipes cmd)) x = 0"
    using left_over_counts(1) [OF assms(1), of x] by (simp only: count_union)
  then have "x \<notin># pipe_ends (cmd_open_pipes cmd)" by (simp only: not_in_iff)
  then show "x \<in># pipe_ends (cmd_open_pipes cmd) \<longleftrightarrow> x \<in># pipe_ends ps"
    using assms(2) [OF x(1)] by blast
qed

lemma fds_closed: "mset (open_fds (map Ev_Close cs @ h)) = mset (open_fds h) - mset cs"
  by (induction cs) simp_all

lemma left_over_close_builder:
  assumes L: "left_over A X (B + files (cmd_open_pipes cmd) xs) cmd st"
  shows "left_over A X B cmd (close_unused_file_descriptors_from_array (Some xs) st)"
proof -
  obtain cs where c: "close_unused_file_descriptors_from_array (Some xs) st = st\<lparr>trace := map Ev_Close cs @ trace st\<rparr>"
      "distinct cs" "set cs = {x \<in> set xs. 2 < x}"
    using close_from_array_trace by blast
  let ?ps = "cmd_open_pipes cmd"
  define P where "P = pipe_ends ?ps"
  define H where "H = heap_files ?ps (drop A (call_heap st))"
  define F where "F = files ?ps xs"
  define st' where "st' = st\<lparr>trace := map Ev_Close cs @ trace st\<rparr>"
  note counts = left_over_counts [OF L, folded P_def H_def F_def, unfolded count_union]
  have f: "count (fds st') x = count (fds st) x - count (mset cs) x" for x
    by (simp add: st'_def fds_def fds_closed)
  have bounds: "count X x + count H x + count B x \<le> count (fds st') x \<and>
      count (fds st') x \<le> count X x + count P x + count H x + count B x" for x
  proof (cases "x \<in> set cs")
    case True
    then have "x \<in># P \<or> x \<in># F" using c(3) in_files [of x xs ?ps] by (auto simp: P_def F_def)
    then have "0 < count P x + count F x" by (auto simp: count_eq_zero_iff simp del: count_greater_zero_iff intro: gr0I)
    moreover have "count (mset cs) x = 1" using c(2) True by (simp add: distinct_count_atmost_1)
    ultimately show ?thesis using counts [of x] unfolding f by linarith
  next
    case False
    then have "count F x = 0" using c(3) by (auto simp: F_def files_def count_eq_zero_iff)
    moreover have "count (mset cs) x = 0" using False by (simp add: count_eq_zero_iff)
    ultimately show ?thesis using counts [of x] unfolding f by linarith
  qed
  have one: "count X x + count P x + count H x + count B x \<le> 1" for x using counts(1) [of x] by linarith
  have h: "call_heap st' = call_heap st" by (simp add: st'_def)
  have "left_over A X B cmd st'"
    using L bounds one
    by (simp add: left_over_def Let_def h P_def [symmetric] H_def [symmetric] subseteq_mset_def)
  then show ?thesis by (simp add: c(1) st'_def)
qed

section \<open>The steps of the parser\<close>

text \<open>At the tokens of a call: what the earlier inductions over the parser assume.\<close>

definition at_tokens ::
  "bool \<Rightarrow> addr \<Rightarrow> fd multiset \<Rightarrow> fd multiset \<Rightarrow> command \<Rightarrow> string list \<Rightarrow> command_call_builder \<Rightarrow>
     string list \<Rightarrow> shell \<Rightarrow> bool" where
  "at_tokens inside A X B cmd args b ts st \<longleftrightarrow>
     holds A X (B + files (cmd_open_pipes cmd) (b_fds b)) cmd st \<and>
     (\<forall>x \<in> set (b_fds b). x \<notin># pipe_ends (cmd_open_pipes cmd)) \<and>
     sub_ok inside A st \<and> ready inside st \<and> b_wired (cmd_open_pipes cmd) args b \<and>
     b_writing_pipes b = Some [] \<and> are_words ts"

lemma listed_refl:
  assumes "ready inside st" and "same_globals st st'" and "cmd_calls cmd' = cmd_calls cmd"
  shows "listed inside cmd st cmd' st'"
proof -
  have "fresh st st' = []" "length (call_heap st') = length (call_heap st)"
    "\<not> inside \<Longrightarrow> last_parsed_command_call st' = None"
    using assms(1) conjunct1 [OF conjunct2 [OF same_globals_parser [OF assms(2)]]]
      conjunct1 [OF conjunct2 [OF conjunct2 [OF conjunct2 [OF conjunct2 [OF same_globals_parser [OF assms(2)]]]]]]
    by (simp_all add: fresh_def ready_def)
  then show ?thesis using assms(3) unfolding listed_def by (intro conjI exI [of _ "[]"]) simp_all
qed

lemma listed_after:
  assumes "listed inside cmd st cmd' st1" and "same_globals st1 st2"
  shows "listed inside cmd st cmd' st2"
proof -
  have "call_heap st2 = call_heap st1" "fresh st st2 = fresh st st1"
    "last_parsed_command_call st2 = last_parsed_command_call st1"
    using same_globals_parser [OF assms(2)] by blast+
  then show ?thesis using assms(1) unfolding listed_def by (simp only:)
qed

lemma listed_from:
  assumes "listed inside cmd1 st1 cmd' st'" and "call_heap st1 = call_heap st" and "cmd_calls cmd1 = cmd_calls cmd"
  shows "listed inside cmd st cmd' st'"
  using assms unfolding listed_def fresh_def by (simp only:)

text \<open>A substitution that parses, followed by an error.\<close>

lemma listed_after_substitution:
  assumes "frame True cmd st cmd1 st1 n1 p1 c1" and "mset n1 = mset (fresh st st1)"
    and "listed inside cmd1 st1 cmd' st'"
  shows "listed inside cmd st cmd' st'"
proof -
  have c: "cmd_calls cmd1 = cmd_calls cmd @ n1" and l: "length (call_heap st) \<le> length (call_heap st1)"
    using assms(1) by (auto simp: frame_def extends_to_def)
  obtain n2 where l2: "length (call_heap st1) \<le> length (call_heap st')" and n2: "cmd_calls cmd' = cmd_calls cmd1 @ n2"
      "if inside then mset n2 = mset (fresh st1 st')
        else mset (n2 @ (case last_parsed_command_call st' of None \<Rightarrow> [] | Some l \<Rightarrow> [l])) =
             mset (fresh st1 st')"
    using assms(3) unfolding listed_def by blast
  obtain k where "length (call_heap st') = length (call_heap st1) + k" using le_Suc_ex [OF l2] by blast
  with upt_add_eq_append [OF l, of k] have "fresh st st' = fresh st st1 @ fresh st1 st'" by (simp add: fresh_def)
  then have f: "mset (fresh st st') = mset n1 + mset (fresh st1 st')" by (simp add: assms(2))
  show ?thesis
    unfolding listed_def
  proof (intro conjI exI [of _ "n1 @ n2"])
    show "if inside then mset (n1 @ n2) = mset (fresh st st')
        else mset ((n1 @ n2) @ (case last_parsed_command_call st' of None \<Rightarrow> [] | Some l \<Rightarrow> [l])) =
             mset (fresh st st')"
      using n2(2) f by (cases inside) simp_all
  qed (use l l2 c n2(1) in simp_all)
qed

text \<open>A substitution that does not parse leaves \<^verbatim>\<open>last_parsed_command_call\<close>.\<close>

lemma listed_outside:
  assumes "listed True cmd st cmd' st'" and "ready inside st"
    and "last_parsed_command_call st' = last_parsed_command_call st"
  shows "listed inside cmd st cmd' st'"
proof (cases inside)
  case False
  then have "last_parsed_command_call st' = None" using assms(2,3) by (simp add: ready_def)
  then show ?thesis using assms(1) False unfolding listed_def by simp
qed (use assms(1) in simp)

lemma redirection_failed:
  assumes "(let (fd, st) = sys_open OS path flags st
            in if fd < 0 then (-1, xs, f st) else redirect xs k fd st) = (r, xs', st')"
    and "r < (0 :: int)" and "\<And>st. fds (f st) = fds st"
  shows "fds st' = fds st \<and> xs' = xs"
  using assms
  by (auto simp: redirect_def sys_open_def fds_def record_event_def Let_def split: if_splits)

lemma fds_dprintf [simp]: "fds (dprintf fd s st) = fds st"
  by (simp add: fds_def dprintf_def record_event_def)

lemma fds_parse_error [simp]: "fds (parse_error loc st) = fds st"
  by (simp add: parse_error_def)

lemma parse_redirections_failed:
  assumes "parse_redirections OS xs symbol path st = (r, xs', st')" and "r < 0"
  shows "fds st' = fds st \<and> xs' = xs"
  using assms(1) unfolding parse_redirections_def
  by (elim if_eqE redirection_failed [OF _ assms(2)]) simp_all


lemma finish_call_left:
  assumes run: "finish_call inside inpipe s args b cmd st = Inr (None, cmd', st')"
    and H: "holds A X (B + files (cmd_open_pipes cmd) (b_fds b)) cmd st" and word: "\<not> set s \<subseteq> {CHR '' ''}"
  shows "left_over A X B cmd st' \<and> cmd' = cmd \<and> same_globals st st'"
proof -
  define err where "err = parse_error [] st"
  have "sanitize_command_string (Some s) = Inr (Some (strip (CHR '' '') s))"
    using word by (auto simp: sanitize_command_string_def trim_spaces_eq)
  then have e: "cmd' = cmd" "st' = close_unused_file_descriptors_from_array (Some (b_fds b)) err"
    using run by (auto simp: finish_call_def err_def build_command_built Let_def split: if_split_asm)
  have g: "same_globals st err" by (simp add: err_def)
  then have "left_over A X (B + files (cmd_open_pipes cmd) (b_fds b)) cmd err"
    by (rule left_over_trace [OF holds_left_over [OF H]]) (simp add: err_def)
  from left_over_close_builder [OF this] show ?thesis
    using e same_globals_trans [OF g same_globals_close_from_array] by simp
qed

text \<open>Without the use after free, a substitution fails only because its inside does.\<close>

lemma finish_substitution_left:
  assumes "finish_substitution b i pos q call cmd st = Inr (None, b', cmd', st')"
    and "\<And>a. call = Some a \<Longrightarrow> live st a \<and> last_parsed_command_call_substitution st \<noteq> None"
  shows "call = None \<and> b' = b \<and> cmd' = cmd \<and> st' = st"
proof (cases call)
  case None
  then show ?thesis using assms(1) by (auto simp: finish_substitution_def split: option.splits)
next
  case (Some a)
  then have "a < length (call_heap st)" and "call_heap st ! a \<noteq> None" using assms(2) by (auto simp: live_iff)
  then have freed: "destroy_command_call call st = Inr st1 \<Longrightarrow> read_call a st1 = Inl Use_After_Free" for st1
    using Some by (auto simp: destroy_command_call_def read_call_def split: option.splits)
  show ?thesis
    using assms(1) assms(2) [OF Some] Some freed
    by (auto simp: finish_substitution_def elim!: bindU_InrE split: option.splits if_splits)
qed

section \<open>The induction over the parser\<close>

lemma parse_left:
  "fresh_fds OS \<Longrightarrow> grants_pipes OS \<Longrightarrow> holds A X B cmd st \<Longrightarrow> sub_ok inside A st \<Longrightarrow> ready inside st \<Longrightarrow>
     parse_command_call OS cmd s inside inpipe st = Inr (None, cmd', st') \<Longrightarrow>
     left_over A X B cmd' st' \<and> listed inside cmd st cmd' st'"
  "fresh_fds OS \<Longrightarrow> grants_pipes OS \<Longrightarrow> at_tokens inside A X B cmd args b ts st \<Longrightarrow>
     parse_tokens OS inside index args ts b cmd st = Inr (False, args', b', cmd', st') \<Longrightarrow>
     left_over A X (B + files (cmd_open_pipes cmd') (b_fds b')) cmd' st' \<and> listed inside cmd st cmd' st'"
  "fresh_fds OS \<Longrightarrow> grants_pipes OS \<Longrightarrow> holds A X B cmd st \<Longrightarrow>
     ts = [] \<or> hd ts \<noteq> COMMAND_SUBSTITUTION_END \<Longrightarrow>
     parse_command_substitution OS cmd b ts st = Inr (None, b', cmd', st') \<Longrightarrow>
     left_over A X B cmd' st' \<and> listed True cmd st cmd' st' \<and> b' = b \<and>
     last_parsed_command_call st' = last_parsed_command_call st"
proof (induction OS cmd s inside inpipe st and OS inside index args ts b cmd st and OS cmd b ts st
    arbitrary: B cmd' st' and B args' b' cmd' st' and B b' cmd' st'
    rule: parse_command_call_parse_tokens_parse_command_substitution.induct)
  case (1 OS cmd s inside inpipe st)
  note H = "1.prems"(3)
  show ?case
  proof (cases "split_string s '' '' = Inr None")
    case True
    then show ?thesis
      using "1.prems" holds_left_over [OF H] listed_refl [OF _ same_globals_refl]
      by (auto simp: parse_command_call.simps)
  next
    case False
    then obtain tokens where t: "split_string s '' '' = Inr (Some tokens)"
      using "1.prems"(6) by (auto simp: parse_command_call.simps bindU_def split: sum.splits option.splits)
    note w = split_word [OF t]
    let ?nb = new_command_call_builder
    have nb: "b_wired (cmd_open_pipes cmd) [] ?nb" "b_writing_pipes ?nb = Some []"
      by (simp_all add: b_wired_def new_command_call_builder_def new_pipe_info_def
          writes_at_most_one_def reads_as_arguments_def)
    have words: "are_words tokens" using words_single_mem w(1) by (auto simp: are_words_def)
    have big: "2 < x" if "x \<in># pipe_ends (cmd_open_pipes cmd)" for x
      using H that set_open_fds [OF H, of x] by (auto simp: holds_def sane_fds_def)
    have H0: "holds A X (B + files (cmd_open_pipes cmd) (b_fds ?nb)) cmd st"
      using H by (simp add: new_command_call_builder_def)
    have own: "x \<in> set (b_fds ?nb) \<Longrightarrow> x \<notin># pipe_ends (cmd_open_pipes cmd)" for x
      using big by (fastforce simp: new_command_call_builder_def)
    have at: "at_tokens inside A X B cmd [] ?nb tokens st"
      using H0 own nb words "1.prems"(4,5) by (simp add: at_tokens_def)
    obtain ok args b cmd1 st1
      where p: "parse_tokens OS inside 0 [] tokens ?nb cmd st = Inr (ok, args, b, cmd1, st1)"
      using "1.prems"(6) t by (auto simp: parse_command_call.simps elim!: bindU_InrE)
    show ?thesis
    proof (cases ok)
      case False
      then have "cmd' = cmd1" "st' = close_unused_file_descriptors_from_array (Some (b_fds b)) st1"
        and p': "parse_tokens OS inside 0 [] tokens ?nb cmd st = Inr (False, args, b, cmd1, st1)"
        using "1.prems"(6) t p by (auto simp: parse_command_call.simps)
      then show ?thesis
        using "1.IH" [OF t refl "1.prems"(1,2) at p'] left_over_close_builder
          listed_after [OF _ same_globals_close_from_array] by blast
    next
      case True
      then have f: "finish_call inside inpipe s args b cmd1 st1 = Inr (None, cmd', st')"
        using "1.prems"(6) t p by (simp add: parse_command_call.simps)
      have "length (b_fds ?nb) = 3" by (simp add: new_command_call_builder_def)
      then have "holds A X (B + files (cmd_open_pipes cmd1) (b_fds b)) cmd1 st1"
        using parse_holds(2) [OF "1.prems"(1) H0 own _ "1.prems"(4), of 0 "[]" tokens args b cmd1 st1] p True by simp
      note L = finish_call_left [OF f this w(3)]
      have "listed inside cmd st cmd1 st1"
        using yields_InrD [OF parse_tree(2) [OF "1.prems"(5) nb words] p] True
        by (auto simp: listed_def frame_def extends_to_def tokens_done_def)
      then show ?thesis using L listed_after by blast
    qed
  qed
next
  case (2 OS inside index args b cmd st)
  then show ?case by (simp add: parse_tokens.simps)
next
  case (3 OS inside index args t rest b cmd st)
  note fresh = "3.prems"(1) and grants = "3.prems"(2) and run = "3.prems"(4)
  have H: "holds A X (B + files (cmd_open_pipes cmd) (b_fds b)) cmd st"
    and own: "\<And>x. x \<in> set (b_fds b) \<Longrightarrow> x \<notin># pipe_ends (cmd_open_pipes cmd)"
    and sub: "sub_ok inside A st" and rd: "ready inside st" and bw: "b_wired (cmd_open_pipes cmd) args b"
    and wr: "b_writing_pipes b = Some []" and rw: "are_words rest"
    using "3.prems"(3) by (auto simp: at_tokens_def are_words_def)
  have len: "length (b_fds b) = 3" using bw by (simp add: b_wired_def)
  have unchanged: "left_over A X (B + files (cmd_open_pipes cmd) (b_fds b)) cmd st2 \<and> listed inside cmd st cmd st2"
    if "same_globals st st2" "fds st2 = fds st" for st2
    using left_over_trace [OF holds_left_over [OF H] that] listed_refl [OF rd that(1)] by simp
  show ?case
  proof (cases "contains_string redirection_caret_symbols t")
    case False
    have "b_wired (cmd_open_pipes cmd) (args @ [t]) b"
      using wired_mono(4) [OF bw, of "args @ [t]" "[]"] by auto
    then have "at_tokens inside A X B cmd (args @ [t]) b rest st"
      using H own sub rd wr rw by (simp add: at_tokens_def)
    from "3.IH"(1) [OF False fresh grants this] show ?thesis
      using run False by (simp add: parse_tokens.simps)
  next
    case sym: True
    show ?thesis
    proof (cases "rest = [] \<or> index = 0 \<or> contains_string redirection_caret_symbols (hd rest)")
      case True
      then show ?thesis using run sym unchanged by (auto simp: parse_tokens.simps split: if_split_asm)
    next
      case False
      then have rest: "\<not> (rest = [] \<or> index = 0)" and hd: "\<not> contains_string redirection_caret_symbols (hd rest)"
        by auto
      have nsym: "\<not> \<not> contains_string redirection_caret_symbols t" using sym by simp
      note eqs = parse_tokens_symbol [OF sym rest hd]
      consider (subst) "t = ''<(''" | (pipe) "t \<noteq> ''<(''" "t = ''|''" | (redir) "t \<noteq> ''<(''" "t \<noteq> ''|''" by blast
      then show ?thesis
      proof cases
        case subst
        have nend: "rest = [] \<or> hd rest \<noteq> '')''" using hd by (auto simp: redirection_caret_symbols_def)
        obtain r b1 cmd1 st1
          where p: "parse_command_substitution OS cmd b rest st = Inr (r, b1, cmd1, st1)"
          using run unfolding eqs(1) [OF subst] by (auto elim!: bindU_InrE)
        obtain n1 p1 c1 where f1: "frame True cmd st cmd1 st1 n1 p1 c1"
          and fin: "\<forall>k dev. r = Some (k, dev) \<longrightarrow> tokens_done True cmd st b (args @ [dev]) b1 cmd1 st1 n1 p1 c1 \<and>
              last_parsed_command_call_substitution st1 = None \<and> b_writing_pipes b1 = Some []"
          using yields_InrD [OF parse_tree(3) [OF nend bw wr] p] by auto
        show ?thesis
        proof (cases r)
          case None
          note P = "3.IH"(2) [OF nsym rest hd subst fresh grants H nend p [unfolded None]]
          have "files (cmd_open_pipes cmd1) (b_fds b) = files (cmd_open_pipes cmd) (b_fds b)"
            by (rule left_over_files) (use P own in auto)
          moreover have "cmd' = cmd1" "b' = b1" "st' = parse_error '' near (null)'' st1"
            using run p None unfolding eqs(1) [OF subst] by simp_all
          moreover have "listed inside cmd st cmd1 st1" using listed_outside [OF _ rd] P by blast
          ultimately show ?thesis
            using P left_over_trace [OF _ same_globals_parse_error fds_parse_error]
              listed_after [OF _ same_globals_parse_error] by simp
        next
          case (Some q)
          obtain i dev where q: "q = (i, dev)" by (cases q)
          have p': "parse_command_substitution OS cmd b rest st = Inr (Some (i, dev), b1, cmd1, st1)"
            using p Some q by simp
          have d: "tokens_done True cmd st b (args @ [dev]) b1 cmd1 st1 n1 p1 c1"
              "last_parsed_command_call_substitution st1 = None" "b_writing_pipes b1 = Some []"
            using fin Some q by auto
          have P: "holds A X (B + files (cmd_open_pipes cmd) (b_fds b)) cmd1 st1" "b_fds b1 = b_fds b"
            using parse_holds(3) [OF fresh H p'] by auto
          have own1: "x \<notin># pipe_ends (cmd_open_pipes cmd1)" if "x \<in> set (b_fds b1)" for x
            using builder_not_pipes [OF P(1) own, of x] that P(2) by simp
          have "files (cmd_open_pipes cmd1) (b_fds b1) = files (cmd_open_pipes cmd) (b_fds b)"
            unfolding P(2) using own own1 [unfolded P(2)] by (intro files_mono) simp_all
          moreover have "last_parsed_command_call st1 = last_parsed_command_call st" using f1 by (simp add: frame_def)
          then have "ready inside st1" using rd d(2) by (simp add: ready_def)
          moreover have "are_words (drop (i + 1) rest)" using rw by (rule are_words_mono) (rule set_drop_subset)
          ultimately have at: "at_tokens inside A X B cmd1 (args @ [dev]) b1 (drop (i + 1) rest) st1"
            using P(1) own1 d by (simp add: at_tokens_def tokens_done_def sub_ok_def)
          have r: "parse_tokens OS inside (index + i + 2) (args @ [dev]) (drop (i + 1) rest) b1 cmd1 st1 =
              Inr (False, args', b', cmd', st')"
            using run p' unfolding eqs(1) [OF subst] by simp
          have "mset n1 = mset (fresh st st1)" using d(1) by (simp add: tokens_done_def)
          from listed_after_substitution [OF f1 this]
            "3.IH"(3) [OF nsym rest hd subst p' refl refl refl refl refl fresh grants at r]
          show ?thesis by blast
        qed
      next
        case pipe
        show ?thesis
        proof (cases "b_fds b ! 1 = -1")
          case False
          then show ?thesis
            using run sym rest hd pipe unchanged by (auto simp: parse_tokens.simps)
        next
          case un: True
          then have nun: "\<not> b_fds b ! 1 \<noteq> -1" by simp
          obtain joined where j: "join_strings rest '' '' = Inr joined" by (simp add: join_strings_intercalate)
          obtain call cmd1 st1
            where p: "parse_command_call OS cmd (cstr_text joined) inside True st = Inr (call, cmd1, st1)"
            using run unfolding eqs(2) [OF pipe(2) un j] by (auto elim!: bindU_InrE)
          show ?thesis
          proof (cases call)
            case None
            note P = "3.IH"(4) [OF nsym rest hd pipe nun j fresh grants H sub rd p [unfolded None]]
            have "files (cmd_open_pipes cmd1) (b_fds b) = files (cmd_open_pipes cmd) (b_fds b)"
              by (rule left_over_files) (use P own in auto)
            moreover have "cmd' = cmd1" "b' = b" "st' = parse_error ('' near '' @ ''|'') st1"
              using run p None unfolding eqs(2) [OF pipe(2) un j] by simp_all
            ultimately show ?thesis
              using P left_over_trace [OF _ same_globals_parse_error fds_parse_error]
                listed_after [OF _ same_globals_parse_error] by simp
          next
            case (Some a)
            have "link_pipelines OS cmd1 b a st1 = Inr (-1, cmd2, b2, st2) \<Longrightarrow> False" for cmd2 b2 st2
              using pipe_granted [OF grants, of st1] by (auto simp: link_pipelines_def Let_def elim!: bindU_InrE)
            then have False
              using run p Some unfolding eqs(2) [OF pipe(2) un j]
              by (auto simp: Let_def elim!: bindU_InrE split: if_splits)
            then show ?thesis ..
          qed
        qed
      next
        case redir
        obtain status fds1 st1 where pr: "parse_redirections OS (b_fds b) t (hd rest) st = (status, fds1, st1)"
          by (metis prod_cases3)
        note pf = parse_redirections_frame [OF pr] and r = run [unfolded eqs(3) [OF redir pr]]
        show ?thesis
        proof (cases "status < 0")
          case True
          have "fds st1 = fds st \<and> fds1 = b_fds b" using parse_redirections_failed [OF pr True] .
          then show ?thesis using unchanged [of st1] pf r True by auto
        next
          case s: False
          have R: "holds A X (B + files (cmd_open_pipes cmd) fds1) cmd st1 \<and> length fds1 = 3 \<and>
              (\<forall>x \<in> set fds1. x \<notin># pipe_ends (cmd_open_pipes cmd))"
            using parse_redirections_cases [OF pr s] holds_redirect [OF fresh H own len] by blast
          note gs = same_globals_parser [OF conjunct2 [OF pf]]
          have "ready inside st1" using rd ready_same_globals [OF conjunct2 [OF pf]] by simp
          moreover have "are_words (tl rest)" using rw are_words_mono [of rest "tl rest"] by (cases rest) auto
          moreover have "sub_ok inside A st1" using sub gs by (simp add: sub_ok_def)
          moreover have "b_wired (cmd_open_pipes cmd) args (b\<lparr>b_fds := fds1\<rparr>)"
            using bw wr R by (simp add: b_wired_def writes_at_most_one_def)
          ultimately have at: "at_tokens inside A X B cmd args (b\<lparr>b_fds := fds1\<rparr>) (tl rest) st1"
            using R wr by (simp add: at_tokens_def)
          have "parse_tokens OS inside (index + 2) args (tl rest) (b\<lparr>b_fds := fds1\<rparr>) cmd st1 =
              Inr (False, args', b', cmd', st')" using r s by simp
          from "3.IH"(5) [OF nsym rest hd redir pr [symmetric] refl refl refl s fresh grants at this]
          show ?thesis using listed_from gs by blast
        qed
      qed
    qed
  qed
next
  case (4 OS cmd b ts st)
  note fresh = "4.prems"(1) and grants = "4.prems"(2) and H = "4.prems"(3) and run = "4.prems"(5)
  define st0 where "st0 = st\<lparr>last_parsed_command_call_substitution := None\<rparr>"
  obtain i n where sc: "scan_substitution ts 0 0 = (i, n)" by fastforce
  have H0: "holds A X B cmd st0" using H by (simp add: holds_def st0_def)
  show ?case
  proof (cases "i = length ts \<or> n \<noteq> 0")
    case True
    then have e: "b' = b" "cmd' = cmd" "st' = st0"
      using run sc by (auto simp: parse_command_substitution.simps st0_def)
    have "listed True cmd st cmd st0" by (simp add: listed_def st0_def fresh_def)
    then show ?thesis using holds_left_over [OF H0] e by (simp add: st0_def)
  next
    case False
    obtain q st1 where p: "sys_pipe OS st0 = (Some q, st1)"
      using pipe_granted [OF grants] by blast
    obtain joined where j: "join_strings (take i ts) '' '' = Inr joined" by (simp add: join_strings_intercalate)
    obtain call cmd1 st2
      where c: "parse_command_call OS (add_pipe cmd q) (cstr_text joined) True False st1 = Inr (call, cmd1, st2)"
        and f: "finish_substitution b i (open_pipes_size cmd) q call cmd1 st2 = Inr (None, b', cmd', st')"
      using run sc False p [unfolded st0_def] j
      by (auto simp: parse_command_substitution.simps Let_def elim!: bindU_InrE split: if_splits)
    note g1 = same_globals_parser [OF same_globals_sys_pipe [OF p]]
    have H1: "holds A X B (add_pipe cmd q) st1"
      using holds_pipe(1) [OF fresh _ p, of A X B cmd "[]"] H0 by simp
    have rd: "ready True st1" and sub: "sub_ok True A st1"
      using g1 by (simp_all add: ready_def sub_ok_def st0_def)
    obtain n1 p1 c1 where f1: "frame True (add_pipe cmd q) st1 cmd1 st2 n1 p1 c1"
      and cd: "\<forall>a. call = Some a \<longrightarrow> call_done True (add_pipe cmd q) st1 a cmd1 st2 n1 p1 c1"
      using yields_InrD [OF parse_tree(1) [OF rd] c] by auto
    have ex: "extends_to (add_pipe cmd q) st1 cmd1 st2 n1 p1 c1" using f1 by (simp add: frame_def)
    have "live st2 a \<and> last_parsed_command_call_substitution st2 \<noteq> None" if "call = Some a" for a
      using cd that extends_calls(2) [OF ex] by (auto simp: call_done_def)
    with finish_substitution_left [OF f] have none: "call = None" and e: "b' = b" "cmd' = cmd1" "st' = st2" by blast+
    note P = "4.IH" [OF st0_def refl sc [symmetric] False refl p [symmetric] refl refl refl j fresh grants
        H1 sub rd c [unfolded none]]
    have "listed True cmd st cmd1 st2"
      by (rule listed_from [OF conjunct2 [OF P]]) (use g1 in \<open>simp_all add: st0_def add_pipe_def\<close>)
    moreover have "last_parsed_command_call st2 = last_parsed_command_call st"
      using f1 g1 by (simp add: frame_def st0_def)
    ultimately show ?thesis using P e by simp
  qed
qed

section \<open>Commands\<close>

lemma left_over_fds:
  assumes "\<And>x. count X x + count P x + count H x \<le> 1" and "X + H \<subseteq># F" and "F \<subseteq># X + P + H"
  shows "F - H - P = (X :: fd multiset)"
proof (rule multiset_eqI)
  fix x
  show "count (F - H - P) x = count X x"
    using assms(1) [of x] mset_subset_eq_count [OF assms(2), of x] mset_subset_eq_count [OF assms(3), of x]
    by simp
qed

lemma parse_command_left:
  assumes "fresh_fds OS" and "grants_pipes OS" and sane: "sane_fds (open_fds (trace st))"
    and run: "parse_command OS s st = Inr (None, st')"
  shows "fds st' = fds st \<and> (\<forall>a. live st' a \<longrightarrow> a < length (call_heap st))"
proof (cases "s = [] \<or> set s \<subseteq> {CHR '' ''}")
  case True
  then have "set s \<subseteq> {CHR '' ''}" by auto
  then have "st' = st" using run blank_piece by simp
  then show ?thesis by (simp add: live_iff)
next
  case False
  define cmd0 where "cmd0 = \<lparr>cmd_string = Some (strip (CHR '' '') s), cmd_calls = [],
     cmd_background = False, cmd_open_pipes = []\<rparr>"
  define st0 where "st0 = st\<lparr>last_parsed_command_call := None\<rparr>"
  have n: "new_empty_command (Some s) = Inr (Some \<lparr>cmd_string = None, cmd_calls = [],
     cmd_background = False, cmd_open_pipes = []\<rparr>)"
    using False by (simp add: new_empty_command_def is_only_composed_of_single)
  have t: "sanitize_command_string (Some s) = Inr (Some (strip (CHR '' '') s))"
    using False by (simp add: sanitize_command_string_def trim_spaces_eq)
  obtain call cmd1 st1 where p: "parse_command_call OS cmd0 s False False st0 = Inr (call, cmd1, st1)"
    using run n t by (auto simp: parse_command_def cmd0_def st0_def Let_def elim!: bindU_InrE)
  have rd: "ready False st0" by (simp add: ready_def st0_def)
  obtain new ps cs where fr: "frame False cmd0 st0 cmd1 st1 new ps cs"
      and cd: "\<And>a. call = Some a \<Longrightarrow> call_done False cmd0 st0 a cmd1 st1 new ps cs"
    using yields_InrD [OF parse_tree(1) [OF rd] p] by auto
  have none: "call = None"
  proof (rule ccontr)
    assume "call \<noteq> None"
    then obtain a l where "call = Some a" "last_parsed_command_call st1 = Some l"
      using cd by (auto simp: call_done_def)
    then show False using run n t p by (simp add: parse_command_def cmd0_def st0_def Let_def)
  qed
  define cmd2 where "cmd2 = add_call_at_the_end cmd1 (last_parsed_command_call st1)"
  have err: "parse_command_error cmd2 st1 = Inr (None, st')"
    using run n t p none by (simp add: parse_command_def cmd0_def st0_def cmd2_def Let_def)
  let ?A = "length (call_heap st)" and ?ps = "cmd_open_pipes cmd1"
  define P where "P = pipe_ends ?ps"
  define H where "H = heap_files ?ps (drop ?A (call_heap st1))"
  have "holds ?A (fds st) {#} cmd0 st0" using sane by (simp add: holds_def cmd0_def st0_def fds_def)
  then have L: "left_over ?A (fds st) {#} cmd1 st1" and l: "listed False cmd0 st0 cmd1 st1"
    using parse_left(1) [OF assms(1,2) _ _ rd p [unfolded none]] by (simp_all add: sub_ok_def)
  have ps2: "cmd_open_pipes cmd2 = ?ps" by (simp add: cmd2_def add_call_at_the_end_def split: option.split)
  have calls: "mset (cmd_calls cmd2) = mset (fresh st st1)"
    using l by (auto simp: listed_def cmd0_def st0_def cmd2_def add_call_at_the_end_def fresh_def split: option.splits)
  have ex: "extends_to cmd0 st0 cmd1 st1 new ps cs" using fr by (simp add: frame_def)
  have live: "live st1 a" if "a \<in> set (fresh st st1)" for a
    using extends_calls(2) [OF ex] that by (simp add: fresh_def st0_def)
  have "drop ?A (call_heap st1) = map ((!) (call_heap st1)) (fresh st st1)"
    unfolding fresh_def by (rule nth_equalityI) simp_all
  then have H': "H = (\<Sum>a\<leftarrow>cmd_calls cmd2. files (cmd_open_pipes cmd2) (call_fds (the_call st1 a)))"
    unfolding H_def ps2 using heap_files_calls [OF live, of "fresh st st1" ?ps] calls
    by (metis (no_types, lifting) mset_map sum_mset_sum_list)
  have le: "fds st + H \<subseteq># fds st1" "fds st1 \<subseteq># fds st + P + H" and one: "count (fds st) x + count P x + count H x \<le> 1" for x
    using L left_over_counts(1) [OF L, of x] by (simp_all add: left_over_def Let_def P_def H_def)
  have "count (mset (open_fds (trace st1))) x \<le> 1" for x
    using mset_subset_eq_count [OF le(2), of x] one [of x] unfolding fds_def by simp
  then have dist: "distinct (open_fds (trace st1))" by (rule distinct_le_one)
  obtain st2 where c: "close_calls cmd2 (cmd_calls cmd2) st1 = Inr st2"
      and d: "destroy_command (Some cmd2) (close_pipes ?ps st2) = Inr st'"
    using err by (auto simp: parse_command_error_def close_unused_file_descriptors_def ps2 Let_def elim!: bindU_InrE)
  have "H \<subseteq># fds st1" using le(1) by (meson mset_subset_eq_add_right subset_mset.order_trans)
  then have "fds st2 = fds st1 - H" using fds_close_calls [OF dist c] H' by simp
  then have "fds (close_pipes ?ps st2) = fds st"
    using left_over_fds [OF one le] by (simp add: fds_close_pipes P_def)
  moreover have same: "same_globals st1 (close_pipes ?ps st2)"
    using close_calls_live [of "cmd_calls cmd2" st1 cmd2] c live calls same_globals_trans [OF _ same_globals_close_pipes]
    by (metis Inr_inject set_mset_mset)
  have "distinct (cmd_calls cmd2)" using calls by (metis distinct_upt fresh_def mset_eq_imp_distinct_iff)
  then have st': "st' = (close_pipes ?ps st2)
      \<lparr>call_heap := fold (\<lambda>a h. h[a := None]) (cmd_calls cmd2) (call_heap (close_pipes ?ps st2))\<rparr>"
    using destroy_calls_live [of "cmd_calls cmd2" "close_pipes ?ps st2"] d live calls live_same_globals [OF same]
    by (metis Inr_inject destroy_command_def option.simps(5) set_mset_mset)
  moreover have "a < ?A" if "live st' a" for a
  proof (rule ccontr)
    assume "\<not> a < ?A"
    moreover have "a < length (call_heap st')" using that by (simp add: live_iff)
    moreover have "call_heap (close_pipes ?ps st2) = call_heap st1" using same by (auto simp: same_globals_iff)
    ultimately have "a \<in> set (cmd_calls cmd2)" and "a < length (call_heap st1)"
      using calls by (auto simp: st' fresh_def fold_free_nth simp flip: set_mset_mset)
    then have "call_heap st' ! a = None" using \<open>call_heap _ = call_heap st1\<close> by (simp add: st' fold_free_nth)
    then show False using that by (simp add: live_iff)
  qed
  ultimately show ?thesis by (simp add: fds_def)
qed

text \<open>
  C6. A command that does not parse leaves nothing behind: wherever in its pipelines and
  substitutions the error is, every descriptor that has been opened for it is closed again,
  every call that has been allocated is freed, and the older ones are as they were, if the
  kernel gives fresh descriptors and refuses no pipe.
\<close>

theorem parse_failure_leaves_nothing:
  assumes "fresh_fds OS" and "grants_pipes OS" and "sane_fds (open_fds (trace st))"
    and run: "parse_command OS s st = Inr (None, st')"
  shows "mset (open_fds (trace st')) = mset (open_fds (trace st)) \<and> calls_of st' = calls_of st"
proof -
  note left = parse_command_left [OF assms]
  have old: "a < length (call_heap st) \<Longrightarrow> a < length (call_heap st') \<and> call_heap st' ! a = call_heap st ! a" for a
    using yields_InrD [OF parse_command_tree run] by simp
  have "calls_of st' a = calls_of st a" for a
  proof (cases "a < length (call_heap st)")
    case False
    then have "\<not> live st' a" using left by blast
    then show ?thesis using False by (auto simp: calls_of_def live_iff)
  qed (simp add: calls_of_def old)
  then show ?thesis using left by (simp add: fds_def fun_eq_iff)
qed

lemma parse_failure_leaves_nothing_witness:
  "\<exists>st'. parse_command sample_os ''a <( b ) | c < f | e'' two_jobs = Inr (None, st') \<and>
     length (call_heap st') = 2 \<and> 5 < length (trace st') \<and> open_fds (trace st') = [] \<and> calls_of st' = (\<lambda>_. None)"
proof -
  let ?p = "parse_command sample_os ''a <( b ) | c < f | e'' two_jobs"
  have "case ?p of Inr (None, st') \<Rightarrow> length (call_heap st') = 2 \<and> 5 < length (trace st') | _ \<Rightarrow> False" by code_simp
  then obtain st' where p: "?p = Inr (None, st')" and l: "length (call_heap st') = 2" "5 < length (trace st')"
    by (cases ?p) (auto split: option.splits)
  have g: "grants_pipes sample_os" by (simp add: grants_pipes_def sample_os_def)
  have t: "sane_fds (open_fds (trace two_jobs))" "open_fds (trace two_jobs) = []" "calls_of two_jobs = (\<lambda>_. None)"
    by (simp_all add: two_jobs_def initial_shell_def sane_fds_def calls_of_def fun_eq_iff)
  from parse_failure_leaves_nothing [OF sample_os_fresh g t(1) p] t(2,3) p l show ?thesis by auto
qed

end
