(* ===== verification/Shutdown.thy ===== *)
theory Shutdown
  imports Session
begin

text \<open>
  The states of the shell between two rounds of its loop, as the set of states reachable from
  \<^verbatim>\<open>main\<close>; and what the shell does at the end of its input, where it reads \<^verbatim>\<open>exit\<close>: it ends when
  no job is left, and never as long as a process of a job stays. A session that ends in
  undefined behaviour does so in a round from one of these states.
\<close>

section \<open>Reachable states\<close>

text \<open>The states in which the shell is about to show its prompt, or to leave the loop.\<close>

inductive at_prompt :: "os \<Rightarrow> shell \<Rightarrow> bool" for OS where
  start: "bindP (ignore_signals OS initial_shell) (\<lambda>st. lift_cres (init_internals st)) = ret st \<Longrightarrow>
            at_prompt OS st"
| round: "at_prompt OS st \<Longrightarrow> \<not> should_exit st \<Longrightarrow> prompt_round OS st = ret st' \<Longrightarrow> at_prompt OS st'"

lemma at_prompt_inv: "at_prompt OS st \<Longrightarrow> session_inv st"
proof (induction rule: at_prompt.induct)
  case (start st)
  then show ?case using yieldsP_InrD [OF startup start] by simp
next
  case (round st st')
  then show ?case using yieldsP_InrD [OF good_round [OF round.IH] round.hyps(3)] by simp
qed

text \<open>A run that misbehaves does so in a round from one of these states.\<close>

lemma prompt_fault:
  "prompt OS st = Some r \<Longrightarrow> r = Inl u \<Longrightarrow> at_prompt OS st \<Longrightarrow>
     \<exists>st'. at_prompt OS st' \<and> \<not> should_exit st' \<and> prompt_round OS st' = Inl u"
proof (induction rule: prompt.raw_induct [rotated 1, consumes 1, case_names step])
  case (step rec OS st r)
  have run: "\<not> should_exit st" using step.hyps step.prems(1) by auto
  show ?case
  proof (cases "\<exists>st1. prompt_round OS st = ret st1")
    case True
    then obtain st1 where r1: "prompt_round OS st = ret st1" by blast
    then have "rec OS st1 = Some r" using step.hyps run by simp
    then show ?thesis using step.IH step.prems(1) at_prompt.round [OF step.prems(2) run r1] by blast
  next
    case False
    then have "prompt_round OS st = Inl u"
      using step.hyps step.prems(1) run by (cases "prompt_round OS st") (auto split: run.splits)
    then show ?thesis using step.prems(2) run by blast
  qed
qed

lemma main_program_fault:
  assumes "main_program OS argv initial_shell = Some (Inl u)"
  shows "\<exists>st. at_prompt OS st \<and> \<not> should_exit st \<and> prompt_round OS st = Inl u"
proof -
  let ?m = "bindP (ignore_signals OS initial_shell) (\<lambda>st. lift_cres (init_internals st))"
  have argv: "\<not> length argv > 1" using assms by (auto simp: main_program_def)
  obtain st1 where m: "?m = ret st1"
    using assms argv startup [of OS] by (cases ?m) (auto simp: main_program_def split: run.splits)
  have at: "at_prompt OS st1" by (rule at_prompt.start [OF m])
  obtain r1 where r1: "prompt OS st1 = Some r1"
    and r: "bindP r1 (\<lambda>st. bindP (lift_cres (destroy_job_table st)) (\<lambda>st. ret (last_exit_code st, st))) = Inl u"
    using assms argv m by (auto simp: main_program_def split: Option.bind_splits)
  have "r1 = Inl u"
  proof (cases r1)
    case (Inr x)
    show ?thesis
    proof (cases x)
      case (Running st)
      have "session_inv st" using prompt_result [OF r1 at_prompt_inv [OF at]] by (simp add: Inr Running)
      then show ?thesis using r destroy_live_table [of st] by (auto simp: Inr Running session_inv_def)
    qed (use r Inr in simp_all)
  qed (use r in simp)
  then show ?thesis using prompt_fault [OF r1 _ at] by simp
qed

section \<open>The end of the input\<close>

text \<open>The line that stands for the end of the input, parsed.\<close>

definition eof_call :: command_call where
  "eof_call = built_call new_command_call_builder [''exit''] ''exit''"

definition eof_command :: "addr \<Rightarrow> command" where
  "eof_command a = \<lparr>cmd_string = Some ''exit'', cmd_calls = [a], cmd_background = False, cmd_open_pipes = []\<rparr>"

lemma parse_exit:
  "parse_read_line OS ''exit'' st =
     Inr (Some [Some (eof_command (length (call_heap st)))],
          st\<lparr>call_heap := call_heap st @ [Some eof_call], last_parsed_command_call := None\<rparr>)"
proof -
  have split: "split_string ''exit'' '' '' = Inr (Some [''exit''])"
    "split_string_keep_trace ''exit'' ''&'' = Inr (Some [''exit''], -1)" by code_simp+
  have str: "\<not> starts_with ''exit'' ''&''" "is_only_composed_of ''exit'' '' '' = Inr False"
    "trim_spaces (Some ''exit'') = Inr (Some ''exit'')" "remove_extra_pipes ''exit'' = ''exit''" by code_simp+
  have word: "\<not> contains_string redirection_caret_symbols ''exit''" by code_simp
  let ?st = "st\<lparr>last_parsed_command_call := None\<rparr>"
  have call: "parse_command_call OS cmd ''exit'' False False ?st =
      Inr (Some (length (call_heap st)), cmd,
           st\<lparr>call_heap := call_heap st @ [Some eof_call], last_parsed_command_call := Some (length (call_heap st))\<rparr>)"
    for cmd
    using build_command_built [of new_command_call_builder "[''exit'']" "''exit''" ?st] word
    by (simp add: parse_command_call.simps parse_tokens.simps split finish_call_def sanitize_command_string_def
        str Let_def eof_call_def)
  have "parse_command OS ''exit'' st =
      Inr (Some (eof_command (length (call_heap st))),
           st\<lparr>call_heap := call_heap st @ [Some eof_call], last_parsed_command_call := None\<rparr>)"
    by (simp add: parse_command_def new_empty_command_def sanitize_command_string_def str call Let_def
        add_call_at_the_beginning_def eof_command_def)
  then show ?thesis by (simp add: parse_read_line_def split str Let_def)
qed

text \<open>\<^verbatim>\<open>exit\<close> without an argument, when there is no job.\<close>

lemma exit_without_jobs:
  assumes "table_wf st" and "jobs_of st = (\<lambda>_. None)"
  obtains st' where "exit_command OS (Some eof_call) st = (last_exit_code st, st')"
    and "should_exit st'" and "keeps st st'"
proof -
  define st1 where "st1 = update_jobs OS st"
  have wf: "table_wf st1" and only: "table_only st st1"
    using fd_update_jobs_correct(1,2) [OF assms(1)] by (simp_all add: st1_def update_jobs_def)
  have "jobs_of st1 n = None" for n
    using fd_update_jobs_correct(3) [OF assms(1), of OS STDERR_FILENO n] assms(2)
    by (cases "jobs_of st1 n") (auto simp: st1_def update_jobs_def)
  then have "\<not> are_jobs_running st1"
    using are_jobs_running_after_update [OF assms(1)] job_table_size_zero [OF wf] by (auto simp: st1_def update_jobs_def)
  moreover have "cc_argc eof_call = 1" by (simp add: eof_call_def built_call_def new_command_call_def)
  ultimately have "exit_command OS (Some eof_call) st = (last_exit_code st1, st1\<lparr>should_exit := True\<rparr>)"
    by (simp add: exit_command_def st1_def Let_def)
  moreover have "last_exit_code st1 = last_exit_code st" using only by (auto simp: table_only_def)
  moreover have "keeps st (st1\<lparr>should_exit := True\<rparr>)"
    using keeps_table [OF assms(1) wf only] by (simp add: keeps_def session_inv_def)
  ultimately show ?thesis using that by simp
qed

lemma execute_exit_line:
  assumes "read_call a st = Inr eof_call" and e: "exit_command OS (Some eof_call) st = (n, st1)" "keeps st st1"
  shows "execute_commands OS [Some (eof_command a)] st =
      ret (st1\<lparr>last_exit_code := n, call_heap := (call_heap st1)[a := None]\<rparr>)"
proof -
  have name: "cc_name eof_call = ''exit''" "cc_stdin eof_call = 0" "cc_stdout eof_call = 1" "cc_stderr eof_call = 2"
    by (simp_all add: eof_call_def built_call_def new_command_call_def new_command_call_builder_def)
  have int: "is_internal_command eof_call" by code_simp
  have r1: "read_call a st1 = Inr eof_call" using assms(1) e(2) by (auto simp: keeps_def read_call_iff calls_of_def split: if_splits)
  then have c: "close_unused_file_descriptors (Some (eof_command a)) st1 = Inr st1"
    by (simp add: close_unused_file_descriptors_def eof_command_def close_unused_file_descriptors_helper_def name)
  have "execute_command OS (eof_command a) st =
      ret (Some (new_command_result n (eof_command a)), st1\<lparr>last_exit_code := n\<rparr>)"
    using assms(1) int c
    by (simp add: execute_command_def eof_command_def execute_internal_command_def name e(1)
        update_command_history_def new_command_result_def)
  moreover have "destroy_command (Some (eof_command a)) (st1\<lparr>last_exit_code := n\<rparr>) =
      Inr (st1\<lparr>last_exit_code := n, call_heap := (call_heap st1)[a := None]\<rparr>)"
  proof -
    have "read_call a (st1\<lparr>last_exit_code := n\<rparr>) = Inr eof_call"
      using r1 by (auto simp: read_call_iff calls_of_def split: if_splits)
    then show ?thesis by (simp add: destroy_command_def eof_command_def destroy_command_call_def)
  qed
  ultimately show ?thesis by (simp add: destroy_command_result_def new_command_result_def)
qed

text \<open>The round of the loop at the end of the input, up to the execution of \<^verbatim>\<open>exit\<close>.\<close>

lemma prompt_string_trace: "get_prompt_string OS st = Inr (s, st') \<Longrightarrow> same_globals st st'"
proof -
  have cwd: "get_current_wd OS st = (d, st') \<Longrightarrow> same_globals st st'" for st d st'
    by (auto simp: get_current_wd_def Let_def sys_getcwd_def perror_def dprintf_def same_globals_iff record_event_def
        split: option.splits)
  then have trunc: "truncated_cwd OS n st = Inr (t, st') \<Longrightarrow> same_globals st st'" for n t st st'
    by (auto simp: truncated_cwd_def elim!: bindU_InrE split: prod.splits)
  have p: "same_globals a b \<Longrightarrow> same_globals a (perror OS m b)" for a b m
    by (erule same_globals_trans) simp
  assume run: "get_prompt_string OS st = Inr (s, st')"
  obtain pwd st1 where c: "get_current_wd OS st = (pwd, st1)" by fastforce
  have "same_globals st1 st'"
    using run
    by (auto simp: get_prompt_string_def c Let_def p elim!: bindU_InrE
        split: prod.splits option.splits if_split_asm dest!: trunc)
  then show "same_globals st st'" by (rule same_globals_trans [OF cwd [OF c]])
qed

lemma eof_round:
  assumes inv: "session_inv st" and "get_prompt_string OS (update_jobs OS st) = Inr r" and "\<And>h p. os_readline OS h p = None"
  obtains st4 a where "prompt_round OS st = execute_commands OS [Some (eof_command a)] st4"
    and "read_call a st4 = Inr eof_call" and "session_inv st4" and "should_exit st4 = should_exit st"
    and "last_exit_code st4 = last_exit_code st" and "job_table st4 = job_table (update_jobs OS st)"
proof -
  define st1 where "st1 = update_jobs OS st"
  have wf: "table_wf st" using inv by (simp add: session_inv_def)
  have only: "table_only st st1" and wf1: "table_wf st1"
    using fd_update_jobs_correct(1,2) [OF wf] by (simp_all add: st1_def update_jobs_def)
  obtain ps st2 where ps: "get_prompt_string OS st1 = Inr (ps, st2)" using assms(2) by (cases r) (auto simp: st1_def)
  obtain st3 where rl: "sys_readline OS (case ps of None \<Rightarrow> [] | Some s \<Rightarrow> s) st2 = (None, st3)"
    using assms(3) by (simp add: sys_readline_def Let_def)
  have g: "same_globals st1 st3"
    using same_globals_trans [OF prompt_string_trace [OF ps]] rl by (auto simp: sys_defs same_globals_iff)
  define a where "a = length (call_heap st3)"
  define st4 where "st4 = add_history ''exit'' (st3\<lparr>call_heap := call_heap st3 @ [Some eof_call], last_parsed_command_call := None\<rparr>)"
  have st4: "job_table st4 = job_table st1" "job_table_ptr st4 = job_table_ptr st1" "should_exit st4 = should_exit st1"
    "job_table_size st4 = job_table_size st1" "last_exit_code st4 = last_exit_code st1"
    using g by (auto simp: st4_def sys_defs same_globals_iff)
  have "prompt_round OS st = execute_commands OS [Some (eof_command a)] st4"
    by (simp add: prompt_round_def st1_def [symmetric] ps rl parse_exit a_def st4_def del: execute_commands.simps)
  moreover have "read_call a st4 = Inr eof_call" by (simp add: read_call_def a_def st4_def sys_defs)
  moreover have "session_inv st4"
    using wf1 inv only st4 by (auto simp: session_inv_def table_wf_def table_only_def)
  moreover have "should_exit st4 = should_exit st" "last_exit_code st4 = last_exit_code st"
    using only st4 by (auto simp: table_only_def)
  ultimately show ?thesis using that st4(1) by (simp add: st1_def)
qed

section \<open>A process that does not end\<close>

text \<open>\<^verbatim>\<open>waitpid\<close> never has news of the process \<open>p\<close>; a job waits for it.\<close>

definition never_changes :: "os \<Rightarrow> pid \<Rightarrow> bool" where
  "never_changes OS p \<longleftrightarrow> (\<forall>h opts. fst (os_waitpid OS h p opts) = 0)"

definition waits_for :: "pid \<Rightarrow> job \<Rightarrow> bool" where
  "waits_for p j \<longleftrightarrow>
     (\<exists>s. Some s \<in> set (job_subjobs j) \<and> sj_pid s = p \<and> \<not> is_finished_status (sj_last_status s))"

lemma waits_for_alive: "waits_for p j \<Longrightarrow> \<not> is_job_finished (Some j)"
  by (auto simp: waits_for_def any_subjob_iff)

lemma wait_loop_never_changes:
  assumes "never_changes OS p"
  shows "wait_loop OS subjobs st = (r, subjobs', st') \<Longrightarrow> Some s \<in> set subjobs \<Longrightarrow> sj_pid s = p \<Longrightarrow>
     \<not> is_finished_status (sj_last_status s) \<Longrightarrow> Some s \<in> set subjobs'"
proof (induction subjobs arbitrary: st r subjobs' st')
  case (Cons x subjobs)
  show ?case
  proof (cases x)
    case None
    then show ?thesis using Cons by (auto split: prod.splits)
  next
    case (Some y)
    show ?thesis
    proof (cases "is_finished_status (sj_last_status y)")
      case True
      then show ?thesis using Cons Some by (auto split: prod.splits)
    next
      case False
      obtain q status st1 where w: "sys_waitpid OS (sj_pid y) [WNOHANG, WUNTRACED, WCONTINUED] st = ((q, status), st1)"
        by (metis surj_pair)
      obtain r2 ls st2 where pr: "process_waitpid_response OS q status (sj_last_status y) st1 = (r2, ls, st2)"
        by (metis prod_cases3)
      have q: "q = fst (os_waitpid OS (trace st) (sj_pid y) [WNOHANG, WUNTRACED, WCONTINUED])"
        using w by (auto simp: sys_waitpid_def Let_def split: prod.splits)
      have same: "ls = sj_last_status y" "r2 \<noteq> -1" if "sj_pid y = p"
        using assms pr that by (simp_all add: q never_changes_def process_waitpid_response_def)
      show ?thesis using Cons w pr Some False same by (auto simp: Let_def split: prod.splits if_split_asm)
    qed
  qed
qed simp

lemma wait_for_job_never_changes:
  assumes "never_changes OS p" and "waits_for p j" and "wait_for_job OS j st = (r, j', st')"
  shows "waits_for p j'"
proof -
  obtain r1 sub st1 where w: "wait_loop OS (job_subjobs j) st = (r1, sub, st1)" by (metis prod_cases3)
  obtain s where "Some s \<in> set (job_subjobs j)" "sj_pid s = p" "\<not> is_finished_status (sj_last_status s)"
    using assms(2) by (auto simp: waits_for_def)
  then have "waits_for p (j\<lparr>job_subjobs := sub\<rparr>)"
    using wait_loop_never_changes [OF assms(1) w] by (auto simp: waits_for_def)
  then show ?thesis
    using assms(3) w update_job_status_frame [of OS "j\<lparr>job_subjobs := sub\<rparr>" st1]
    by (cases "update_job_status OS (j\<lparr>job_subjobs := sub\<rparr>) st1")
      (auto simp: wait_for_job_def waits_for_def Let_def split: if_split_asm)
qed

lemma update_slot_never_changes:
  assumes "never_changes OS p" and "i < job_table_capacity st" and "job_table st ! i = Some j" and "waits_for p j"
  shows "\<exists>j'. job_table (update_slot OS fd i st) ! i = Some j' \<and> waits_for p j'"
proof -
  obtain r j' st1 where w: "wait_for_job OS j st = (r, j', st1)" by (metis prod_cases3)
  have j': "waits_for p j'" by (rule wait_for_job_never_changes [OF assms(1,4) w])
  have "job_table st1 = job_table st" using same_globals_job_table [OF wait_for_job_frame(1) [OF w]] by simp
  then show ?thesis
    using assms(2,3) w j' waits_for_alive [OF j'] by (auto simp: update_slot_def Let_def)
qed

lemma update_jobs_never_changes:
  assumes "never_changes OS p" and "table_wf st" and "jobs_of st n = Some j" and "waits_for p j"
  shows "\<exists>j'. jobs_of (update_jobs OS st) n = Some j' \<and> waits_for p j'"
proof -
  let ?f = "\<lambda>m. fold (update_slot OS 2) [0..<m] st"
  obtain i where i: "n = Suc i" "i < job_table_capacity st" "job_table st ! i = Some j"
    using assms(3) by (cases n) (auto simp: jobs_of_def split: if_split_asm)
  have "\<exists>j'. job_table (?f m) ! i = Some j' \<and> waits_for p j'" if "m \<le> job_table_capacity st" for m
    using that
  proof (induction m)
    case 0
    then show ?case using i(3) assms(4) by simp
  next
    case (Suc m)
    have r: "table_wf (?f m)" "job_table_capacity (?f m) = job_table_capacity st"
      using fd_update_rounds [OF assms(2), of m OS 2] Suc.prems by simp_all
    have IH: "\<exists>j'. job_table (?f m) ! i = Some j' \<and> waits_for p j'" using Suc by simp
    show ?case
    proof (cases "m = i")
      case True
      then show ?thesis using IH update_slot_never_changes [OF assms(1), of i "?f m"] i(2) r(2) by auto
    next
      case False
      then show ?thesis using IH update_slot_correct(3) [OF r(1), of m OS 2] i(2) r(2) Suc.prems by simp
    qed
  qed
  from this [OF order_refl] show ?thesis
    using i fd_update_jobs_correct(4) [OF assms(2), of OS 2] by (simp add: update_jobs_def fd_update_jobs_def jobs_of_def)
qed

lemma refused_exit:
  assumes "session_inv st" and "never_changes OS p" and "jobs_of st n = Some j" and "waits_for p j"
    and "read_call a st = Inr eof_call"
  obtains st' where "execute_commands OS [Some (eof_command a)] st = ret st'"
    and "should_exit st' = should_exit st" and "session_inv st'" and "job_table st' = job_table (update_jobs OS st)"
proof -
  define st1 where "st1 = update_jobs OS st"
  have wf: "table_wf st" using assms(1) by (simp add: session_inv_def)
  have only: "table_only st st1" and wf1: "table_wf st1"
    using fd_update_jobs_correct(1,2) [OF wf] by (simp_all add: st1_def update_jobs_def)
  obtain j' where "jobs_of st1 n = Some j'" "waits_for p j'"
    using update_jobs_never_changes [OF assms(2) wf assms(3,4)] by (auto simp: st1_def)
  then have "are_jobs_running st1" using waits_for_alive are_jobs_running_iff by blast
  moreover have "cc_argc eof_call = 1" "cc_stderr eof_call = 2"
    by (simp_all add: eof_call_def built_call_def new_command_call_def new_command_call_builder_def)
  ultimately have e: "exit_command OS (Some eof_call) st = (1, dprintf 2 (''jsh: you have running jobs.'' @ nl) st1)"
    by (simp add: exit_command_def st1_def)
  have "keeps st st1" by (rule keeps_table [OF wf wf1 only])
  then have k: "keeps st (dprintf 2 m st1)" for m by simp
  define st2 where "st2 = dprintf 2 (''jsh: you have running jobs.'' @ nl) st1"
  have "session_inv st2" using keeps_inv [OF k assms(1)] by (simp add: st2_def)
  then have "session_inv (st2\<lparr>last_exit_code := 1, call_heap := h\<rparr>)" for h
    by (simp add: session_inv_def table_wf_def)
  moreover have "should_exit st2 = should_exit st" "job_table st2 = job_table st1"
    using only by (auto simp: st2_def table_only_def sys_defs)
  ultimately show ?thesis
    using that [OF execute_exit_line [OF assms(5) e k]] by (simp add: st2_def st1_def)
qed

text \<open>The states in which the shell waits for the process.\<close>

definition waiting :: "pid \<Rightarrow> shell \<Rightarrow> bool" where
  "waiting p st \<longleftrightarrow> session_inv st \<and> \<not> should_exit st \<and> job_table_capacity st < 2 ^ 31 \<and>
     (\<exists>n j. jobs_of st n = Some j \<and> waits_for p j)"

lemma jobs_of_cong: "job_table a = job_table b \<Longrightarrow> jobs_of a = jobs_of b"
  by (simp add: jobs_of_def fun_eq_iff)

lemma waiting_updated:
  assumes "waiting p st" and "never_changes OS p" and "session_inv st'" and "should_exit st' = should_exit st"
    and "job_table st' = job_table (update_jobs OS st)"
  shows "waiting p st'"
proof -
  have wf: "table_wf st" using assms(1) by (simp add: waiting_def session_inv_def)
  have "job_table_capacity st' = job_table_capacity st"
    using fd_update_jobs_correct(4) [OF wf] assms(5) by (simp add: update_jobs_def)
  moreover obtain n j where "jobs_of st n = Some j" "waits_for p j" using assms(1) by (auto simp: waiting_def)
  then have "\<exists>j'. jobs_of st' n = Some j' \<and> waits_for p j'"
    using update_jobs_never_changes [OF assms(2) wf] jobs_of_cong [OF assms(5)] by simp
  ultimately show ?thesis using assms by (auto simp: waiting_def)
qed

lemma waiting_round:
  assumes w: "waiting p st" and "never_changes OS p" and "\<And>h q. os_readline OS h q = None"
    and "\<And>h. os_getcwd OS h = Some d" and "set d \<inter> {CHR 0x01, CHR 0x02, CHR 0x1B} = {}"
  obtains st' where "prompt_round OS st = ret st'" and "waiting p st'"
proof -
  have inv: "session_inv st" and wf: "table_wf st" using w by (simp_all add: waiting_def session_inv_def)
  define st1 where "st1 = update_jobs OS st"
  have "job_table_size st1 \<le> job_table_capacity st"
    using fd_update_jobs_correct(1,4) [OF wf, of OS 2] occupied_le [of "job_table st1"]
    by (simp add: st1_def update_jobs_def table_wf_def)
  then have "job_table_size st1 < 2 ^ 31" using w by (simp add: waiting_def)
  then obtain r where ps: "get_prompt_string OS (update_jobs OS st) = Inr r"
    using prompt_string_shown [of st1 OS d] assms(4,5) by (auto simp: st1_def)
  obtain st4 a where m: "prompt_round OS st = execute_commands OS [Some (eof_command a)] st4"
    and r: "read_call a st4 = Inr eof_call" and i4: "session_inv st4" and s4: "should_exit st4 = should_exit st"
    and t4: "job_table st4 = job_table (update_jobs OS st)"
    using eof_round [OF inv ps assms(3)] by metis
  have w4: "waiting p st4" by (rule waiting_updated [OF w assms(2) i4 s4 t4])
  then obtain n j where "jobs_of st4 n = Some j" "waits_for p j" by (auto simp: waiting_def)
  then obtain st5 where "execute_commands OS [Some (eof_command a)] st4 = ret st5"
    "should_exit st5 = should_exit st4" "session_inv st5" "job_table st5 = job_table (update_jobs OS st4)"
    using refused_exit [OF i4 assms(2) _ _ r] by metis
  then show ?thesis using that m waiting_updated [OF w4 assms(2)] by simp
qed

lemma waiting_forever:
  "prompt OS st = Some r \<Longrightarrow> waiting p st \<Longrightarrow> never_changes OS p \<Longrightarrow> (\<forall>h q. os_readline OS h q = None) \<Longrightarrow>
     (\<forall>h. os_getcwd OS h = Some d) \<Longrightarrow> set d \<inter> {CHR 0x01, CHR 0x02, CHR 0x1B} = {} \<Longrightarrow> False"
proof (induction rule: prompt.raw_induct [rotated 1, consumes 1, case_names step])
  case (step rec OS st r)
  obtain st' where "prompt_round OS st = ret st'" "waiting p st'"
    by (rule waiting_round [OF step.prems(1,2) _ _ step.prems(5)]) (use step.prems(3,4) in auto)
  moreover from this have "rec OS st' = Some r" using step.hyps step.prems(1) by (simp add: waiting_def)
  ultimately show ?case using step.IH step.prems by blast
qed

section \<open>Properties\<close>

text \<open>
  C7. In a whole run of the shell, from \<^verbatim>\<open>main\<close> on and whatever the user types and the kernel
  answers, no call is used after it is freed or freed twice and no pointer is read that was
  never written, except that \<^verbatim>\<open>parse_read_line\<close> uses a freed call on a line with a
  substitution that redirects its own standard output: when a run ends so, the line has been
  read in that very round, and the parser fails on it. What else a run can end in is a null
  dereference, an access out of bounds, the free of a literal or an endless loop.
\<close>

theorem session_memory_safe:
  assumes "main_program OS argv initial_shell = Some (Inl u)"
  shows "\<exists>st. at_prompt OS st \<and> \<not> should_exit st \<and> prompt_round OS st = Inl u \<and>
           (u \<in> {Null_Deref, Out_Of_Bounds, Invalid_Free, Diverges} \<or>
            u = Use_After_Free \<and>
              (\<exists>line st'. reads_line OS st line st' \<and> parse_read_line OS line st' = Inl Use_After_Free \<and>
                 (\<exists>piece \<in> set (words line ''&''). redirects_inside (words piece '' ''))))"
proof -
  obtain st where st: "at_prompt OS st" "\<not> should_exit st" "prompt_round OS st = Inl u"
    using main_program_fault [OF assms] by blast
  have "u \<in> round_faults OS st" using good_round [OF at_prompt_inv [OF st(1)], of OS] st(3) by simp
  then consider "u \<in> command_faults"
    | line st' where "reads_line OS st line st'" "parse_read_line OS line st' = Inl u"
    by (auto simp: round_faults_def)
  then have "u \<in> {Null_Deref, Out_Of_Bounds, Invalid_Free, Diverges} \<or>
      u = Use_After_Free \<and>
        (\<exists>line st'. reads_line OS st line st' \<and> parse_read_line OS line st' = Inl Use_After_Free \<and>
           (\<exists>piece \<in> set (words line ''&''). redirects_inside (words piece '' '')))"
  proof cases
    case 1
    then show ?thesis by (auto simp: command_faults_def)
  next
    case 2
    have "u = Use_After_Free \<and> (\<exists>piece \<in> set (words line ''&''). redirects_inside (words piece '' ''))"
      using parse_line_faults [OF 2(2)] .
    then show ?thesis using 2 by blast
  qed
  then show ?thesis using st by blast
qed

definition bad_line_os :: os where
  "bad_line_os = sample_os\<lparr>os_readline := (\<lambda>h p. Some ''a <( b > f )'')\<rparr>"

lemma session_memory_safe_witness:
  "main_program bad_line_os [''jsh''] initial_shell = Some (Inl Use_After_Free) \<and>
   (\<exists>st line st'. at_prompt bad_line_os st \<and> reads_line bad_line_os st line st' \<and>
      parse_read_line bad_line_os line st' = Inl Use_After_Free)"
proof -
  have "case main_program bad_line_os [''jsh''] initial_shell of Some (Inl u) \<Rightarrow> u = Use_After_Free | _ \<Rightarrow> False"
    by code_simp
  then have p: "main_program bad_line_os [''jsh''] initial_shell = Some (Inl Use_After_Free)"
    by (simp split: option.splits sum.splits)
  then show ?thesis using session_memory_safe [OF p] by blast
qed

text \<open>
  C8. Between two rounds of the loop, from \<^verbatim>\<open>main\<close> on and whatever the user types and the kernel
  answers, the job table is well-formed and the last exit status is a byte.
\<close>

theorem session_invariant:
  assumes "at_prompt OS st"
  shows "table_wf st \<and> 0 \<le> last_exit_code st \<and> last_exit_code st \<le> 255"
  using at_prompt_inv [OF assms] by (simp add: session_inv_def exit_status_def)

lemma session_invariant_witness:
  "\<exists>st st'. at_prompt sample_os st \<and> prompt_round sample_os st = ret st' \<and> at_prompt sample_os st' \<and> table_wf st'"
proof -
  let ?start = "bindP (ignore_signals sample_os initial_shell) (\<lambda>st. lift_cres (init_internals st))"
  have "case ?start of Inr (Running st) \<Rightarrow> \<not> should_exit st \<and>
      (case prompt_round sample_os st of Inr (Running st') \<Rightarrow> True | _ \<Rightarrow> False) | _ \<Rightarrow> False"
    by code_simp
  then obtain st where s: "?start = ret st" and "\<not> should_exit st"
    and "case prompt_round sample_os st of Inr (Running st') \<Rightarrow> True | _ \<Rightarrow> False"
    by (auto simp: running_iff)
  then obtain st' where r: "prompt_round sample_os st = ret st'" by (auto simp: running_iff)
  have at: "at_prompt sample_os st" by (rule at_prompt.start [OF s])
  then have at': "at_prompt sample_os st'" by (rule at_prompt.round [OF _ \<open>\<not> should_exit st\<close> r])
  show ?thesis using session_invariant [OF at'] at at' r by blast
qed


text \<open>
  C30. At the end of its input the shell ends after one round when no job is left: the end of the
  input reads as \<^verbatim>\<open>exit\<close>, the round that reads it sets the flag, the loop stops, and the exit
  status is that of the last command. The prompt string of the round can be computed: what
  \<^verbatim>\<open>get_prompt_string\<close> can do wrong is its own.
\<close>

theorem end_of_input_exits:
  assumes "table_wf st" and "0 \<le> last_exit_code st" and "last_exit_code st \<le> 255" and "\<not> should_exit st"
    and "jobs_of (update_jobs OS st) = (\<lambda>_. None)" and "get_prompt_string OS (update_jobs OS st) = Inr r"
    and "\<And>h p. os_readline OS h p = None"
  shows "\<exists>st'. prompt_round OS st = ret st' \<and> prompt OS st = Some (ret st') \<and> should_exit st' \<and>
           last_exit_code st' = last_exit_code st"
proof -
  have inv: "session_inv st" using assms(1-3) by (simp add: session_inv_def exit_status_def)
  obtain st4 a where m: "prompt_round OS st = execute_commands OS [Some (eof_command a)] st4"
    and r: "read_call a st4 = Inr eof_call" and i4: "session_inv st4"
    and l4: "last_exit_code st4 = last_exit_code st" and t4: "job_table st4 = job_table (update_jobs OS st)"
    using eof_round [OF inv assms(6,7)] by metis
  have "jobs_of st4 = (\<lambda>_. None)" using assms(5) jobs_of_cong [OF t4] by simp
  then obtain st5 where "exit_command OS (Some eof_call) st4 = (last_exit_code st4, st5)" "should_exit st5" "keeps st4 st5"
    using exit_without_jobs i4 by (metis session_inv_def)
  then obtain st6 where "prompt_round OS st = ret st6" and "should_exit st6" and "last_exit_code st6 = last_exit_code st4"
    using execute_exit_line [OF r] m by fastforce
  moreover from this have "prompt OS st = Some (ret st6)"
    using assms(4) by (subst prompt.simps) (simp, subst prompt.simps, simp)
  ultimately show ?thesis using l4 by auto
qed

lemma end_of_input_exits_witness:
  "\<exists>st st'. at_prompt sample_os st \<and> prompt_round sample_os st = ret st' \<and>
     prompt sample_os st = Some (ret st') \<and> should_exit st'"
proof -
  let ?start = "bindP (ignore_signals sample_os initial_shell) (\<lambda>st. lift_cres (init_internals st))"
  have "case ?start of Inr (Running st) \<Rightarrow> \<not> should_exit st \<and> list_all (\<lambda>s. s = None) (job_table (update_jobs sample_os st)) \<and>
      (case get_prompt_string sample_os (update_jobs sample_os st) of Inr r \<Rightarrow> True | _ \<Rightarrow> False) | _ \<Rightarrow> False"
    by code_simp
  then obtain st where s: "?start = ret st" and n: "\<not> should_exit st"
    and e: "list_all (\<lambda>s. s = None) (job_table (update_jobs sample_os st))"
    and "case get_prompt_string sample_os (update_jobs sample_os st) of Inr r \<Rightarrow> True | _ \<Rightarrow> False"
    by (auto simp: running_iff)
  then obtain r where r: "get_prompt_string sample_os (update_jobs sample_os st) = Inr r" by (auto split: sum.splits)
  have at: "at_prompt sample_os st" by (rule at_prompt.start [OF s])
  then have "table_wf st" "0 \<le> last_exit_code st" "last_exit_code st \<le> 255"
    using at_prompt_inv by (simp_all add: session_inv_def exit_status_def)
  moreover have "jobs_of (update_jobs sample_os st) = (\<lambda>_. None)"
    using e by (auto simp: jobs_of_def fun_eq_iff list_all_length)
  moreover have "os_readline sample_os h p = None" for h p by (simp add: sample_os_def)
  ultimately show ?thesis using end_of_input_exits [OF _ _ _ n _ r] at by blast
qed

text \<open>
  C31. At the end of its input the shell never ends as long as a job has a process that does not: it
  reads \<^verbatim>\<open>exit\<close> again and again and refuses it each time, without waiting in between.
\<close>

theorem end_of_input_never_ends:
  assumes "table_wf st" and "0 \<le> last_exit_code st" and "last_exit_code st \<le> 255"
    and "\<not> should_exit st" and "job_table_capacity st < 2 ^ 31"
    and "jobs_of st n = Some j" and "waits_for p j" and "never_changes OS p" and "\<And>h q. os_readline OS h q = None"
    and "\<And>h. os_getcwd OS h = Some d" and "set d \<inter> {CHR 0x01, CHR 0x02, CHR 0x1B} = {}"
  shows "prompt OS st = None"
proof -
  have "waiting p st" using assms(1-7) by (auto simp: waiting_def session_inv_def exit_status_def)
  then have "prompt OS st \<noteq> Some r" for r using waiting_forever [OF _ _ assms(8) _ _ assms(11)] assms(9,10) by blast
  then show ?thesis by (cases "prompt OS st") auto
qed

definition one_sleeper :: shell where
  "one_sleeper =
     initial_shell\<lparr>job_table_ptr := Live_Table, job_table_size := 1,
       job_table := [Some ((new_job 1 ''sleep'')
         \<lparr>job_id := 1, job_pgid := 7, job_subjobs := [Some (new_subjob (new_command_call 1 [''sleep''] ''sleep'') 7 RUNNING)]\<rparr>)]\<rparr>"

lemma end_of_input_never_ends_witness:
  "prompt (sample_os\<lparr>os_waitpid := (\<lambda>h p opts. (0, 0))\<rparr>) one_sleeper = None"
proof -
  let ?OS = "sample_os\<lparr>os_waitpid := (\<lambda>h p opts. (0, 0))\<rparr>"
  let ?j = "(new_job 1 ''sleep'')
         \<lparr>job_id := 1, job_pgid := 7, job_subjobs := [Some (new_subjob (new_command_call 1 [''sleep''] ''sleep'') 7 RUNNING)]\<rparr>"
  have "table_wf one_sleeper" "jobs_of one_sleeper 1 = Some ?j"
    by (auto simp: table_wf_def jobs_of_def one_sleeper_def)
  moreover have "waits_for 7 ?j" by (simp add: waits_for_def new_subjob_def is_finished_status_def)
  moreover have "never_changes ?OS 7" by (simp add: never_changes_def)
  moreover have "os_readline ?OS h q = None" "os_getcwd ?OS h = Some ''/''" for h q by (simp_all add: sample_os_def)
  moreover have "0 \<le> last_exit_code one_sleeper" "last_exit_code one_sleeper \<le> 255" "\<not> should_exit one_sleeper"
    "job_table_capacity one_sleeper < 2 ^ 31"
    by (simp_all add: one_sleeper_def initial_shell_def)
  ultimately show ?thesis
    using end_of_input_never_ends [of one_sleeper 1 ?j 7 ?OS "''/''"] by simp
qed

end
