(* ===== verification/No_Leaks.thy ===== *)
theory No_Leaks
  imports Parse_Failure Shutdown
begin

text \<open>
  Lines and sessions: a line that is executed leaves no descriptor open and no call behind, and
  neither does the shell between its prompts.
\<close>

section \<open>Lines\<close>

lemma held_background [simp]: "held (cmd\<lparr>cmd_background := b\<rparr>) st = held cmd st"
  by (simp add: held_def)

lemma held_cong: "(\<And>a. a \<in> set (cmd_calls cmd) \<Longrightarrow> the_call st' a = the_call st a) \<Longrightarrow> held cmd st' = held cmd st"
  unfolding held_def by (metis (no_types, lifting) map_eq_conv)

lemma held_keeps_calls: "command_tree st cmd \<Longrightarrow> keeps_calls st st' \<Longrightarrow> held cmd st' = held cmd st"
  by (rule held_cong) (auto simp: command_tree_def keeps_calls_def live_iff the_call_def)

abbreviation parsed_commands :: "command option list \<Rightarrow> command list" where
  "parsed_commands \<equiv> List.map_filter (\<lambda>c. c)"

text \<open>What the commands of a line hold together, and that no other call is left.\<close>

definition leaves :: "command list \<Rightarrow> shell \<Rightarrow> shell \<Rightarrow> bool" where
  "leaves cmds st st' \<longleftrightarrow>
     sane_fds (open_fds (trace st')) \<and> fds st' = fds st + (\<Sum>c\<leftarrow>cmds. held c st') \<and>
     (\<forall>a. live st' a \<longrightarrow> live st a \<or> a \<in> set (concat (map cmd_calls cmds)))"

lemma sane_fds_cong: "fds st' = fds st \<Longrightarrow> sane_fds (open_fds (trace st)) \<Longrightarrow> sane_fds (open_fds (trace st'))"
  unfolding fds_def sane_fds_def by (metis mset_eq_imp_distinct_iff mset_eq_setD)

lemma grants_grants_pipes: "grants OS \<Longrightarrow> grants_pipes OS"
  by (simp add: grants_def grants_pipes_def)

lemma aborted_pieces:
  "parse_pieces OS lb i pieces True st = Inr (cs, ab, trim, st') \<Longrightarrow> st' = st \<and> parsed_commands cs = []"
  by (induction pieces arbitrary: i cs ab trim st') (auto elim!: bindU_InrE)

lemma live_before: "keeps_calls st st' \<Longrightarrow> a < length (call_heap st) \<Longrightarrow> live st' a = live st a"
  by (simp add: keeps_calls_def live_iff)

lemma parse_command_keeps: "parse_command OS s st = Inr (r, st') \<Longrightarrow> keeps_calls st st'"
  using yields_InrD [OF parse_command_tree] by (fastforce simp: keeps_calls_def)

lemma pieces_left:
  assumes "fresh_fds OS" and "grants_pipes OS"
  shows "sane_fds (open_fds (trace st)) \<Longrightarrow>
     parse_pieces OS lb i pieces False st = Inr (cs, ab, trim, st') \<Longrightarrow> leaves (parsed_commands cs) st st'"
proof (induction pieces arbitrary: i st cs)
  case Nil
  then show ?case by (simp add: leaves_def)
next
  case (Cons piece pieces)
  obtain cmd st1 where p: "parse_command OS piece st = Inr (cmd, st1)"
    using Cons.prems(2) by (auto elim!: bindU_InrE)
  have k1: "keeps_calls st st1" by (rule parse_command_keeps [OF p])
  show ?case
  proof (cases cmd)
    case None
    then have "st' = st1\<lparr>last_exit_code := 1\<rparr>" "parsed_commands cs = []"
      using Cons.prems(2) p by (auto simp: Let_def elim!: bindU_InrE split: if_split_asm dest!: aborted_pieces)
    moreover note left = parse_command_left [OF assms Cons.prems(1) p [unfolded None]]
    ultimately show ?thesis
      using live_before [OF k1] sane_fds_cong [OF conjunct1 [OF left] Cons.prems(1)]
      by (auto simp: leaves_def live_iff fds_def)
  next
    case (Some c)
    define c' where "c' = (if int i \<le> lb then c\<lparr>cmd_background := True\<rparr> else c)"
    obtain cs' where r: "parse_pieces OS lb (i + 1) pieces False st1 = Inr (cs', ab, trim, st')"
      and cs: "cs = Some c' # cs'"
      using Cons.prems(2) p Some by (auto simp: Let_def c'_def elim!: bindU_InrE)
    have h: "sane_fds (open_fds (trace st1))" "fds st1 = fds st + held c st1"
      using parse_command_held [OF assms(1) Cons.prems(1) p [unfolded Some]] by (simp_all add: fds_def)
    have k: "keeps_calls st1 st'" using yields_InrD [OF parse_pieces_step r] by auto
    note IH = Cons.IH [OF h(1) r]
    have tree: "command_tree st1 c" and new: "mset (cmd_calls c) = mset (fresh st st1)"
      using yields_InrD [OF parse_command_tree p] Some by simp_all
    have "held c' st' = held c st1" using held_keeps_calls [OF tree k] by (simp add: c'_def)
    moreover have "live st a \<or> a \<in> set (cmd_calls c)" if "live st1 a" for a
    proof (cases "a < length (call_heap st)")
      case False
      then have "a \<in> set (fresh st st1)" using that by (simp add: fresh_def live_iff)
      then show ?thesis using new by (metis set_mset_mset)
    qed (use that live_before [OF k1] in simp)
    moreover have "cmd_calls c' = cmd_calls c" by (simp add: c'_def)
    ultimately show ?thesis using IH h(2) by (auto simp: leaves_def cs add.assoc)
  qed
qed

text \<open>A line that is executed, and one that is not.\<close>

lemma line_left:
  assumes "fresh_fds OS" and "grants_pipes OS" and "sane_fds (open_fds (trace st))"
    and run: "parse_read_line OS s st = Inr (Some (map Some cmds), st')"
  shows "leaves cmds st st'"
proof -
  let ?pieces = "words s ''&''"
  obtain lb cs trim where p: "parse_pieces OS lb 0 ?pieces False st = Inr (cs, False, trim, st')"
    and trim: "if trim then length ?pieces \<noteq> 1 \<and> map Some cmds = take (length ?pieces - 1) cs else map Some cmds = cs"
    using run
    by (auto simp: parse_read_line_def split_string_keep_trace_words elim!: bindU_InrE split: if_split_asm)
  have len: "length cs = length ?pieces" and "trim \<longrightarrow> ?pieces \<noteq> []"
    and none: "\<forall>k < length cs. cs ! k = None \<longleftrightarrow> trim \<and> k = length cs - 1"
    using yields_InrD [OF parse_pieces_step p] by (auto simp: pieces_parsed_def)
  have "parsed_commands cs = cmds"
  proof (cases trim)
    case True
    then obtain n where n: "length cs = Suc n" using len \<open>trim \<longrightarrow> _\<close> by (cases ?pieces) auto
    moreover have "cs ! n = None" using none n True by simp
    ultimately have "cs = map Some cmds @ [None]"
      using trim True len take_Suc_conv_app_nth [of n cs] by simp
    then show ?thesis by simp
  next
    case False
    then have "cs = map Some cmds" using trim by simp
    then show ?thesis by simp
  qed
  then show ?thesis using pieces_left [OF assms(1-3) p] by simp
qed

lemma line_refused:
  assumes "fresh_fds OS" and "grants_pipes OS" and "sane_fds (open_fds (trace st))"
    and run: "parse_read_line OS s st = Inr (None, st')" and "length (words s ''&'') \<le> 2"
  shows "leaves [] st st'"
proof (cases "starts_with s ''&'' \<or> words s ''&'' = []")
  case True
  then have "st' = st"
    using run by (auto simp: parse_read_line_def split_string_keep_trace_words elim!: bindU_InrE split: if_split_asm)
  then show ?thesis using assms(3) by (simp add: leaves_def)
next
  case False
  let ?pieces = "words s ''&''"
  obtain lb cs ab trim where p: "parse_pieces OS lb 0 ?pieces False st = Inr (cs, ab, trim, st')"
    and f: "ab \<or> trim \<and> length ?pieces = 1"
    using run False
    by (auto simp: parse_read_line_def split_string_keep_trace_words elim!: bindU_InrE split: if_split_asm)
  have "parsed_commands cs = []"
  proof (cases "\<exists>q. ?pieces = [q]")
    case True
    then obtain q where q: "?pieces = [q]" by blast
    then show ?thesis using p f by (auto simp: Let_def elim!: bindU_InrE split: option.splits)
  next
    case False
    then obtain q r where q: "?pieces = [q, r]"
      using assms(5) \<open>\<not> (_ \<or> words s ''&'' = [])\<close>
      by (cases ?pieces; cases "tl ?pieces"; cases "tl (tl ?pieces)") auto
    then show ?thesis using p f by (auto simp: Let_def elim!: bindU_InrE split: option.splits)
  qed
  then show ?thesis using pieces_left [OF assms(1-3) p] by simp
qed

lemma commands_close:
  assumes "grants OS"
  shows "session_inv st \<Longrightarrow> \<forall>c \<in> set cmds. command_tree st c \<Longrightarrow> distinct (concat (map cmd_calls cmds)) \<Longrightarrow>
     distinct (open_fds (trace st)) \<Longrightarrow> fds st = X + (\<Sum>c\<leftarrow>cmds. held c st) \<Longrightarrow>
     execute_commands OS (map Some cmds) st = ret st' \<Longrightarrow> fds st' = X"
proof (induction cmds arbitrary: st)
  case (Cons cmd cmds)
  have tree: "command_tree st cmd" using Cons.prems(2) by simp
  obtain result st1 st2 where e: "execute_command OS cmd st = ret (result, st1)"
    and d: "(case result of Some r \<Rightarrow> destroy_command_result (Some r) st1 | None \<Rightarrow> destroy_command (Some cmd) st1) = Inr st2"
    and r: "execute_commands OS (map Some cmds) st2 = ret st'"
    using Cons.prems(6) by (auto simp: bindP_eq_Running lift_cres_ret)
  obtain res where "result = Some res" "r_command res = cmd" and k: "keeps st st1"
    using yieldsP_InrD [OF good_command [OF Cons.prems(1) tree] e] by auto
  note destroyed = destroy_executed [OF Cons.prems(1) tree k]
  have st2: "destroy_command (Some cmd) st1 = Inr st2"
    using d \<open>result = Some res\<close> \<open>r_command res = cmd\<close> by (simp add: destroy_command_result_def)
  then have f: "frees (set (cmd_calls cmd)) st st2" "session_inv st2" "trace st2 = trace st1"
    using destroyed by auto
  have apart: "set (cmd_calls c) \<inter> set (cmd_calls cmd) = {}" if "c \<in> set cmds" for c
    using Cons.prems(3) that by auto
  have trees: "\<forall>c \<in> set cmds. command_tree st2 c"
    using Cons.prems(2) command_tree_frees [OF _ f(1)] apart by auto
  have "held c st2 = held c st" if "c \<in> set cmds" for c
  proof (rule held_cong)
    fix a assume a: "a \<in> set (cmd_calls c)"
    then have "a < length (call_heap st)" using Cons.prems(2) that by (auto simp: command_tree_def live_iff)
    then show "the_call st2 a = the_call st a"
      using f(1) a apart [OF that] by (auto simp: frees_def the_call_def)
  qed
  then have h: "(\<Sum>c\<leftarrow>cmds. held c st2) = (\<Sum>c\<leftarrow>cmds. held c st)" by (metis (no_types, lifting) map_eq_conv)
  have "fds st1 = X + (\<Sum>c\<leftarrow>cmds. held c st)"
    by (rule command_closes [OF assms Cons.prems(1) tree Cons.prems(4) _ e]) (use Cons.prems(5) in \<open>simp add: add_ac\<close>)
  then have f2: "fds st2 = X + (\<Sum>c\<leftarrow>cmds. held c st2)" using f(3) h by (simp add: fds_def)
  have "distinct (open_fds (trace st2))"
    by (rule distinct_fds_le [OF _ Cons.prems(4)]) (simp add: f2 h Cons.prems(5))
  then show ?case using Cons.IH [OF f(2) trees _ _ f2 r] Cons.prems(3) by simp
qed simp

lemma line_executed:
  assumes "fresh_fds OS" and "grants OS" and inv: "session_inv st" and "sane_fds (open_fds (trace st))"
    and p: "parse_read_line OS s st = Inr (Some cs, st0)"
    and same: "same_globals st0 st1" "fds st1 = fds st0" and e: "execute_commands OS cs st1 = ret st2"
  shows "fds st2 = fds st \<and> calls_of st2 = calls_of st"
proof -
  obtain cmds where c: "cs = map Some cmds" "line_parsed s st st0 cmds" and k: "keeps_calls st st0"
    using yields_InrD [OF parse_read_line_step p] by auto
  have heap: "call_heap st1 = call_heap st0" using same(1) by (auto simp: same_globals_iff)
  have L: "leaves cmds st st0"
    by (rule line_left [OF assms(1) grants_grants_pipes [OF assms(2)] assms(4) p [unfolded c(1)]])
  then have f: "fds st1 = fds st + (\<Sum>c\<leftarrow>cmds. held c st1)"
    by (simp add: leaves_def same held_def the_call_def heap)
  have d: "distinct (open_fds (trace st1))"
    using L sane_fds_cong [OF same(2)] by (simp add: leaves_def sane_fds_def)
  have inv1: "session_inv st1" by (rule keeps_inv [OF keeps_same_globals [OF same(1)] parse_read_line_inv [OF p inv]])
  have trees: "\<forall>c \<in> set cmds. command_tree st1 c"
    using line_parsed_tree [OF c(2)] live_same_globals [OF same(1)]
    by (simp add: command_tree_def the_call_def heap cong: map_cong)
  have dist: "distinct (concat (map cmd_calls cmds))" and new: "set (concat (map cmd_calls cmds)) \<subseteq> set (fresh st st0)"
    using c(2) by (simp_all add: line_parsed_def Let_def)
  have "fds st2 = fds st" by (rule commands_close [OF assms(2) inv1 trees dist d f e [unfolded c(1)]])
  moreover have fr: "frees (set (concat (map cmd_calls cmds))) st1 st2"
    using yieldsP_InrD [OF good_commands [OF inv1 trees dist] e [unfolded c(1)]] by blast
  have "calls_of st2 a = calls_of st a" for a
  proof (cases "a < length (call_heap st)")
    case True
    then have "a \<notin> set (concat (map cmd_calls cmds))" using new by (auto simp: fresh_def)
    then show ?thesis using True k fr by (simp add: calls_of_def frees_def keeps_calls_def heap)
  next
    case False
    then have "\<not> live st0 a \<or> a \<in> set (concat (map cmd_calls cmds))"
      using L by (auto simp: leaves_def live_iff)
    then show ?thesis using False fr by (auto simp: calls_of_def frees_def live_iff heap)
  qed
  ultimately show ?thesis by blast
qed

text \<open>
  C5. The shell does not leak: when a line is executed, the descriptors open afterwards are
  exactly those that were open before it was parsed, and the calls in the store are those that
  were there, if the kernel gives fresh descriptors, refuses no pipe and no process, and lets
  the handshakes through. What the line redirects, how many pipes and substitutions it has, what
  the built-ins and the children do, and whether its last piece parses is arbitrary.
\<close>

theorem line_closes_descriptors:
  assumes "fresh_fds OS" and "grants OS"
    and "table_wf st" and "0 \<le> last_exit_code st" and "last_exit_code st \<le> 255"
    and "sane_fds (open_fds (trace st))"
    and p: "parse_read_line OS s st = Inr (Some cs, st1)"
    and e: "execute_commands OS cs st1 = ret st2"
  shows "mset (open_fds (trace st2)) = mset (open_fds (trace st)) \<and> calls_of st2 = calls_of st"
  using line_executed [OF assms(1,2) _ assms(6) p same_globals_refl refl e] assms(3-5)
  by (simp add: session_inv_def exit_status_def fds_def)

lemma line_closes_descriptors_witness:
  "\<exists>cs st1 st2. parse_read_line sample_os ''cat < f | wc'' two_jobs = Inr (Some cs, st1) \<and>
     length (open_fds (trace st1)) = 3 \<and> execute_commands sample_os cs st1 = ret st2 \<and>
     open_fds (trace st2) = []"
proof -
  let ?p = "parse_read_line sample_os ''cat < f | wc'' two_jobs"
  have "case ?p of Inr (Some cs, st1) \<Rightarrow> length (open_fds (trace st1)) = 3 \<and> 
      (case execute_commands sample_os cs st1 of Inr (Running st2) \<Rightarrow> True | _ \<Rightarrow> False) | _ \<Rightarrow> False"
    by code_simp
  then obtain cs st1 where p: "?p = Inr (Some cs, st1)" "length (open_fds (trace st1)) = 3"
    and "case execute_commands sample_os cs st1 of Inr (Running st2) \<Rightarrow> True | _ \<Rightarrow> False"
    by (cases ?p) (auto split: option.splits)
  then obtain st2 where e: "execute_commands sample_os cs st1 = ret st2" by (auto simp: running_iff)
  have k: "grants sample_os" by (auto simp: grants_def sample_os_def)
  have t: "0 \<le> last_exit_code two_jobs" "last_exit_code two_jobs \<le> 255" "sane_fds (open_fds (trace two_jobs))"
    "open_fds (trace two_jobs) = []"
    by (simp_all add: two_jobs_def initial_shell_def sane_fds_def)
  with line_closes_descriptors [OF sample_os_fresh k two_jobs_wf t(1-3) p(1) e] t(4) p e
  show ?thesis by auto
qed


section \<open>Sessions\<close>

lemma fds_set_signals: "set_signal_actions_loop OS h sigs st = ret st' \<Longrightarrow> fds st' = fds st \<and> call_heap st' = call_heap st \<and>
    job_table_ptr st' = job_table_ptr st"
proof (induction sigs arbitrary: st)
  case (Cons sig sigs)
  from Cons.prems show ?case
    by (auto simp: sys_sigaction_def fds_def record_event_def Let_def split: if_split_asm dest!: Cons.IH)
qed simp

lemma fds_startup:
  assumes "bindP (ignore_signals OS initial_shell) (\<lambda>st. lift_cres (init_internals st)) = ret st"
  shows "fds st = {#} \<and> call_heap st = []"
proof -
  obtain st1 where s: "ignore_signals OS initial_shell = ret st1" and i: "init_internals st1 = Inr st"
    using assms by (auto simp: bindP_eq_Running lift_cres_ret)
  have 1: "fds st1 = {#} \<and> call_heap st1 = [] \<and> job_table_ptr st1 = Null_Table"
    using fds_set_signals [OF s [unfolded ignore_signals_def set_signal_actions_def]]
    by (simp add: initial_shell_def fds_def)
  have "st = st1\<lparr>last_exit_code := 0, should_exit := False,
      job_table := replicate INITIAL_JOB_TABLE_CAPACITY None, job_table_ptr := Live_Table, job_table_size := 0\<rparr>"
    using i 1 by (simp add: init_internals_def init_job_table_def destroy_job_table_def)
  then show ?thesis using 1 by (simp add: fds_def)
qed

lemma fds_prompt_string: "get_prompt_string OS st = Inr (s, st') \<Longrightarrow> fds st' = fds st"
proof -
  have cwd [dest!]: "get_current_wd OS st = (d, st') \<Longrightarrow> fds st' = fds st" for st d st'
    by (auto simp: get_current_wd_def Let_def split: option.splits prod.splits dest!: kept)
  have trunc [dest!]: "truncated_cwd OS n st = Inr (t, st') \<Longrightarrow> fds st' = fds st" for n t st st'
    by (auto simp: truncated_cwd_def elim!: bindU_InrE split: prod.splits)
  show "get_prompt_string OS st = Inr (s, st') \<Longrightarrow> fds st' = fds st"
    by (auto simp: get_prompt_string_def Let_def elim!: bindU_InrE split: prod.splits option.splits if_split_asm)
qed

lemma round_leaves_nothing:
  assumes "fresh_fds OS" and "grants OS" and inv: "session_inv st"
    and lines: "\<And>h p l. os_readline OS h p = Some l \<Longrightarrow> length (words l ''&'') \<le> 2"
    and clean: "fds st = {#}" "\<And>a. \<not> live st a" and run: "prompt_round OS st = ret st'"
  shows "fds st' = {#} \<and> (\<forall>a. \<not> live st' a)"
proof -
  define st1 where "st1 = update_jobs OS st"
  have k1: "keeps st st1" using keeps_update_jobs [OF inv] by (simp add: st1_def update_jobs_def)
  obtain ps st2 where ps: "get_prompt_string OS st1 = Inr (ps, st2)"
    using run by (auto simp: prompt_round_def st1_def Let_def bindP_eq_Running lift_cres_ret)
  obtain line st3 where rl: "sys_readline OS (case ps of None \<Rightarrow> [] | Some s \<Rightarrow> s) st2 = (line, st3)" by fastforce
  define buf where "buf = (case line of None \<Rightarrow> ''exit'' | Some l \<Rightarrow> l)"
  obtain cs st4 where p: "parse_read_line OS buf st3 = Inr (cs, st4)"
    and x: "case cs of None \<Rightarrow> st' = st4 | Some cs \<Rightarrow> execute_commands OS cs (add_history buf st4) = ret st'"
    using run ps rl
    by (cases line) (auto simp: prompt_round_def st1_def buf_def Let_def bindP_eq_Running lift_cres_ret split: option.splits)
  have two: "length (words buf ''&'') \<le> 2"
  proof (cases line)
    case None
    have "length (words ''exit'' ''&'') = 1" by code_simp
    then show ?thesis by (simp add: buf_def None)
  next
    case (Some l)
    then show ?thesis using rl lines by (auto simp: buf_def sys_readline_def Let_def)
  qed
  have k2: "keeps st st3"
    using keeps_trans [OF k1] yields_InrD [OF keeps_prompt_string ps] rl by (auto simp: sys_readline_def Let_def)
  then have inv3: "session_inv st3" by (rule keeps_inv) (rule inv)
  have "fds st3 = fds st2" using rl by (auto dest!: kept)
  then have f3: "fds st3 = {#}" using clean(1) fds_prompt_string [OF ps] by (simp add: st1_def)
  then have s3: "sane_fds (open_fds (trace st3))" by (simp add: fds_def sane_fds_def)
  have h3: "\<not> live st3 a" for a using k2 clean(2) [of a] by (simp add: keeps_def live_iff)
  show ?thesis
  proof (cases cs)
    case None
    then show ?thesis
      using line_refused [OF assms(1) grants_grants_pipes [OF assms(2)] s3 p [unfolded None] two] x f3 h3
      by (simp add: leaves_def)
  next
    case (Some c)
    have "same_globals st4 (add_history buf st4)" by (simp add: add_history_def)
    from line_executed [OF assms(1,2) inv3 s3 p [unfolded Some] this _ x [unfolded Some option.case]]
    have "fds st' = fds st3 \<and> calls_of st' = calls_of st3" by simp
    then show ?thesis using f3 h3 by (simp add: live_def read_call_iff)
  qed
qed

text \<open>
  C4. Between two prompts the shell holds nothing: whatever has been typed so far and whatever
  the kernel has answered, no descriptor is open and no call is in the store, if the kernel gives
  fresh descriptors and refuses no pipe and no process, and no line has more than two pieces
  between its symbols \<^verbatim>\<open>&\<close>. (Where a piece in the middle of a longer line does not parse,
  \<^verbatim>\<open>parse_read_line\<close> keeps what the earlier ones hold.)
\<close>

theorem session_leaves_nothing:
  assumes "fresh_fds OS" and "grants OS"
    and "\<And>h p l. os_readline OS h p = Some l \<Longrightarrow> length (words l ''&'') \<le> 2"
    and "at_prompt OS st"
  shows "open_fds (trace st) = [] \<and> calls_of st = (\<lambda>_. None)"
proof -
  have "fds st = {#} \<and> (\<forall>a. \<not> live st a)"
    using assms(4)
  proof (induction rule: at_prompt.induct)
    case (start st)
    then show ?case using fds_startup by (simp add: live_iff)
  next
    case (round st st')
    then show ?case using round_leaves_nothing [OF assms(1,2) at_prompt_inv [OF round.hyps(1)] assms(3)] by simp
  qed
  then show ?thesis by (auto simp: fds_def fun_eq_iff live_def read_call_iff)
qed


text \<open>A user who types the same line again and again.\<close>

definition typing_os :: "string \<Rightarrow> os" where
  "typing_os l = sample_os\<lparr>os_readline := (\<lambda>h prompt. Some l)\<rparr>"

lemma session_leaves_nothing_witness:
  "\<exists>st st'. at_prompt (typing_os ''a > f | b < g | < c'') st \<and>
     prompt_round (typing_os ''a > f | b < g | < c'') st = ret st' \<and>
     (\<exists>path flags fd. Ev_Open path flags fd \<in> set (trace st') \<and> 2 < fd) \<and> open_fds (trace st') = [] \<and>
     calls_of st' = (\<lambda>_. None)"
proof -
  let ?OS = "typing_os ''a > f | b < g | < c''"
  let ?start = "bindP (ignore_signals ?OS initial_shell) (\<lambda>st. lift_cres (init_internals st))"
  have "case ?start of Inr (Running st) \<Rightarrow> \<not> should_exit st \<and>
      (case prompt_round ?OS st of Inr (Running st') \<Rightarrow>
         list_ex (\<lambda>e. case e of Ev_Open path flags fd \<Rightarrow> 2 < fd | _ \<Rightarrow> False) (trace st') | _ \<Rightarrow> False) | _ \<Rightarrow> False"
    by code_simp
  then obtain st where s: "?start = ret st" and "\<not> should_exit st"
    and "case prompt_round ?OS st of Inr (Running st') \<Rightarrow>
         list_ex (\<lambda>e. case e of Ev_Open path flags fd \<Rightarrow> 2 < fd | _ \<Rightarrow> False) (trace st') | _ \<Rightarrow> False"
    by (auto simp: running_iff)
  then obtain st' where r: "prompt_round ?OS st = ret st'"
    and o: "list_ex (\<lambda>e. case e of Ev_Open path flags fd \<Rightarrow> 2 < fd | _ \<Rightarrow> False) (trace st')"
    by (auto simp: running_iff)
  have at: "at_prompt ?OS st" by (rule at_prompt.start [OF s])
  then have at': "at_prompt ?OS st'" by (rule at_prompt.round [OF _ \<open>\<not> should_exit st\<close> r])
  have f: "fresh_fds ?OS" and g: "grants ?OS"
    using sample_os_fresh by (auto simp: typing_os_def fresh_fds_def grants_def sample_os_def)
  have "length (words ''a > f | b < g | < c'' ''&'') \<le> 2" by code_simp
  then have l: "os_readline ?OS h p = Some l \<Longrightarrow> length (words l ''&'') \<le> 2" for h p l
    by (simp add: typing_os_def)
  have "\<exists>path flags fd. Ev_Open path flags fd \<in> set (trace st') \<and> 2 < fd"
  proof -
    obtain e where e: "e \<in> set (trace st')" "case e of Ev_Open path flags fd \<Rightarrow> 2 < fd | _ \<Rightarrow> False"
      using o unfolding list_ex_iff by blast
    obtain path flags fd where "e = Ev_Open path flags fd" "2 < fd" using e(2) by (cases e) simp_all
    then show ?thesis using e(1) by blast
  qed
  moreover have "open_fds (trace st') = [] \<and> calls_of st' = (\<lambda>_. None)"
    by (rule session_leaves_nothing [OF f g _ at']) (rule l)
  ultimately show ?thesis using at r by blast
qed

end
