(* ===== verification/Job_Processes.thy ===== *)
theory Job_Processes
  imports Session Observation
begin

text \<open>
  The processes of a job: one for each external call of its command, in the order of the
  calls, all in the group of the first; a built-in that runs in the shell leaves a null
  pointer in its place, which \<^verbatim>\<open>jobs -t\<close> dereferences.
\<close>

section \<open>The processes that have been created\<close>

fun forks :: "history \<Rightarrow> pid list" where
  "forks [] = []"
| "forks (e # h) = (case e of Ev_Fork p \<Rightarrow> forks h @ [p] | _ \<Rightarrow> forks h)"

definition children :: "shell \<Rightarrow> pid list" where
  "children st = forks (trace st)"

interpretation processes: trace_observer children "\<lambda>fd x. x" "\<lambda>fd x. x"
proof
  fix e :: event and st :: shell
  show "quiet e \<Longrightarrow> children (record_event e st) = children st"
    by (cases e) (simp_all add: children_def record_event_def)
qed (simp_all add: children_def record_event_def)

lemma forks_append: "forks (g @ h) = forks h @ forks g"
  by (induction g) (auto split: event.split)

lemma forks_parent_script: "forks (rev (parent_script p1 p2 pg v)) = []"
  by (simp add: parent_script_def forks_append)

section \<open>Calls\<close>

text \<open>What stands for a call among the processes of a job.\<close>

definition process_of :: "command_call \<Rightarrow> subjob option \<Rightarrow> bool" where
  "process_of c s \<longleftrightarrow>
     (if is_internal_command c then s = None else \<exists>p. s = Some (new_subjob c p RUNNING))"

definition pids :: "subjob option list \<Rightarrow> pid list" where
  "pids subjobs = map sj_pid (List.map_filter id subjobs)"

lemma pids_simps [simp]:
  "pids [] = []" "pids (None # ss) = pids ss" "pids (Some s # ss) = sj_pid s # pids ss"
  "pids (xs @ ys) = pids xs @ pids ys"
  by (simp_all add: pids_def List.map_filter_def)

definition group_of :: "pid \<Rightarrow> pid list \<Rightarrow> pid" where
  "group_of pgid ps = (if pgid \<noteq> 0 then pgid else case ps of [] \<Rightarrow> 0 | p # _ \<Rightarrow> p)"

lemma single_command_process:
  assumes "\<And>h. os_fork OS h \<noteq> UNINITIALIZED_PID"
    and run: "execute_single_command OS cmd call j st = ret (Some info, j', st')"
  shows "j' = j\<lparr>job_pgid := group_of (job_pgid j) (if is_internal_command call then [] else [ie_pid info])\<rparr>"
    and "children st' = children st @ (if is_internal_command call then [] else [ie_pid info])"
    and "is_internal_command call \<longleftrightarrow> ie_pid info = UNINITIALIZED_PID"
    and "ie_pid info \<noteq> 0"
proof -
  have "j' = j \<and> children st' = children st \<and> ie_pid info = UNINITIALIZED_PID \<and> ie_pid info \<noteq> 0" if i: "is_internal_command call"
  proof -
    obtain n where "execute_internal_command OS call st = Inr (n, st')" and "j' = j"
      and "info = new_internal_exit_info UNINITIALIZED_PID n"
      using run i by (cases "execute_internal_command OS call st") (auto simp: execute_single_command_def)
    then show ?thesis using processes.seen_internal by (simp add: new_internal_exit_info_def)
  qed
  moreover have "j' = j\<lparr>job_pgid := group_of (job_pgid j) [ie_pid info]\<rparr> \<and>
      children st' = children st @ [ie_pid info] \<and> ie_pid info \<noteq> UNINITIALIZED_PID \<and> ie_pid info \<noteq> 0"
    if e: "\<not> is_internal_command call"
  proof -
    obtain p p1 p2 v where c: "p \<noteq> 0" "p \<noteq> UNINITIALIZED_PID" "info = new_internal_exit_info p UNINITIALIZED_EXIT_CODE"
      "j' = j\<lparr>job_pgid := (if job_pgid j = 0 then p else job_pgid j)\<rparr>"
      and t: "trace st' = rev (parent_script p1 p2 (job_pgid j') v) @
        [Ev_Fork p, Ev_Pipe (Some p2), Ev_Pipe (Some p1)] @ trace st"
      using started_call [OF run e] assms(1) by fastforce
    show ?thesis
      using c t by (simp add: new_internal_exit_info_def group_of_def children_def forks_append forks_parent_script)
  qed
  ultimately show "j' = j\<lparr>job_pgid := group_of (job_pgid j) (if is_internal_command call then [] else [ie_pid info])\<rparr>"
    "children st' = children st @ (if is_internal_command call then [] else [ie_pid info])"
    "is_internal_command call \<longleftrightarrow> ie_pid info = UNINITIALIZED_PID" "ie_pid info \<noteq> 0"
    by (cases "is_internal_command call"; simp add: group_of_def)+
qed


text \<open>
  The loop over the calls: \<open>ss\<close> are the processes that it has put into the job, in the places
  from \<open>i\<close> on.
\<close>

lemma execute_calls_processes:
  assumes fork: "\<And>h. os_fork OS h \<noteq> UNINITIALIZED_PID"
  shows "session_inv st \<Longrightarrow> \<forall>a \<in> set calls. live st a \<and> knows_pipes cmd (the_call st a) \<Longrightarrow>
     job_subjobs j = before @ replicate (length calls) None \<Longrightarrow> i = length before \<Longrightarrow>
     execute_calls OS cmd i calls info j st = ret (Some info', j', st') \<Longrightarrow>
     \<exists>ss. list_all2 process_of (map (the_call st) calls) ss \<and>
       j' = j\<lparr>job_subjobs := before @ ss, job_pgid := group_of (job_pgid j) (pids ss)\<rparr> \<and>
       children st' = children st @ pids ss"
proof (induction calls arbitrary: i info j before st)
  case Nil
  then show ?case by (simp add: group_of_def)
next
  case (Cons a calls)
  define c where "c = the_call st a"
  have read: "read_call a st = Inr c" and kp: "knows_pipes cmd c"
    using Cons.prems(2) by (simp_all add: read_call_live c_def)
  obtain info1 j1 st1 where s: "execute_single_command OS cmd c j st = ret (Some info1, j1, st1)"
    and r: "execute_calls OS cmd (i + 1) calls
      (if i = 0 then Some (new_internal_exit_info (ie_pid info1) (ie_exit_code info1)) else info)
      (if ie_pid info1 \<noteq> UNINITIALIZED_PID
       then j1\<lparr>job_subjobs := (job_subjobs j1)[i := Some (new_subjob c (ie_pid info1) RUNNING)]\<rparr> else j1) st1
      = ret (Some info', j', st')"
    using Cons.prems(5) read by (auto simp: bindP_eq_Running Let_def split: option.splits)
  note p = single_command_process [OF fork s]
  define s1 where "s1 = (if is_internal_command c then None else Some (new_subjob c (ie_pid info1) RUNNING))"
  define ps1 where "ps1 = (if is_internal_command c then [] else [ie_pid info1])"
  define j2 where "j2 = j\<lparr>job_subjobs := before @ s1 # replicate (length calls) None,
                           job_pgid := group_of (job_pgid j) ps1\<rparr>"
  have k: "keeps st st1" using yieldsP_InrD [OF good_single [OF Cons.prems(1) kp] s] by (simp add: good_info_def)
  then have heap: "the_call st1 = the_call st" "live st1 = live st"
    by (simp_all add: keeps_def the_call_def live_iff fun_eq_iff)
  have "(if ie_pid info1 \<noteq> UNINITIALIZED_PID
       then j1\<lparr>job_subjobs := (job_subjobs j1)[i := Some (new_subjob c (ie_pid info1) RUNNING)]\<rparr> else j1) = j2"
    using p Cons.prems(3,4) by (auto simp: j2_def s1_def ps1_def)
  then obtain ss where ss: "list_all2 process_of (map (the_call st) calls) ss"
    "j' = j2\<lparr>job_subjobs := (before @ [s1]) @ ss, job_pgid := group_of (job_pgid j2) (pids ss)\<rparr>"
    "children st' = children st1 @ pids ss"
    using Cons.IH [OF keeps_inv [OF k Cons.prems(1)], of j2 "before @ [s1]"] r Cons.prems(2,4) heap
    by (auto simp: j2_def)
  have ps: "pids [s1] = ps1" "process_of c s1" by (simp_all add: s1_def ps1_def process_of_def new_subjob_def)
  have "group_of (group_of (job_pgid j) ps1) (pids ss) = group_of (job_pgid j) (ps1 @ pids ss)"
    using p(4) by (simp add: group_of_def ps1_def)
  moreover have "pids (s1 # ss) = ps1 @ pids ss" using ps(1) pids_simps(4) [of "[s1]" ss] by simp
  ultimately show ?case
    using ss p(2) ps(2) by (intro exI [of _ "s1 # ss"]) (simp add: c_def [symmetric] j2_def ps1_def)
qed

section \<open>The tree of a job\<close>

lemma print_job_tree_loop_null:
  "None \<in> set subjobs \<Longrightarrow> print_job_tree_loop OS j fd index subjobs st \<noteq> Inr st'"
  by (induction subjobs arbitrary: index st) (auto simp: Let_def elim!: bindU_InrE split: option.splits if_split_asm)

lemma print_job_tree_loop_walks:
  "None \<notin> set subjobs \<Longrightarrow> yields walk_faults (print_job_tree_loop OS j fd index subjobs st) (\<lambda>_. True)"
proof (induction subjobs arbitrary: index st)
  case (Cons s subjobs)
  then obtain t where t: "s = Some t" by (cases s) auto
  show ?case
    unfolding t print_job_tree_loop.simps Let_def option.case
    by (rule yields_bind [OF keeps_print_children]) (use Cons in simp)
qed simp

definition null_process :: "job option \<Rightarrow> bool" where
  "null_process slot \<longleftrightarrow> (\<exists>j. slot = Some j \<and> None \<in> set (job_subjobs j))"

lemma print_jobs_null:
  "print_jobs OS True fd slots st = Inr st' \<Longrightarrow> slot \<in> set slots \<Longrightarrow> \<not> null_process slot"
proof (induction slots arbitrary: st)
  case (Cons s slots)
  show ?case
  proof (cases s)
    case None
    then show ?thesis using Cons by (auto simp: null_process_def)
  next
    case (Some j)
    obtain st1 where p: "print_job_tree OS j fd st = Inr st1" and r: "print_jobs OS True fd slots st1 = Inr st'"
      using Cons.prems(1) Some by (auto elim!: bindU_InrE)
    have "\<not> null_process s"
      using p print_job_tree_loop_null by (auto simp: print_job_tree_def null_process_def Some)
    then show ?thesis using Cons.IH [OF r] Cons.prems(2) by auto
  qed
qed simp

lemma print_jobs_walks:
  "\<forall>slot \<in> set slots. \<not> null_process slot \<Longrightarrow> yields walk_faults (print_jobs OS True fd slots st) (\<lambda>_. True)"
proof (induction slots arbitrary: st)
  case (Cons s slots)
  show ?case
  proof (cases s)
    case None
    then show ?thesis using Cons by simp
  next
    case (Some j)
    have "yields walk_faults (print_job_tree OS j fd st) (\<lambda>_. True)"
      using Cons.prems print_job_tree_loop_walks by (auto simp: print_job_tree_def null_process_def Some)
    then show ?thesis unfolding Some using Cons by (auto intro: yields_bind)
  qed
qed simp

section \<open>Properties\<close>

text \<open>
  C14. The job of a command has one process for each external call, in the order of the calls,
  with the text of the call, and a null pointer for each built-in, which runs in the shell;
  these processes are exactly the ones created for it, and the group of the job is the first.
\<close>

theorem job_processes:
  assumes "\<And>h. os_fork OS h \<noteq> UNINITIALIZED_PID"
    and "table_wf st0" and "0 \<le> last_exit_code st0" and "last_exit_code st0 \<le> 255"
    and p: "parse_command OS s st0 = Inr (Some cmd, st)"
    and run: "execute_as_job OS cmd (setup_job cmd) st = ret (Some info, j, st')"
  shows "\<exists>cs. map (\<lambda>a. read_call a st) (cmd_calls cmd) = map Inr cs \<and> length (job_subjobs j) = length cs \<and>
     (\<forall>i < length cs. if is_internal_command (cs ! i) then job_subjobs j ! i = None
                      else \<exists>p. job_subjobs j ! i = Some (new_subjob (cs ! i) p RUNNING)) \<and>
     forks (trace st') = forks (trace st) @ pids (job_subjobs j) \<and>
     job_pgid j = (case pids (job_subjobs j) of [] \<Rightarrow> 0 | p # _ \<Rightarrow> p)"
proof -
  have tree: "command_tree st cmd" and "parser_only st0 st" using yields_InrD [OF parse_command_tree p] by simp_all
  then have inv: "session_inv st"
    using assms(2-4) by (auto simp: parser_only_iff session_inv_def table_wf_def exit_status_def)
  have calls: "\<forall>a \<in> set (cmd_calls cmd). live st a \<and> knows_pipes cmd (the_call st a)"
    using tree command_tree_knows_pipes [OF tree] by (auto simp: command_tree_def)
  let ?cs = "map (the_call st) (cmd_calls cmd)"
  obtain ss where ss: "list_all2 process_of ?cs ss" "job_subjobs j = ss" "job_pgid j = group_of 0 (pids ss)"
    "children st' = children st @ pids ss"
    using execute_calls_processes [OF assms(1) inv calls, of "setup_job cmd" "[]" 0 None] run
    by (auto simp: execute_as_job_def setup_job_def new_job_def)
  have "map (\<lambda>a. read_call a st) (cmd_calls cmd) = map Inr ?cs" using calls by (simp add: read_call_live)
  moreover have "\<forall>i < length ?cs. process_of (?cs ! i) (ss ! i)" "length ss = length ?cs"
    using ss(1) by (auto simp: list_all2_conv_all_nth)
  ultimately show ?thesis
    using ss(2-4) by (intro exI [of _ ?cs]) (auto simp: process_of_def children_def group_of_def split: list.split)
qed

text \<open>A kernel on which every process goes on running.\<close>

definition busy_os :: os where
  "busy_os = sample_os\<lparr>os_waitpid := (\<lambda>h p options. (0, 0)), os_fork := (\<lambda>h. 7)\<rparr>"

lemma job_processes_witness:
  "\<exists>cmd st info j st'. parse_command busy_os ''pwd | sleep'' two_jobs = Inr (Some cmd, st) \<and>
     execute_as_job busy_os cmd (setup_job cmd) st = ret (Some info, j, st') \<and>
     forks (trace st') = pids (job_subjobs j) \<and> length (job_subjobs j) = 2 \<and> length (pids (job_subjobs j)) = 1"
proof -
  let ?p = "parse_command busy_os ''pwd | sleep'' two_jobs"
  have "case ?p of Inr (Some cmd, st) \<Rightarrow> forks (trace st) = [] \<and>
      (case execute_as_job busy_os cmd (setup_job cmd) st of Inr (Running (Some info, j, st')) \<Rightarrow>
         length (job_subjobs j) = 2 \<and> length (pids (job_subjobs j)) = 1 | _ \<Rightarrow> False) | _ \<Rightarrow> False"
    by code_simp
  then obtain cmd st where p: "?p = Inr (Some cmd, st)" and "forks (trace st) = [] \<and>
      (case execute_as_job busy_os cmd (setup_job cmd) st of Inr (Running (Some info, j, st')) \<Rightarrow>
         length (job_subjobs j) = 2 \<and> length (pids (job_subjobs j)) = 1 | _ \<Rightarrow> False)"
    by (rule some_resultE)
  then obtain info j st' where "forks (trace st) = []" and r: "execute_as_job busy_os cmd (setup_job cmd) st = ret (Some info, j, st')"
    "length (job_subjobs j) = 2" "length (pids (job_subjobs j)) = 1"
    by (auto split: sum.splits run.splits option.splits)
  have "os_fork busy_os h \<noteq> UNINITIALIZED_PID" for h by (simp add: busy_os_def sample_os_def)
  moreover have "0 \<le> last_exit_code two_jobs" "last_exit_code two_jobs \<le> 255"
    by (simp_all add: two_jobs_def initial_shell_def)
  ultimately show ?thesis using job_processes [OF _ two_jobs_wf _ _ p r(1)] \<open>forks (trace st) = []\<close> p r by auto
qed

text \<open>
  C26. \<^verbatim>\<open>jobs -t\<close> does not come back when a job that it is to print has a built-in among its
  calls (\<^verbatim>\<open>print_job_tree\<close> dereferences the null pointer in its place), and it dereferences no
  null pointer otherwise.
\<close>

theorem jobs_tree_null_process:
  fixes OS :: os and call :: command_call and st :: shell
  assumes "cc_argc call = 2" and "cc_argv call = [''jobs'', ''-t'']"
  defines "slots \<equiv> job_table (fd_update_jobs OS (cc_stdout call) st)"
  shows "if \<exists>j. Some j \<in> set slots \<and> None \<in> set (job_subjobs j)
         then \<forall>r. jobs_command OS call st \<noteq> Inr r
         else jobs_command OS call st \<noteq> Inl Null_Deref"
proof -
  have run: "jobs_command OS call st =
      bindU (print_jobs OS True (cc_stdout call) slots (fd_update_jobs OS (cc_stdout call) st)) (\<lambda>st. Inr (0, st))"
    using assms(1,2) by (simp add: jobs_command_def slots_def Let_def)
  show ?thesis
  proof (cases "\<exists>j. Some j \<in> set slots \<and> None \<in> set (job_subjobs j)")
    case True
    then have "print_jobs OS True (cc_stdout call) slots st1 \<noteq> Inr st2" for st1 st2
      using print_jobs_null by (fastforce simp: null_process_def)
    then show ?thesis using True by (auto simp: run elim!: bindU_InrE)
  next
    case False
    then have "\<forall>slot \<in> set slots. \<not> null_process slot" by (auto simp: null_process_def)
    then have "yields walk_faults (print_jobs OS True (cc_stdout call) slots (fd_update_jobs OS (cc_stdout call) st)) (\<lambda>_. True)"
      by (rule print_jobs_walks)
    then have "yields walk_faults (jobs_command OS call st) (\<lambda>_. True)" unfolding run by (auto intro: yields_bind)
    then show ?thesis using False by (cases "jobs_command OS call st") auto
  qed
qed

definition jobs_call :: command_call where
  "jobs_call = new_command_call 2 [''jobs'', ''-t''] ''jobs -t''"

lemma jobs_tree_null_process_witness:
  "\<exists>cs st1 st2. parse_read_line busy_os ''pwd | sleep &'' two_jobs = Inr (Some cs, st1) \<and>
     execute_commands busy_os cs st1 = ret st2 \<and> jobs_command busy_os jobs_call st2 = Inl Null_Deref"
proof -
  let ?bad = "\<lambda>st2. list_ex (\<lambda>s. case s of None \<Rightarrow> False | Some j \<Rightarrow> list_ex (\<lambda>s. s = None) (job_subjobs j))
         (job_table (fd_update_jobs busy_os (cc_stdout jobs_call) st2)) \<and>
       (case jobs_command busy_os jobs_call st2 of Inl u \<Rightarrow> u = Null_Deref | _ \<Rightarrow> False)"
  let ?p = "parse_read_line busy_os ''pwd | sleep &'' two_jobs"
  have "case ?p of Inr (Some cs, st1) \<Rightarrow>
      (case execute_commands busy_os cs st1 of Inr (Running st2) \<Rightarrow> ?bad st2 | _ \<Rightarrow> False) | _ \<Rightarrow> False"
    by code_simp
  then obtain cs st1 where p: "?p = Inr (Some cs, st1)"
    and "case execute_commands busy_os cs st1 of Inr (Running st2) \<Rightarrow> ?bad st2 | _ \<Rightarrow> False"
    by (rule some_resultE)
  then obtain st2 where x: "execute_commands busy_os cs st1 = ret st2" and bad: "?bad st2" by (auto simp: running_iff)
  then have "\<exists>j. Some j \<in> set (job_table (fd_update_jobs busy_os (cc_stdout jobs_call) st2)) \<and> None \<in> set (job_subjobs j)"
    by (fastforce simp: list_ex_iff split: option.splits)
  moreover have "cc_argc jobs_call = 2" "cc_argv jobs_call = [''jobs'', ''-t'']"
    by (simp_all add: jobs_call_def new_command_call_def)
  ultimately have "\<forall>r. jobs_command busy_os jobs_call st2 \<noteq> Inr r"
    using jobs_tree_null_process [of jobs_call busy_os st2] by simp
  then show ?thesis using p x bad by (auto split: sum.splits)
qed

end
