(* ===== verification/Call_Types.thy ===== *)
theory Call_Types
  imports Descriptors
begin

text \<open>
  What the parser puts into a call: a non-empty \<^verbatim>\<open>argv\<close> with the right count and name, whose
  words are words of the line and no symbols of the command language, or names of the
  form \<^verbatim>\<open>/dev/fd/n\<close> for the reading end of a substitution.
\<close>

section \<open>Typed calls\<close>

definition is_argument :: "string list \<Rightarrow> string \<Rightarrow> bool" where
  "is_argument ws w \<longleftrightarrow>
     w \<in> set ws \<and> w \<notin> set redirection_caret_symbols \<or> (\<exists>n. w = ''/dev/fd/'' @ show_int n)"

definition typed :: "string list \<Rightarrow> command_call \<Rightarrow> bool" where
  "typed ws c \<longleftrightarrow> cc_argv c \<noteq> [] \<and> cc_argc c = length (cc_argv c) \<and> cc_name c = hd (cc_argv c) \<and>
     (\<forall>w \<in> set (cc_argv c). is_argument ws w)"

text \<open>All live calls from address \<open>A\<close> on are typed.\<close>

definition typed_from :: "addr \<Rightarrow> string list \<Rightarrow> shell \<Rightarrow> bool" where
  "typed_from A ws st \<longleftrightarrow> (\<forall>a c. A \<le> a \<longrightarrow> calls_of st a = Some c \<longrightarrow> typed ws c)"

lemma typed_from_heap: "call_heap st' = call_heap st \<Longrightarrow> typed_from A ws st' = typed_from A ws st"
  by (simp add: typed_from_def calls_of_def)

lemma typed_from_same_globals: "same_globals st st' \<Longrightarrow> typed_from A ws st' = typed_from A ws st"
  by (rule typed_from_heap) (auto simp: same_globals_iff)

lemma typed_from_alloc: "typed_from A ws st \<Longrightarrow> typed ws c \<Longrightarrow> typed_from A ws (snd (alloc_call c st))"
  by (simp add: typed_from_def calls.alloc_contents)

lemma typed_from_update:
  assumes "typed_from A ws st" and u: "update_call a f st = Inr st'"
    and "\<And>c. cc_argv (f c) = cc_argv c \<and> cc_argc (f c) = cc_argc c \<and> cc_name (f c) = cc_name c"
  shows "typed_from A ws st'"
  using assms(1,3) unfolding typed_from_def calls.update_live [OF u] typed_def by auto

section \<open>The steps of the parser\<close>

lemma finish_call_typed:
  assumes "finish_call inside inpipe s args b cmd st = Inr (Some a, cmd', st')"
    and "typed_from A ws st" and "args \<noteq> []" and "\<forall>w \<in> set args. is_argument ws w"
  shows "typed_from A ws st'"
proof -
  obtain t where t: "sanitize_command_string (Some s) = Inr (Some t)"
    using assms(1) by (auto simp: finish_call_def bindU_def split: if_splits sum.splits option.splits)
  define c where "c = built_call b args (remove_extra_pipes t)"
  have "typed ws c"
    using assms(3,4) by (auto simp: typed_def c_def built_call_def new_command_call_def split: list.splits)
  moreover have "call_heap st' = call_heap (snd (alloc_call c st))"
    using assms(1) t
    by (auto simp: finish_call_def build_command_built c_def alloc_call_def Let_def split: if_split_asm)
  ultimately show ?thesis using typed_from_alloc [OF assms(2)] typed_from_heap by blast
qed

lemma link_pipelines_typed:
  assumes "link_pipelines OS cmd b a st = Inr (status, cmd', b', st')" and "status \<noteq> -1" and "typed_from A ws st"
  shows "typed_from A ws st'"
proof -
  obtain p st1 where p: "sys_pipe OS st = (p, st1)" by fastforce
  then have "typed_from A ws st1"
    using assms(3) typed_from_heap [of st1 st] by (auto simp: sys_defs)
  then show ?thesis
    using assms(1,2) by (auto simp: link_pipelines_def p Let_def elim!: bindU_InrE typed_from_update split: option.splits)
qed

lemma finish_substitution_typed:
  assumes "finish_substitution b i pos p call cmd st = Inr (Some (j, dev), b', cmd', st')" and "typed_from A ws st"
  shows "typed_from A ws st' \<and> (\<exists>n. dev = ''/dev/fd/'' @ show_int n)"
proof -
  obtain l st1 b1 st2 where u: "update_call l (\<lambda>c. c\<lparr>cc_stdout := snd p\<rparr>) st = Inr st1"
      "update_dependencies b l pos st1 = Inr (b1, st2)"
    and d: "dev = ''/dev/fd/'' @ show_int (fst p)" and st': "call_heap st' = call_heap st2"
    using assms(1)
    by (auto simp: finish_substitution_def Let_def elim!: bindU_InrE split: option.splits if_split_asm)
  have "typed_from A ws st1" by (rule typed_from_update [OF assms(2) u(1)]) simp
  then have "typed_from A ws st2"
    using u(2) by (auto simp: update_dependencies_def elim!: bindU_InrE typed_from_update)
  then show ?thesis using d typed_from_heap [OF st'] by auto
qed

section \<open>The induction over the parser\<close>

lemma parse_typed:
  "typed_from A ws st \<Longrightarrow> set (words s '' '') \<subseteq> set ws \<Longrightarrow>
     parse_command_call OS cmd s inside inpipe st = Inr (Some a, cmd', st') \<Longrightarrow> typed_from A ws st'"
  "typed_from A ws st \<Longrightarrow> are_words ts \<Longrightarrow> set ts \<subseteq> set ws \<Longrightarrow> (args = [] \<longleftrightarrow> index = 0) \<Longrightarrow>
     \<forall>w \<in> set args. is_argument ws w \<Longrightarrow>
     parse_tokens OS inside index args ts b cmd st = Inr (True, args', b', cmd', st') \<Longrightarrow>
     typed_from A ws st' \<and> (args' = [] \<longleftrightarrow> args = [] \<and> ts = []) \<and> (\<forall>w \<in> set args'. is_argument ws w)"
  "typed_from A ws st \<Longrightarrow> are_words ts \<Longrightarrow> set ts \<subseteq> set ws \<Longrightarrow>
     parse_command_substitution OS cmd b ts st = Inr (Some (j, dev), b', cmd', st') \<Longrightarrow>
     typed_from A ws st' \<and> (\<exists>n. dev = ''/dev/fd/'' @ show_int n)"
proof (induction OS cmd s inside inpipe st and OS inside index args ts b cmd st and OS cmd b ts st
    arbitrary: a cmd' st' and args' b' cmd' st' and j dev b' cmd' st'
    rule: parse_command_call_parse_tokens_parse_command_substitution.induct)
  case (1 OS cmd s inside inpipe st)
  obtain tokens where t: "split_string s '' '' = Inr (Some tokens)"
    using "1.prems"(3) by (auto simp: parse_command_call.simps bindU_def split: sum.splits option.splits)
  obtain args b cmd1 st1
    where p: "parse_tokens OS inside 0 [] tokens new_command_call_builder cmd st = Inr (True, args, b, cmd1, st1)"
      and f: "finish_call inside inpipe s args b cmd1 st1 = Inr (Some a, cmd', st')"
    using "1.prems"(3) t by (auto simp: parse_command_call.simps elim!: bindU_InrE split: if_splits)
  note w = split_word [OF t]
  have "are_words tokens" using words_single_mem w(1) by (auto simp: are_words_def)
  then have "typed_from A ws st1 \<and> (args = [] \<longleftrightarrow> tokens = []) \<and> (\<forall>w \<in> set args. is_argument ws w)"
    using "1.IH" [OF t refl "1.prems"(1) _ _ _ _ p] "1.prems"(2) w(1) by simp
  then show ?case using finish_call_typed [OF f] w(2) by blast
next
  case (2 OS inside index args b cmd st)
  then show ?case by (simp add: parse_tokens.simps)
next
  case (3 OS inside index args t rest b cmd st)
  note T = "3.prems"(1) and aw = "3.prems"(2) and sub = "3.prems"(3) and ix = "3.prems"(4) and ok = "3.prems"(5)
  note run = "3.prems"(6)
  have rw: "are_words rest" and rs: "set rest \<subseteq> set ws"
    using are_words_mono [OF aw, of rest] sub by auto
  show ?case
  proof (cases "contains_string redirection_caret_symbols t")
    case False
    then have "is_argument ws t" using sub by (simp add: is_argument_def)
    then show ?thesis
      using "3.IH"(1) [OF _ T rw rs] run ok False by (auto simp: parse_tokens.simps)
  next
    case sym: True
    have rest: "\<not> (rest = [] \<or> index = 0)" and hd: "\<not> contains_string redirection_caret_symbols (hd rest)"
      using run sym by (auto simp: parse_tokens.simps split: if_splits)
    have nsym: "\<not> \<not> contains_string redirection_caret_symbols t" using sym by simp
    note eqs = parse_tokens_symbol [OF sym rest hd]
    have args: "args \<noteq> []" using ix rest by simp
    consider (subst) "t = ''<(''" | (pipe) "t \<noteq> ''<(''" "t = ''|''" | (redir) "t \<noteq> ''<(''" "t \<noteq> ''|''" by blast
    then show ?thesis
    proof cases
      case subst
      obtain i dev b1 cmd1 st1
        where p: "parse_command_substitution OS cmd b rest st = Inr (Some (i, dev), b1, cmd1, st1)"
          and r: "parse_tokens OS inside (index + i + 2) (args @ [dev]) (drop (i + 1) rest) b1 cmd1 st1 =
            Inr (True, args', b', cmd', st')"
        using run unfolding eqs(1) [OF subst] by (auto elim!: bindU_InrE split: option.splits)
      note P = "3.IH"(2) [OF nsym rest hd subst T rw rs p]
      have dw: "are_words (drop (i + 1) rest)" "set (drop (i + 1) rest) \<subseteq> set ws"
        using are_words_mono [OF rw, of "drop (i + 1) rest"] set_drop_subset [of "i + 1" rest] rs by auto
      show ?thesis
        using "3.IH"(3) [OF nsym rest hd subst p refl refl refl refl refl _ dw _ _ r] P ok
        by (auto simp: is_argument_def)
    next
      case pipe
      have un: "b_fds b ! 1 = -1" using run sym rest hd pipe by (auto simp: parse_tokens.simps split: if_splits)
      then have nun: "\<not> b_fds b ! 1 \<noteq> -1" by simp
      obtain joined where j: "join_strings rest '' '' = Inr joined" by (simp add: join_strings_intercalate)
      obtain a cmd1 st1 status cmd2
        where p: "parse_command_call OS cmd (cstr_text joined) inside True st = Inr (Some a, cmd1, st1)"
          and l: "link_pipelines OS cmd1 b a st1 = Inr (status, cmd2, b', st')" "status \<noteq> -1"
          and a: "args' = args"
        using run unfolding eqs(2) [OF pipe(2) un j]
        by (auto elim!: bindU_InrE split: option.splits if_splits)
      have "typed_from A ws st1" using "3.IH"(4) [OF nsym rest hd pipe nun j T _ p] words_join [OF rw j] rs by simp
      then show ?thesis using link_pipelines_typed [OF l] args ok a by simp
    next
      case redir
      obtain status fds1 st1 where pr: "parse_redirections OS (b_fds b) t (hd rest) st = (status, fds1, st1)"
        by (metis prod_cases3)
      have s: "\<not> status < 0"
        and r: "parse_tokens OS inside (index + 2) args (tl rest) (b\<lparr>b_fds := fds1\<rparr>) cmd st1 = Inr (True, args', b', cmd', st')"
        using run unfolding eqs(3) [OF redir pr] by (auto split: if_splits)
      have T1: "typed_from A ws st1"
        using typed_from_same_globals [OF conjunct2 [OF parse_redirections_frame [OF pr]]] T by blast
      have tw: "are_words (tl rest)" "set (tl rest) \<subseteq> set ws"
        using are_words_mono [OF rw, of "tl rest"] set_drop_subset [of 1 rest] rs by (auto simp: drop_Suc)
      show ?thesis
        using "3.IH"(5) [OF nsym rest hd redir pr [symmetric] refl refl refl s T1 tw _ ok r] args by auto
    qed
  qed
next
  case (4 OS cmd b ts st)
  define st0 where "st0 = st\<lparr>last_parsed_command_call_substitution := None\<rparr>"
  obtain i n where sc: "scan_substitution ts 0 0 = (i, n)" by fastforce
  have i: "\<not> (i = length ts \<or> n \<noteq> 0)"
    using "4.prems"(4) sc by (auto simp: parse_command_substitution.simps Let_def split: if_splits)
  obtain q st1 where p: "sys_pipe OS st0 = (Some q, st1)"
    using "4.prems"(4) sc i by (auto simp: parse_command_substitution.simps st0_def Let_def split: prod.splits option.splits)
  obtain joined where jn: "join_strings (take i ts) '' '' = Inr joined" by (simp add: join_strings_intercalate)
  obtain call cmd1 st2
    where c: "parse_command_call OS (add_pipe cmd q) (cstr_text joined) True False st1 = Inr (call, cmd1, st2)"
      and f: "finish_substitution b i (open_pipes_size cmd) q call cmd1 st2 = Inr (Some (j, dev), b', cmd', st')"
    using "4.prems"(4) sc i p [unfolded st0_def] jn
    by (auto simp: parse_command_substitution.simps Let_def elim!: bindU_InrE split: if_splits)
  obtain a where a: "call = Some a"
    using f by (cases call) (auto simp: finish_substitution_def split: option.splits)
  have "call_heap st1 = call_heap st" using p by (auto simp: st0_def sys_defs)
  then have T1: "typed_from A ws st1" using "4.prems"(1) typed_from_heap by blast
  have tw: "are_words (take i ts)" "set (take i ts) \<subseteq> set ws"
    using are_words_mono [OF "4.prems"(2), of "take i ts"] set_take_subset [of i ts] "4.prems"(3) by auto
  have "typed_from A ws st2"
    using "4.IH" [OF st0_def refl sc [symmetric] i refl p [symmetric] refl refl refl jn T1 _ c [unfolded a]]
      words_join [OF tw(1) jn] tw(2) by simp
  then show ?case by (rule finish_substitution_typed [OF f])
qed

section \<open>Properties\<close>

text \<open>
  C16. Every call of a parsed command is well-formed: its \<^verbatim>\<open>argv\<close> is not empty, \<^verbatim>\<open>argc\<close> is its
  length and \<^verbatim>\<open>name\<close> its first word, and each of its words is a word of the line that is no symbol
  of the command language, or the name of a reading end of a substitution.
\<close>

theorem parse_command_typed:
  assumes "parse_command OS s st = Inr (Some cmd, st')"
  shows "\<forall>a \<in> set (cmd_calls cmd). \<exists>c. read_call a st' = Inr c \<and>
     cc_argv c \<noteq> [] \<and> cc_argc c = length (cc_argv c) \<and> cc_name c = hd (cc_argv c) \<and>
     (\<forall>w \<in> set (cc_argv c). w \<in> set (words s '' '') \<and> w \<notin> set redirection_caret_symbols \<or>
        (\<exists>n. w = ''/dev/fd/'' @ show_int n))"
proof
  fix a assume "a \<in> set (cmd_calls cmd)"
  moreover have tree: "command_tree st' cmd" and c: "mset (cmd_calls cmd) = mset (fresh st st')"
    using yields_InrD [OF parse_command_tree assms] by simp_all
  ultimately have "live st' a" and "a \<in> set (fresh st st')"
    using mset_eq_setD [OF c] by (auto simp: command_tree_def)
  then obtain c where c: "read_call a st' = Inr c" "length (call_heap st) \<le> a"
    by (auto simp: live_def fresh_def)
  obtain t b cmd1 st1
    where p: "parse_command_call OS \<lparr>cmd_string = Some t, cmd_calls = [], cmd_background = False, cmd_open_pipes = []\<rparr>
             s False False (st\<lparr>last_parsed_command_call := None\<rparr>) = Inr (Some b, cmd1, st1)"
      and st': "st' = st1\<lparr>last_parsed_command_call := None\<rparr>"
    by (rule parse_command_run [OF assms])
  have "typed_from (length (call_heap st)) (words s '' '') (st\<lparr>last_parsed_command_call := None\<rparr>)"
    by (simp add: typed_from_def calls_of_def)
  then have "typed_from (length (call_heap st)) (words s '' '') st1" by (rule parse_typed(1) [OF _ subset_refl p])
  moreover have "call_heap st' = call_heap st1" by (simp add: st')
  ultimately have "typed_from (length (call_heap st)) (words s '' '') st'" using typed_from_heap by blast
  then have "typed (words s '' '') c" using c by (auto simp: typed_from_def read_call_iff)
  then show "\<exists>c. read_call a st' = Inr c \<and>
     cc_argv c \<noteq> [] \<and> cc_argc c = length (cc_argv c) \<and> cc_name c = hd (cc_argv c) \<and>
     (\<forall>w \<in> set (cc_argv c). w \<in> set (words s '' '') \<and> w \<notin> set redirection_caret_symbols \<or>
        (\<exists>n. w = ''/dev/fd/'' @ show_int n))"
    using c(1) by (auto simp: typed_def is_argument_def)
qed

lemma parse_command_typed_witness:
  "\<exists>cmd st' c. parse_command sample_os ''wc <( ls ) > f'' initial_shell = Inr (Some cmd, st') \<and>
     read_call (hd (cmd_calls cmd)) st' = Inr c \<and> cc_argc c = 2 \<and> cc_argc c = length (cc_argv c) \<and>
     cc_argv c ! 0 = ''wc'' \<and> cc_name c = ''wc''"
proof -
  let ?p = "parse_command sample_os ''wc <( ls ) > f'' initial_shell"
  have "case ?p of Inr (Some cmd, st') \<Rightarrow> cmd_calls cmd \<noteq> [] \<and>
      (case read_call (hd (cmd_calls cmd)) st' of Inr c \<Rightarrow> cc_argc c = 2 \<and> cc_argv c ! 0 = ''wc'' | _ \<Rightarrow> False) | _ \<Rightarrow> False"
    by code_simp
  then obtain cmd st' where p: "?p = Inr (Some cmd, st')" and "cmd_calls cmd \<noteq> [] \<and>
      (case read_call (hd (cmd_calls cmd)) st' of Inr c \<Rightarrow> cc_argc c = 2 \<and> cc_argv c ! 0 = ''wc'' | _ \<Rightarrow> False)"
    by (rule some_resultE)
  then obtain c where c: "hd (cmd_calls cmd) \<in> set (cmd_calls cmd)" "read_call (hd (cmd_calls cmd)) st' = Inr c"
    "cc_argc c = 2" "cc_argv c ! 0 = ''wc''"
    by (auto split: sum.splits)
  have "cc_argv c \<noteq> [] \<and> cc_argc c = length (cc_argv c) \<and> cc_name c = hd (cc_argv c)"
    using parse_command_typed [OF p] c(1,2) by auto
  then show ?thesis using p c(2-4) by (auto simp: hd_conv_nth)
qed

end
