(* ===== verification/Job_Store.thy ===== *)
theory Job_Store
  imports Jobs
begin

text \<open>
  The job table as an abstract data type: every sequence of the operations of \<^verbatim>\<open>jobs.c\<close> on it
  answers like a finite map from numbers to jobs that gives out the least free number. The slots,
  the growth of the array and the counter do not show.
\<close>

section \<open>The concrete and the abstract machine\<close>

text \<open>An operation on the table, with what it returns; \<open>Size_Op\<close> reads \<^verbatim>\<open>job_table_size\<close>.\<close>

datatype table_op = Add_Op job | Remove_Op nat | Size_Op

fun table_step :: "table_op \<Rightarrow> shell \<Rightarrow> int \<times> shell" where
  "table_step (Add_Op j) st = add_job (Some j) st"
| "table_step (Remove_Op n) st = remove_job n st"
| "table_step Size_Op st = (int (job_table_size st), st)"

fun spec_step :: "table_op \<Rightarrow> (nat \<rightharpoonup> job) \<Rightarrow> int \<times> (nat \<rightharpoonup> job)" where
  "spec_step (Add_Op j) m =
     (let n = LEAST n. 0 < n \<and> m n = None in (int n, m(n \<mapsto> j\<lparr>job_id := n\<rparr>)))"
| "spec_step (Remove_Op n) m = (if m n = None then 1 else 0, m(n := None))"
| "spec_step Size_Op m = (int (card (dom m)), m)"

fun run_steps :: "('op \<Rightarrow> 's \<Rightarrow> 'r \<times> 's) \<Rightarrow> 'op list \<Rightarrow> 's \<Rightarrow> 'r list \<times> 's" where
  "run_steps step [] s = ([], s)"
| "run_steps step (op # ops) s =
     (let (r, s) = step op s; (rs, s) = run_steps step ops s in (r # rs, s))"

section \<open>Simulation\<close>

text \<open>A step that simulates a step: so does a run.\<close>

lemma run_steps_simulation:
  assumes step: "\<And>op s. I s \<Longrightarrow> I (snd (conc op s)) \<and> spec op (\<alpha> s) = map_prod id \<alpha> (conc op s)"
  shows "I s \<Longrightarrow> I (snd (run_steps conc ops s)) \<and>
    run_steps spec ops (\<alpha> s) = map_prod id \<alpha> (run_steps conc ops s)"
proof (induction ops arbitrary: s)
  case (Cons op ops)
  obtain r s1 where c: "conc op s = (r, s1)" by fastforce
  obtain rs s2 where cs: "run_steps conc ops s1 = (rs, s2)" by fastforce
  show ?case using step [OF Cons.prems, of op] Cons.IH [of s1] c cs by simp
qed simp

text \<open>The counter is the number of jobs.\<close>

lemma job_table_size_card: "table_wf st \<Longrightarrow> job_table_size st = card (dom (jobs_of st))"
proof -
  let ?I = "{i. i < job_table_capacity st \<and> job_table st ! i \<noteq> None}"
  assume "table_wf st"
  then have "job_table_size st = card ?I" by (simp add: table_wf_def occupied_def length_filter_conv_card)
  also have "\<dots> = card (Suc ` ?I)" by (simp add: card_image)
  also have "Suc ` ?I = dom (jobs_of st)"
  proof
    show "dom (jobs_of st) \<subseteq> Suc ` ?I"
    proof
      fix n assume "n \<in> dom (jobs_of st)"
      then show "n \<in> Suc ` ?I" by (cases n) (auto simp: jobs_of_def dom_def split: if_split_asm)
    qed
  qed (auto simp: jobs_of_def)
  finally show ?thesis .
qed

lemma table_step_simulation:
  assumes wf: "table_wf st"
  shows "table_wf (snd (table_step op st)) \<and> spec_step op (jobs_of st) = map_prod id jobs_of (table_step op st)"
proof (cases op)
  case (Add_Op j)
  obtain n st' where a: "add_job (Some j) st = (int n, st')" using add_job_correct [OF wf, of j] by blast
  then have "add_numbered j st = (n, st')" by (simp add: add_numbered_def del: add_job.simps)
  then show ?thesis
    using table.add_is_least [OF wf, of j] table.add_inv [OF wf, of j] table.add_lookup [OF wf, of j] a
    by (simp add: Add_Op Let_def del: add_job.simps)
next
  case (Remove_Op n)
  obtain r st' where r: "remove_job n st = (r, st')" by fastforce
  then show ?thesis using remove_job_correct [OF wf r] by (auto simp: Remove_Op)
next
  case Size_Op
  then show ?thesis using wf job_table_size_card [OF wf] by simp
qed

section \<open>Properties\<close>

text \<open>
  C12. The job table refines a finite map: started on a well-formed table (such as the empty one
  of \<^verbatim>\<open>init_job_table\<close>), every sequence of additions, removals and readings of the counter
  returns what the map returns, with the least free number for a new job, and leaves a
  well-formed table that stands for the same map.
\<close>

theorem table_refines_map:
  assumes "table_wf st" and "run_steps table_step ops st = (rs, st')"
  shows "run_steps spec_step ops (jobs_of st) = (rs, jobs_of st') \<and> table_wf st'"
  using run_steps_simulation [of table_wf table_step spec_step jobs_of, OF table_step_simulation assms(1), of ops] assms(2)
  by simp

lemma table_refines_map_witness:
  "\<exists>m. run_steps spec_step [Add_Op (new_job 1 ''c''), Remove_Op 1, Remove_Op 4, Size_Op, Add_Op (new_job 1 ''d''), Size_Op]
         (jobs_of two_jobs) = ([2, 0, 1, 2, 1, 3], m) \<and> m 2 = Some ((new_job 1 ''c'')\<lparr>job_id := 2\<rparr>)"
proof -
  let ?ops = "[Add_Op (new_job 1 ''c''), Remove_Op 1, Remove_Op 4, Size_Op, Add_Op (new_job 1 ''d''), Size_Op]"
  obtain rs st' where r: "run_steps table_step ?ops two_jobs = (rs, st')" by fastforce
  have "fst (run_steps table_step ?ops two_jobs) = [2, 0, 1, 2, 1, 3] \<and>
      job_table (snd (run_steps table_step ?ops two_jobs)) ! 1 = Some ((new_job 1 ''c'')\<lparr>job_id := 2\<rparr>) \<and>
      job_table_capacity (snd (run_steps table_step ?ops two_jobs)) = 3"
    by code_simp
  then have "rs = [2, 0, 1, 2, 1, 3]" "jobs_of st' 2 = Some ((new_job 1 ''c'')\<lparr>job_id := 2\<rparr>)"
    using r by (simp_all add: jobs_of_def)
  then show ?thesis using table_refines_map [OF two_jobs_wf r] by blast
qed

end
