(* ===== verification/Call_Trees.thy ===== *)
theory Call_Trees
  imports Pipeline
begin

text \<open>
  The calls of a command and its pipes are a tree, rooted at the last call of the pipeline.
  An induction over the successful runs of the parser shows that every call it builds feeds
  the last one of its pipeline, or the call under construction, through the pipes recorded
  so far; with the numbers of calls and pipes that makes a tree.
\<close>

section \<open>Calls that feed calls\<close>

text \<open>
  The calls from address \<open>A\<close> on, and the pairs of them that a pipe joins: the first call
  writes the pipe, the second reads it.
\<close>

definition region :: "addr \<Rightarrow> shell \<Rightarrow> addr set" where
  "region A st = {A..<length (call_heap st)}"

definition joined :: "addr \<Rightarrow> shell \<Rightarrow> (addr \<times> addr) set" where
  "joined A st = {(x, y). x \<in> region A st \<and> y \<in> region A st \<and>
     (\<exists>k. k \<in># writes (the_call st x) \<and> k \<in># reads (the_call st y))}"

text \<open>The later state has at least the calls and the pipes of the earlier one.\<close>

definition pipes_grow :: "addr \<Rightarrow> shell \<Rightarrow> shell \<Rightarrow> bool" where
  "pipes_grow A st st' \<longleftrightarrow>
     length (call_heap st) \<le> length (call_heap st') \<and>
     (\<forall>x \<in> region A st. writes (the_call st x) \<subseteq># writes (the_call st' x) \<and>
        reads (the_call st x) \<subseteq># reads (the_call st' x))"

lemma region_mono: "pipes_grow A st st' \<Longrightarrow> B \<le> A \<Longrightarrow> region A st \<subseteq> region B st'"
  by (auto simp: region_def pipes_grow_def)

lemma joined_mono:
  assumes "pipes_grow A st st'" and "B \<le> A"
  shows "joined A st \<subseteq> joined B st'"
  using assms region_mono [OF assms] unfolding joined_def pipes_grow_def
  by (blast dest: mset_subset_eqD)

lemma joined_star_mono:
  "(x, y) \<in> (joined A st)\<^sup>* \<Longrightarrow> pipes_grow A st st' \<Longrightarrow> B \<le> A \<Longrightarrow> (x, y) \<in> (joined B st')\<^sup>*"
  using rtrancl_mono [OF joined_mono] by blast

lemma pipes_grow_heap: "call_heap st' = call_heap st @ h \<Longrightarrow> pipes_grow A st st'"
  by (auto simp: pipes_grow_def region_def the_call_def nth_append)

lemma pipes_grow_update:
  assumes "update_call a f st = Inr st'"
    and "\<And>c. read_call a st = Inr c \<Longrightarrow> writes c \<subseteq># writes (f c) \<and> reads c \<subseteq># reads (f c)"
  shows "pipes_grow A st st'" and "length (call_heap st') = length (call_heap st)"
    and "\<exists>c. read_call a st = Inr c \<and> the_call st' a = f c"
    and "last_parsed_command_call st' = last_parsed_command_call st"
    and "last_parsed_command_call_substitution st' = last_parsed_command_call_substitution st"
proof -
  obtain c where c: "read_call a st = Inr c" "st' = st\<lparr>call_heap := (call_heap st)[a := Some (f c)]\<rparr>"
    using assms(1) by (auto simp: update_call_def bindU_def split: sum.splits)
  then have "a < length (call_heap st)" "call_heap st ! a = Some c"
    by (auto simp: read_call_def split: if_splits option.splits)
  then show "pipes_grow A st st'" "\<exists>c. read_call a st = Inr c \<and> the_call st' a = f c"
    using assms(2) [OF c(1)] c by (auto simp: pipes_grow_def region_def the_call_def nth_list_update)
  show "length (call_heap st') = length (call_heap st)"
    "last_parsed_command_call st' = last_parsed_command_call st"
    "last_parsed_command_call_substitution st' = last_parsed_command_call_substitution st"
    using c(2) by simp_all
qed

section \<open>In the middle of a parse\<close>

text \<open>The first call that has been built: the last one of the pipeline.\<close>

definition last_built :: "bool \<Rightarrow> shell \<Rightarrow> addr option" where
  "last_built inside st =
     (if inside then last_parsed_command_call_substitution st else last_parsed_command_call st)"

text \<open>After a call: every call that has been built feeds the last one, directly or through others.\<close>

definition flow_to_last :: "bool \<Rightarrow> addr \<Rightarrow> shell \<Rightarrow> bool" where
  "flow_to_last inside A st \<longleftrightarrow>
     (\<exists>l. last_built inside st = Some l \<and> l \<in> region A st \<and> (\<forall>x \<in> region A st. (x, l) \<in> (joined A st)\<^sup>*))"

text \<open>The call reaches one whose pipe the builder reads.\<close>

definition flows_to_builder :: "command_call_builder \<Rightarrow> addr \<Rightarrow> shell \<Rightarrow> addr \<Rightarrow> bool" where
  "flows_to_builder b A st x \<longleftrightarrow>
     (\<exists>y k. y \<in> region A st \<and> (x, y) \<in> (joined A st)\<^sup>* \<and> k \<in># writes (the_call st y) \<and> k \<in># b_reads b)"

text \<open>
  After the tokens of a call: every call feeds the builder, or the last call, to which the
  builder then has a pipe.
\<close>

definition flow_to_builder :: "bool \<Rightarrow> addr \<Rightarrow> command_call_builder \<Rightarrow> shell \<Rightarrow> bool" where
  "flow_to_builder inside A b st \<longleftrightarrow>
     (case last_built inside st of
        None \<Rightarrow> \<forall>x \<in> region A st. flows_to_builder b A st x
      | Some l \<Rightarrow> l \<in> region A st \<and>
          (\<exists>z k. z \<in> region A st \<and> k \<in># b_writes b \<and> k \<in># reads (the_call st z) \<and> (z, l) \<in> (joined A st)\<^sup>*) \<and>
          (\<forall>x \<in> region A st. flows_to_builder b A st x \<or> (x, l) \<in> (joined A st)\<^sup>*))"

lemma flows_to_builder_mono:
  assumes "flows_to_builder b A st x" and "pipes_grow A st st'" and "B \<le> A" and "b_reads b \<subseteq># b_reads b'"
  shows "flows_to_builder b' B st' x"
proof -
  obtain y k where y: "y \<in> region A st" "(x, y) \<in> (joined A st)\<^sup>*" "k \<in># writes (the_call st y)" "k \<in># b_reads b"
    using assms(1) unfolding flows_to_builder_def by blast
  have "y \<in> region B st'" using region_mono [OF assms(2,3)] y(1) by blast
  moreover have "(x, y) \<in> (joined B st')\<^sup>*" using y(2) assms(2,3) by (rule joined_star_mono)
  moreover have "k \<in># writes (the_call st' y)"
    using assms(2) y(1,3) by (auto simp: pipes_grow_def dest: mset_subset_eqD)
  moreover have "k \<in># b_reads b'" using y(4) assms(4) by (rule mset_subset_eqD [rotated])
  ultimately show ?thesis unfolding flows_to_builder_def by blast
qed

section \<open>The steps\<close>

lemma finish_call_flow:
  assumes run: "finish_call inside inpipe s args b cmd st = Inr (Some a, cmd', st')"
    and fl: "flow_to_builder inside A b st" and "A \<le> length (call_heap st)"
  shows "flow_to_last inside A st'"
proof -
  obtain t where t: "sanitize_command_string (Some s) = Inr (Some t)"
    using run by (auto simp: finish_call_def bindU_def split: if_splits sum.splits option.splits)
  define c where "c = built_call b args (remove_extra_pipes t)"
  have a: "a = length (call_heap st)" and h: "call_heap st' = call_heap st @ [Some c]"
    and last: "last_built inside st' =
      (case last_built inside st of None \<Rightarrow> Some (length (call_heap st)) | Some l \<Rightarrow> Some l)"
    using run t
    by (auto simp: finish_call_def build_command_built c_def last_built_def Let_def split: if_split_asm option.split)
  have grow: "pipes_grow A st st'" using h by (rule pipes_grow_heap)
  have new: "the_call st' a = c" "a \<in> region A st'" and reg: "region A st' = insert a (region A st)"
    using assms(3) by (auto simp: the_call_def h a region_def)
  have c: "writes c = b_writes b" "reads c = b_reads b" by (simp_all add: c_def built_call_facts)
  have feed: "(x, a) \<in> (joined A st')\<^sup>*" if f: "flows_to_builder b A st x" for x
  proof -
    obtain y k where y: "y \<in> region A st" "(x, y) \<in> (joined A st)\<^sup>*" "k \<in># writes (the_call st y)" "k \<in># b_reads b"
      using f unfolding flows_to_builder_def by blast
    have "k \<in># writes (the_call st' y)" using y grow by (auto simp: pipes_grow_def dest: mset_subset_eqD)
    then have "(y, a) \<in> joined A st'" using y new c reg by (auto simp: joined_def)
    then show ?thesis using joined_star_mono [OF y(2) grow order_refl] by (rule rtrancl_into_rtrancl [rotated])
  qed
  show ?thesis
  proof (cases "last_built inside st")
    case None
    then show ?thesis using fl feed last new reg a by (auto simp: flow_to_builder_def flow_to_last_def)
  next
    case (Some l)
    obtain z k where z: "z \<in> region A st" "k \<in># b_writes b" "k \<in># reads (the_call st z)" "(z, l) \<in> (joined A st)\<^sup>*"
      using fl Some by (auto simp: flow_to_builder_def)
    have "k \<in># reads (the_call st' z)" using z grow by (auto simp: pipes_grow_def dest: mset_subset_eqD)
    then have "(a, z) \<in> joined A st'" using z new c reg by (auto simp: joined_def)
    then have al: "(a, l) \<in> (joined A st')\<^sup>*"
      using joined_star_mono [OF z(4) grow order_refl] by (rule converse_rtrancl_into_rtrancl)
    have "(x, l) \<in> (joined A st')\<^sup>*" if "x \<in> region A st" for x
      using fl Some that feed [of x] al joined_star_mono [OF _ grow order_refl, of x l]
      by (auto simp: flow_to_builder_def intro: rtrancl_trans)
    then show ?thesis using fl Some al last reg by (auto simp: flow_to_builder_def flow_to_last_def)
  qed
qed

lemma pipe_info_grows:
  "(case info of None \<Rightarrow> {#} | Some ps \<Rightarrow> mset ps) \<subseteq>#
     (case add_pipe_pipe_info info k of None \<Rightarrow> {#} | Some ps \<Rightarrow> mset ps)"
  by (cases info) (simp_all add: add_pipe_pipe_info_def)

lemma link_flow:
  assumes run: "link_pipelines OS cmd b a st = Inr (status, cmd', b', st')" and "status \<noteq> -1"
    and fl: "flow_to_last inside A st" and a: "a \<in> region A st"
    and "cc_reading_pipes (the_call st a) \<noteq> None" and "b_writing_pipes b = Some []" and "live st a"
  shows "flow_to_builder inside A b' st'" and "b_reads b' = b_reads b"
    and "length (call_heap st') = length (call_heap st)"
proof -
  obtain rd wr st1 where p: "sys_pipe OS st = (Some (rd, wr), st1)"
    using run assms(2) by (auto simp: link_pipelines_def split: prod.splits option.splits)
  define f where "f c = c\<lparr>cc_reading_pipes := add_pipe_pipe_info (cc_reading_pipes c) (open_pipes_size cmd),
      cc_stdin := rd\<rparr>" for c :: command_call
  have u: "update_call a f st1 = Inr st'"
    and b': "b' = b\<lparr>b_writing_pipes := add_pipe_pipe_info (b_writing_pipes b) (open_pipes_size cmd),
                    b_fds := (b_fds b)[1 := wr]\<rparr>"
    using run assms(2) p
    by (auto simp: link_pipelines_def f_def [abs_def] bindU_def Let_def split: sum.splits)
  have g: "call_heap st1 = call_heap st" "last_built inside st1 = last_built inside st"
    using p by (auto simp: sys_defs last_built_def)
  have grow_f: "writes c \<subseteq># writes (f c) \<and> reads c \<subseteq># reads (f c)" for c
    using pipe_info_grows [of "cc_reading_pipes c"] by (simp add: f_def writes_def reads_def)
  note up = pipes_grow_update [OF u grow_f]
  have grow: "pipes_grow A st st'"
    using up(1) [of A] by (simp add: pipes_grow_def region_def the_call_def g)
  have len: "length (call_heap st') = length (call_heap st)" using up(2) g by simp
  have last: "last_built inside st' = last_built inside st"
    using up(4,5) g(2) unfolding last_built_def by (cases inside) simp_all
  have "read_call a st1 = Inr (the_call st a)"
    using read_call_live [OF assms(7)] unfolding read_call_def g .
  then have "the_call st' a = f (the_call st a)" using up(3) by auto
  then have k: "open_pipes_size cmd \<in># reads (the_call st' a)"
    using assms(5) by (auto simp: f_def reads_def add_pipe_pipe_info_def)
  have "open_pipes_size cmd \<in># b_writes b'"
    using assms(6) by (simp add: b' b_writes_def add_pipe_pipe_info_def)
  note kb = this
  obtain l where l: "last_built inside st = Some l" "l \<in> region A st" "\<forall>x \<in> region A st. (x, l) \<in> (joined A st)\<^sup>*"
    using fl by (auto simp: flow_to_last_def)
  have reg: "region A st' = region A st" using len by (simp add: region_def)
  have star: "(x, l) \<in> (joined A st')\<^sup>*" if "x \<in> region A st" for x
    using joined_star_mono [OF _ grow order_refl] l(3) that by blast
  show "flow_to_builder inside A b' st'"
    using l(1,2) star a k kb unfolding flow_to_builder_def last reg by auto
  show "b_reads b' = b_reads b" by (simp add: b' b_reads_def)
  show "length (call_heap st') = length (call_heap st)" by (rule len)
qed

lemma finish_substitution_flow:
  assumes run: "finish_substitution b i pos q call cmd st = Inr (Some r, b', cmd', st')"
    and fl: "flow_to_last True A st" and "b_reading_pipes b \<noteq> None"
    and "\<And>l. l \<in> region A st \<Longrightarrow> cc_writing_pipes (the_call st l) \<noteq> None"
  shows "\<forall>x \<in> region A st'. flows_to_builder b' A st' x" and "b_reads b \<subseteq># b_reads b'"
    and "length (call_heap st') = length (call_heap st)"
proof -
  define f where "f c = c\<lparr>cc_stdout := snd q\<rparr>" for c :: command_call
  define g where "g c = c\<lparr>cc_writing_pipes := add_pipe_pipe_info (cc_writing_pipes c) pos\<rparr>" for c :: command_call
  obtain l c st1 st2 where l: "last_parsed_command_call_substitution st = Some l"
    and u: "update_call l f st = Inr st1" "update_call l g st1 = Inr st2"
    and st': "st' = st2\<lparr>last_parsed_command_call_substitution := None\<rparr>"
    and b': "b' = b\<lparr>b_reading_pipes := add_pipe_pipe_info (b_reading_pipes b) pos\<rparr>"
    using run
    by (auto simp: finish_substitution_def update_dependencies_def bindU_def f_def [abs_def] g_def [abs_def]
        split: option.splits sum.splits if_splits)
  have gf: "writes c \<subseteq># writes (f c) \<and> reads c \<subseteq># reads (f c)" for c
    by (simp add: f_def writes_def reads_def)
  have gg: "writes c \<subseteq># writes (g c) \<and> reads c \<subseteq># reads (g c)" for c
    using pipe_info_grows [of "cc_writing_pipes c"] by (simp add: g_def writes_def reads_def)
  note u1 = pipes_grow_update [OF u(1) gf] and u2 = pipes_grow_update [OF u(2) gg]
  have len: "length (call_heap st') = length (call_heap st)" using u1(2) u2(2) by (simp add: st')
  have grow: "pipes_grow A st st'"
    using u1(1) [of A] u2(1) [of A] len
    by (simp add: pipes_grow_def region_def the_call_def st' u1(2)) (meson subset_mset.order_trans)
  have lr: "l \<in> region A st" and all: "\<And>x. x \<in> region A st \<Longrightarrow> (x, l) \<in> (joined A st)\<^sup>*"
    using fl l by (auto simp: flow_to_last_def last_built_def)
  obtain c where c: "read_call l st = Inr c" "the_call st1 l = f c" using u1(3) by blast
  have "the_call st l = c" using c(1) by (auto simp: read_call_def the_call_def split: if_splits option.splits)
  moreover obtain d where d: "read_call l st1 = Inr d" "the_call st2 l = g d" using u2(3) by blast
  moreover have "d = f c" using d(1) c(2) by (auto simp: read_call_def the_call_def split: if_splits option.splits)
  ultimately have "the_call st' l = g (f (the_call st l))" by (simp add: the_call_def st')
  then have k: "pos \<in># writes (the_call st' l)"
    using assms(4) [OF lr] by (auto simp: f_def g_def writes_def add_pipe_pipe_info_def)
  have kb: "pos \<in># b_reads b'" using assms(3) by (auto simp: b' b_reads_def add_pipe_pipe_info_def)
  have reg: "region A st' = region A st" using len by (simp add: region_def)
  show "\<forall>x \<in> region A st'. flows_to_builder b' A st' x"
    using all joined_star_mono [OF _ grow order_refl] k kb lr unfolding reg flows_to_builder_def by blast
  show "b_reads b \<subseteq># b_reads b'" using pipe_info_grows [of "b_reading_pipes b" pos] by (simp add: b' b_reads_def)
  show "length (call_heap st') = length (call_heap st)" by (rule len)
qed

section \<open>The induction over the parser\<close>

lemma extends_grows:
  assumes "extends_to cmd st cmd' st' new ps cs"
  shows "pipes_grow A st st'" and "length (call_heap st) \<le> length (call_heap st')"
  using assms pipes_grow_heap by (auto simp: extends_to_def)

lemma extends_region:
  assumes "extends_to cmd st cmd' st' new ps cs" and "x \<in> region (length (call_heap st)) st'"
  shows "live st' x" and "cc_writing_pipes (the_call st' x) \<noteq> None" and "cc_reading_pipes (the_call st' x) \<noteq> None"
proof -
  have x: "x \<in> set (fresh st st')" using assms(2) by (simp add: region_def fresh_def)
  then show "live st' x" using extends_calls(2) [OF assms(1)] by blast
  have "the_call st' x \<in> set cs" using x extends_calls(1) [OF assms(1)] by (metis image_eqI set_map)
  then have "wired (cmd_open_pipes cmd') (the_call st' x)" using assms(1) unfolding extends_to_def by blast
  then show "cc_writing_pipes (the_call st' x) \<noteq> None" "cc_reading_pipes (the_call st' x) \<noteq> None"
    by (auto simp: wired_def writes_at_most_one_def)
qed

lemma flow_compose:
  assumes "\<forall>x \<in> region A st1. flows_to_builder b1 A st1 x"
    and "flow_to_builder inside (length (call_heap st1)) b' st'"
    and "A \<le> length (call_heap st1)" and "pipes_grow A st1 st'" and "b_reads b1 \<subseteq># b_reads b'"
  shows "flow_to_builder inside A b' st'"
proof -
  let ?B = "length (call_heap st1)"
  have refl: "pipes_grow ?B st' st'" by (simp add: pipes_grow_def)
  have reg: "region ?B st' \<subseteq> region A st'" using region_mono [OF refl assms(3)] .
  have old: "flows_to_builder b' A st' x" if "x \<in> region A st1" for x
    using flows_to_builder_mono [OF _ assms(4) order_refl assms(5)] assms(1) that by blast
  have new: "flows_to_builder b' A st' x" if "flows_to_builder b' ?B st' x" for x
    using flows_to_builder_mono [OF that refl assms(3) subset_mset.order_refl] .
  have star: "(x, y) \<in> (joined A st')\<^sup>*" if "(x, y) \<in> (joined ?B st')\<^sup>*" for x y
    using joined_star_mono [OF that refl assms(3)] .
  have split: "x \<in> region A st1 \<or> x \<in> region ?B st'" if "x \<in> region A st'" for x
    using that by (auto simp: region_def)
  show ?thesis
  proof (cases "last_built inside st'")
    case None
    then show ?thesis using assms(2) old new split unfolding flow_to_builder_def by auto
  next
    case (Some l)
    have l: "l \<in> region ?B st'"
      "\<exists>z k. z \<in> region ?B st' \<and> k \<in># b_writes b' \<and> k \<in># reads (the_call st' z) \<and> (z, l) \<in> (joined ?B st')\<^sup>*"
      "\<forall>x \<in> region ?B st'. flows_to_builder b' ?B st' x \<or> (x, l) \<in> (joined ?B st')\<^sup>*"
      using assms(2) Some unfolding flow_to_builder_def by auto
    have "\<exists>z k. z \<in> region A st' \<and> k \<in># b_writes b' \<and> k \<in># reads (the_call st' z) \<and> (z, l) \<in> (joined A st')\<^sup>*"
      using l(2) reg star by blast
    moreover have "\<forall>x \<in> region A st'. flows_to_builder b' A st' x \<or> (x, l) \<in> (joined A st')\<^sup>*"
      using l(3) old new star split by blast
    ultimately show ?thesis using l(1) reg Some unfolding flow_to_builder_def by auto
  qed
qed

lemma flow_to_builder_start: "ready inside st \<Longrightarrow> flow_to_builder inside (length (call_heap st)) b st"
  by (simp add: ready_def flow_to_builder_def last_built_def region_def split: if_splits)

lemma flow_from_same_globals:
  "same_globals st st1 \<Longrightarrow> flow_to_last inside (length (call_heap st1)) st' \<longleftrightarrow> flow_to_last inside (length (call_heap st)) st'"
  "same_globals st st1 \<Longrightarrow>
     flow_to_builder inside (length (call_heap st1)) b st' \<longleftrightarrow> flow_to_builder inside (length (call_heap st)) b st'"
  by (auto simp: same_globals_iff)

text \<open>On every successful return.\<close>

lemma parse_flow:
  "parse_command_call OS cmd s inside inpipe st = Inr (Some a, cmd', st') \<Longrightarrow> ready inside st \<Longrightarrow>
     flow_to_last inside (length (call_heap st)) st'"
  "parse_tokens OS inside index args ts b cmd st = Inr (True, args', b', cmd', st') \<Longrightarrow> ready inside st \<Longrightarrow>
     b_wired (cmd_open_pipes cmd) args b \<Longrightarrow> b_writing_pipes b = Some [] \<Longrightarrow> are_words ts \<Longrightarrow>
     flow_to_builder inside (length (call_heap st)) b' st' \<and> b_reads b \<subseteq># b_reads b'"
  "parse_command_substitution OS cmd b ts st = Inr (Some r, b', cmd', st') \<Longrightarrow> ts = [] \<or> hd ts \<noteq> '')'' \<Longrightarrow>
     b_reading_pipes b \<noteq> None \<Longrightarrow>
     (\<forall>x \<in> region (length (call_heap st)) st'. flows_to_builder b' (length (call_heap st)) st' x) \<and>
     b_reads b \<subseteq># b_reads b'"
proof (induction OS cmd s inside inpipe st and OS inside index args ts b cmd st and OS cmd b ts st
    arbitrary: a cmd' st' and args' b' cmd' st' and r b' cmd' st'
    rule: parse_command_call_parse_tokens_parse_command_substitution.induct)
  case (1 OS cmd s inside inpipe st)
  have nb: "b_wired (cmd_open_pipes cmd) [] new_command_call_builder"
    "b_writing_pipes new_command_call_builder = Some []"
    by (simp_all add: b_wired_def new_command_call_builder_def new_pipe_info_def
        writes_at_most_one_def reads_as_arguments_def)
  obtain tokens where t: "split_string s '' '' = Inr (Some tokens)"
    using "1.prems"(1) by (auto simp: parse_command_call.simps bindU_def split: sum.splits option.splits)
  obtain args b cmd1 st1
    where p: "parse_tokens OS inside 0 [] tokens new_command_call_builder cmd st = Inr (True, args, b, cmd1, st1)"
      and f: "finish_call inside inpipe s args b cmd1 st1 = Inr (Some a, cmd', st')"
    using "1.prems"(1) t
    by (auto simp: parse_command_call.simps elim!: bindU_InrE split: if_splits)
  note w = split_word(1) [OF t]
  have aw: "are_words tokens" using words_single_mem w by (auto simp: are_words_def)
  obtain new ps cs where "extends_to cmd st cmd1 st1 new ps cs"
    using yields_InrD [OF parse_tree(2) [OF "1.prems"(2) nb aw] p] by (auto simp: frame_def)
  then show ?case
    using finish_call_flow [OF f conjunct1 [OF "1.IH" [OF t refl p "1.prems"(2) nb aw]]] extends_grows(2) by blast
next
  case (2 OS inside index args b cmd st)
  then show ?case by (simp add: parse_tokens.simps flow_to_builder_start)
next
  case (3 OS inside index args t rest b cmd st)
  note run = "3.prems"(1) and rd = "3.prems"(2) and bw = "3.prems"(3,4)
  have words: "are_words us" if "set us \<subseteq> set rest" for us
    using are_words_mono [OF "3.prems"(5)] that by auto
  show ?case
  proof (cases "contains_string redirection_caret_symbols t")
    case False
    have "b_wired (cmd_open_pipes cmd) (args @ [t]) b"
      using wired_mono(4) [OF bw(1), of "args @ [t]" "[]"] by auto
    then show ?thesis
      using "3.IH"(1) [OF False _ rd _ bw(2) words [OF order_refl]] run False by (simp add: parse_tokens.simps)
  next
    case sym: True
    have rest: "\<not> (rest = [] \<or> index = 0)" and hd: "\<not> contains_string redirection_caret_symbols (hd rest)"
      using run sym by (auto simp: parse_tokens.simps split: if_splits)
    have nsym: "\<not> \<not> contains_string redirection_caret_symbols t" using sym by simp
    note eqs = parse_tokens_symbol [OF sym rest hd]
    consider (subst) "t = ''<(''" | (pipe) "t \<noteq> ''<(''" "t = ''|''" | (redir) "t \<noteq> ''<(''" "t \<noteq> ''|''" by blast
    then show ?thesis
    proof cases
      case subst
      have nend: "rest = [] \<or> hd rest \<noteq> '')''" using hd by (auto simp: redirection_caret_symbols_def)
      obtain i dev b1 cmd1 st1
        where p: "parse_command_substitution OS cmd b rest st = Inr (Some (i, dev), b1, cmd1, st1)"
          and r: "parse_tokens OS inside (index + i + 2) (args @ [dev]) (drop (i + 1) rest) b1 cmd1 st1 =
            Inr (True, args', b', cmd', st')"
        using run unfolding eqs(1) [OF subst]
        by (auto elim!: bindU_InrE split: option.splits)
      obtain n1 p1 c1 where f1: "frame True cmd st cmd1 st1 n1 p1 c1"
        and ok: "tokens_done True cmd st b (args @ [dev]) b1 cmd1 st1 n1 p1 c1"
          "last_parsed_command_call_substitution st1 = None" "b_writing_pipes b1 = Some []"
        using yields_InrD [OF parse_tree(3) [OF nend bw, of OS st] p] by auto
      have rd1: "ready inside st1" using f1 ok(2) rd by (simp add: frame_def ready_def)
      have bw1: "b_wired (cmd_open_pipes cmd1) (args @ [dev]) b1" using ok(1) by (simp add: tokens_done_def)
      have wd: "are_words (drop (i + 1) rest)" by (rule words [OF set_drop_subset])
      have br: "b_reading_pipes b \<noteq> None"
        using bw(1) by (auto simp: b_wired_def reads_as_arguments_def split: option.splits)
      note ih1 = "3.IH"(2) [OF nsym rest hd subst p nend br]
      note ih2 = "3.IH"(3) [OF nsym rest hd subst p refl refl refl refl refl r rd1 bw1 ok(3) wd]
      obtain n2 p2 c2 where e2: "extends_to cmd1 st1 cmd' st' n2 p2 c2"
        using yields_InrD [OF parse_tree(2) [OF rd1 bw1 ok(3) wd] r] by (auto simp: frame_def)
      have "length (call_heap st) \<le> length (call_heap st1)"
        using f1 extends_grows(2) by (auto simp: frame_def)
      then show ?thesis
        using flow_compose [OF conjunct1 [OF ih1] conjunct1 [OF ih2] _ extends_grows(1) [OF e2]] ih1 ih2
        by (auto intro: subset_mset.order_trans)
    next
      case pipe
      have un: "b_fds b ! 1 = -1" using run sym rest hd pipe by (auto simp: parse_tokens.simps split: if_splits)
      then have nun: "\<not> b_fds b ! 1 \<noteq> -1" by simp
      obtain joined where j: "join_strings rest '' '' = Inr joined" by (simp add: join_strings_intercalate)
      obtain a cmd1 st1 status cmd2
        where p: "parse_command_call OS cmd (cstr_text joined) inside True st = Inr (Some a, cmd1, st1)"
          and l: "link_pipelines OS cmd1 b a st1 = Inr (status, cmd2, b', st')" "status \<noteq> -1"
        using run unfolding eqs(2) [OF pipe(2) un j]
        by (auto elim!: bindU_InrE split: option.splits if_splits)
      note ih = "3.IH"(4) [OF nsym rest hd pipe nun j p rd]
      obtain n1 p1 c1 where "frame inside cmd st cmd1 st1 n1 p1 c1" "call_done inside cmd st a cmd1 st1 n1 p1 c1"
        using yields_InrD [OF parse_tree(1) [OF rd] p] by auto
      then have e: "extends_to cmd st cmd1 st1 n1 p1 c1" and a: "a \<in> region (length (call_heap st)) st1"
        by (auto simp: frame_def call_done_def fresh_def region_def)
      note er = extends_region [OF e a]
      show ?thesis using link_flow [OF l ih a er(3) bw(2) er(1)] by simp
    next
      case redir
      obtain status fds1 st1 where pr: "parse_redirections OS (b_fds b) t (hd rest) st = (status, fds1, st1)"
        by (metis prod_cases3)
      note pf = parse_redirections_frame [OF pr]
      have s: "\<not> status < 0"
        and r: "parse_tokens OS inside (index + 2) args (tl rest) (b\<lparr>b_fds := fds1\<rparr>) cmd st1 = Inr (True, args', b', cmd', st')"
        using run unfolding eqs(3) [OF redir pr] by (auto split: if_splits)
      have d: "set (tl rest) \<subseteq> set rest" by (cases rest) auto
      have "flow_to_builder inside (length (call_heap st1)) b' st' \<and> b_reads (b\<lparr>b_fds := fds1\<rparr>) \<subseteq># b_reads b'"
        by (rule "3.IH"(5) [OF nsym rest hd redir pr [symmetric] refl refl refl s r _ _ _ words [OF d]])
          (use pf rd ready_same_globals [OF conjunct2 [OF pf]] bw in
            \<open>simp_all add: b_wired_def writes_at_most_one_def\<close>)
      then show ?thesis using flow_from_same_globals(2) [OF conjunct2 [OF pf]] by (simp add: b_reads_def)
    qed
  qed
next
  case (4 OS cmd b ts st)
  define st0 where "st0 = st\<lparr>last_parsed_command_call_substitution := None\<rparr>"
  obtain i n where sc: "scan_substitution ts 0 0 = (i, n)" by fastforce
  have i: "\<not> (i = length ts \<or> n \<noteq> 0)"
    using "4.prems"(1) sc by (auto simp: parse_command_substitution.simps Let_def split: if_splits)
  obtain q st1 where p: "sys_pipe OS st0 = (Some q, st1)"
    using "4.prems"(1) sc i by (auto simp: parse_command_substitution.simps st0_def Let_def split: prod.splits option.splits)
  obtain joined where j: "join_strings (take i ts) '' '' = Inr joined" by (simp add: join_strings_intercalate)
  have il: "i < length ts" using i scan_substitution_le [OF sc] by simp
  have "i \<noteq> 0"
  proof
    assume "i = 0"
    then have "ts ! 0 = '')''" using scan_substitution_end [OF sc] il by simp
    then show False using "4.prems"(2) il by (cases ts) auto
  qed
  then have cf: "c_free joined = Inr ()" using il j by (intro c_free_join [of "take i ts"]) auto
  note sg = same_globals_sys_pipe [OF p]
  have rd1: "ready True st1" using same_globals_parser [OF sg, of st st] by (simp add: ready_def st0_def)
  have m: "parse_command_substitution OS cmd b ts st =
      bindU (parse_command_call OS (add_pipe cmd q) (cstr_text joined) True False st1)
        (\<lambda>(call, cmd', st). finish_substitution b i (open_pipes_size cmd) q call cmd' st)"
    using i unfolding parse_command_substitution.simps Let_def st0_def [symmetric] sc prod.case p option.case
    by (simp add: j cf)
  obtain call cmd1 st2 where c: "parse_command_call OS (add_pipe cmd q) (cstr_text joined) True False st1 = Inr (call, cmd1, st2)"
    and f: "finish_substitution b i (open_pipes_size cmd) q call cmd1 st2 = Inr (Some r, b', cmd', st')"
    using "4.prems"(1) unfolding m by (auto elim!: bindU_InrE)
  obtain a where a: "call = Some a"
    using f by (cases call) (auto simp: finish_substitution_def split: option.splits)
  have len: "length (call_heap st1) = length (call_heap st)"
    using same_globals_parser [OF sg, of st st] by (simp add: st0_def)
  obtain n1 p1 c1 where e: "extends_to (add_pipe cmd q) st1 cmd1 st2 n1 p1 c1"
    using yields_InrD [OF parse_tree(1) [OF rd1] c] by (auto simp: frame_def)
  have ih: "flow_to_last True (length (call_heap st)) st2"
    using "4.IH" [OF st0_def refl sc [symmetric] i refl p [symmetric] refl refl refl j c [unfolded a] rd1] len by simp
  show ?case
    using finish_substitution_flow [OF f ih "4.prems"(3)] extends_region(2) [OF e] len by auto
qed


section \<open>The tree of a command\<close>

text \<open>The pairs of calls of a command that a pipe joins: the first writes it, the second reads it.\<close>

definition feeds :: "shell \<Rightarrow> command \<Rightarrow> (addr \<times> addr) set" where
  "feeds st cmd = {(x, y) \<in> set (cmd_calls cmd) \<times> set (cmd_calls cmd).
     \<exists>k \<in># writes (the_call st x). k \<in># reads (the_call st y)}"

lemma parse_command_root:
  assumes "parse_command OS s st = Inr (Some cmd, st')"
  shows "cmd_calls cmd \<noteq> [] \<and> (\<forall>x \<in> set (cmd_calls cmd). (x, hd (cmd_calls cmd)) \<in> (feeds st' cmd)\<^sup>*)"
proof -
  have t: "mset (cmd_calls cmd) = mset (fresh st st')"
    using yields_InrD [OF parse_command_tree assms] by simp
  then have set: "set (cmd_calls cmd) = region (length (call_heap st)) st'"
    by (metis atLeastLessThan_upt fresh_def region_def set_mset_mset)
  obtain cmd0 r cmd1 st1
    where p: "parse_command_call OS cmd0 s False False (st\<lparr>last_parsed_command_call := None\<rparr>) = Inr (Some r, cmd1, st1)"
      and l: "last_parsed_command_call st1 \<noteq> None" and st': "st' = st1\<lparr>last_parsed_command_call := None\<rparr>"
      and cmd: "cmd_calls cmd \<noteq> []" "hd (cmd_calls cmd) = the (last_parsed_command_call st1)"
    using assms
    by (auto simp: parse_command_def parse_command_error_def Let_def add_call_at_the_beginning_def
        elim!: bindU_InrE split: option.splits if_splits)
  have "flow_to_last False (length (call_heap st)) st1"
    using parse_flow(1) [OF p] by (simp add: ready_def)
  moreover have "joined (length (call_heap st)) st1 = feeds st' cmd"
    unfolding feeds_def set by (auto simp: joined_def st' region_def the_call_def)
  ultimately show ?thesis
    using cmd set by (auto simp: flow_to_last_def last_built_def region_def st')
qed

text \<open>A relation in which everything reaches a point with no successor, and nothing has two, has no cycle.\<close>

lemma acyclic_to_root:
  assumes "\<And>x y. (x, y) \<in> R \<Longrightarrow> (x, r) \<in> R\<^sup>*" and "\<And>y. (r, y) \<notin> R"
    and "\<And>x y z. (x, y) \<in> R \<Longrightarrow> (x, z) \<in> R \<Longrightarrow> y = z"
  shows "acyclic R"
proof -
  have "(x, x) \<notin> R\<^sup>+" if "(x, r) \<in> R\<^sup>*" for x
    using that
  proof (induction rule: converse_rtrancl_induct)
    case base
    then show ?case using assms(2) by (meson tranclD)
  next
    case (step x y)
    show ?case
    proof
      assume "(x, x) \<in> R\<^sup>+"
      then obtain z where "(x, z) \<in> R" "(z, x) \<in> R\<^sup>*" by (meson tranclD)
      then have "(y, x) \<in> R\<^sup>*" using assms(3) step(1) by blast
      then have "(y, y) \<in> R\<^sup>+" using step(1) by (rule rtrancl_into_trancl1)
      then show False using step.IH by simp
    qed
  qed
  then show ?thesis unfolding acyclic_def by (metis assms(1) tranclD)
qed

lemma size_all_writes: "size (all_writes cs) = (\<Sum>c \<leftarrow> cs. size (writes c))"
  by (induction cs) simp_all

text \<open>Every call but the root writes one pipe and the root none, since there are as many pipes as other calls.\<close>

lemma root_writes_nothing:
  assumes "command_tree st cmd" and "cmd_calls cmd = r # rest"
    and "\<forall>x \<in> set rest. writes (the_call st x) \<noteq> {#}"
  shows "writes (the_call st r) = {#}" and "\<forall>x \<in> set rest. size (writes (the_call st x)) = 1"
proof -
  have "\<forall>x \<in> set (r # rest). size (writes (the_call st x)) \<le> 1"
    using assms(1,2) by (auto simp: command_tree_def wired_def writes_at_most_one_def writes_def)
  moreover have "\<forall>x \<in> set rest. size (writes (the_call st x)) \<noteq> 0" using assms(3) by auto
  ultimately show one: "\<forall>x \<in> set rest. size (writes (the_call st x)) = 1"
    by (metis One_nat_def le_neq_implies_less less_one list.set_intros(2))
  have "(\<Sum>x \<leftarrow> rest. size (writes (the_call st x))) = (\<Sum>x \<leftarrow> rest. 1)"
    using one by (intro arg_cong [of _ _ sum_list] map_cong) auto
  then have "(\<Sum>x \<leftarrow> rest. size (writes (the_call st x))) = length rest" by (simp add: sum_list_triv)
  moreover have "size (all_writes (map (the_call st) (r # rest))) = length rest"
    using assms(1,2) by (simp add: command_tree_def)
  ultimately show "writes (the_call st r) = {#}" by (simp add: size_all_writes comp_def)
qed

text \<open>
  C1. When \<^verbatim>\<open>parse_command\<close> returns a command, its calls and pipes are a tree. There is one
  call more than there are pipes, the calls are distinct and allocated, and every pipe is
  written by exactly one call and read by exactly one call. The first call of the list, the
  last one of the pipeline, is the root: it writes no pipe. Every other call writes exactly
  one pipe and so feeds exactly one call, every call feeds the root, directly or through
  others, and no call feeds itself, directly or through others.
\<close>

theorem parse_command_pipes:
  assumes "parse_command OS s st = Inr (Some cmd, st')"
  defines "root \<equiv> hd (cmd_calls cmd)"
  shows "command_call_count cmd = open_pipes_size cmd + 1 \<and>
         distinct (cmd_calls cmd) \<and> (\<forall>a \<in> set (cmd_calls cmd). live st' a) \<and>
         (\<forall>k < open_pipes_size cmd.
            (\<exists>!a. a \<in> set (cmd_calls cmd) \<and> k \<in># writes (the_call st' a)) \<and>
            (\<exists>!a. a \<in> set (cmd_calls cmd) \<and> k \<in># reads (the_call st' a))) \<and>
         writes (the_call st' root) = {#} \<and>
         (\<forall>a \<in> set (cmd_calls cmd).
            (a, root) \<in> (feeds st' cmd)\<^sup>* \<and>
            (a \<noteq> root \<longrightarrow> size (writes (the_call st' a)) = 1 \<and> (\<exists>!b. (a, b) \<in> feeds st' cmd))) \<and>
         acyclic (feeds st' cmd)"
proof -
  have t: "command_tree st' cmd"
    using yields_InrD [OF parse_command_tree assms(1)] by simp
  have one: "\<exists>!a. a \<in> set (cmd_calls cmd) \<and> k \<in># f (the_call st' a)"
    if "sum_list (map (\<lambda>a. f (the_call st' a)) (cmd_calls cmd)) = mset [0..<open_pipes_size cmd]"
      "k < open_pipes_size cmd" for f k
    using that t by (intro one_of_sum [where ks = "[0..<open_pipes_size cmd]"]) (simp_all add: command_tree_def)
  have unique: "\<forall>k < open_pipes_size cmd.
            (\<exists>!a. a \<in> set (cmd_calls cmd) \<and> k \<in># writes (the_call st' a)) \<and>
            (\<exists>!a. a \<in> set (cmd_calls cmd) \<and> k \<in># reads (the_call st' a))"
    using t one by (simp add: command_tree_def all_writes_def all_reads_def comp_def)
  have reach: "\<forall>a \<in> set (cmd_calls cmd). (a, root) \<in> (feeds st' cmd)\<^sup>*"
    and ne: "cmd_calls cmd \<noteq> []"
    using parse_command_root [OF assms(1)] by (simp_all add: root_def)
  obtain rest where calls: "cmd_calls cmd = root # rest" using ne by (cases "cmd_calls cmd") (simp_all add: root_def)
  have dist: "root \<notin> set rest" using t calls by (simp add: command_tree_def)
  have feeds_one: "\<exists>b. (a, b) \<in> feeds st' cmd" if "a \<in> set rest" for a
    using that reach calls dist by (metis converse_rtranclE list.set_intros(2))
  have "\<forall>a \<in> set rest. writes (the_call st' a) \<noteq> {#}" using feeds_one by (fastforce simp: feeds_def)
  note w = root_writes_nothing [OF t calls this]
  have range: "k < open_pipes_size cmd" if "a \<in> set (cmd_calls cmd)" "k \<in># writes (the_call st' a)" for a k
    using that t by (auto simp: command_tree_def wired_def writes_at_most_one_def writes_def)
  have functional: "b = c" if f: "(a, b) \<in> feeds st' cmd" "(a, c) \<in> feeds st' cmd" for a b c
  proof -
    obtain k j where k: "a \<in> set (cmd_calls cmd)" "k \<in># writes (the_call st' a)" "j \<in># writes (the_call st' a)"
      "b \<in> set (cmd_calls cmd)" "c \<in> set (cmd_calls cmd)"
      "k \<in># reads (the_call st' b)" "j \<in># reads (the_call st' c)"
      using f by (auto simp: feeds_def)
    have "size (writes (the_call st' a)) = 1" using k(1,2) w calls by auto
    then obtain i where "writes (the_call st' a) = {#i#}" using size_1_singleton_mset by blast
    then have "j = k" using k(2,3) by simp
    then show ?thesis using unique range [OF k(1,2)] k by blast
  qed
  have "acyclic (feeds st' cmd)"
  proof (rule acyclic_to_root)
    show "(x, root) \<in> (feeds st' cmd)\<^sup>*" if "(x, y) \<in> feeds st' cmd" for x y
      using that reach by (auto simp: feeds_def)
    show "(root, y) \<notin> feeds st' cmd" for y using w(1) by (simp add: feeds_def)
  qed (rule functional)
  moreover have "\<exists>!b. (a, b) \<in> feeds st' cmd" if "a \<in> set rest" for a
    using feeds_one [OF that] functional by blast
  ultimately show ?thesis
    using t unique reach w calls dist by (auto simp: command_tree_def)
qed

lemma parse_command_pipes_witness:
  "\<exists>cmd st'. parse_command sample_os ''a <( b | c ) x | d'' initial_shell = Inr (Some cmd, st') \<and>
     open_pipes_size cmd = 3 \<and> command_call_count cmd = 4 \<and>
     (\<forall>a \<in> set (cmd_calls cmd). (a, hd (cmd_calls cmd)) \<in> (feeds st' cmd)\<^sup>*) \<and> acyclic (feeds st' cmd)"
proof -
  have "case parse_command sample_os ''a <( b | c ) x | d'' initial_shell of
      Inr (Some cmd, st') \<Rightarrow> open_pipes_size cmd = 3 | _ \<Rightarrow> False" by code_simp
  then obtain cmd st' where r: "parse_command sample_os ''a <( b | c ) x | d'' initial_shell = Inr (Some cmd, st')"
    "open_pipes_size cmd = 3"
    by (auto split: sum.splits option.splits)
  then show ?thesis
    using parse_command_pipes [OF r(1)] by auto
qed

end
