(* ===== verification/Spec2Isabelle.thy ===== *)
theory Spec2Isabelle
  imports Handshake No_Leaks Job_Processes Call_Types Job_Store Call_Trees
begin

text \<open>
  \<^bold>\<open>A verification development of jsh.\<close>

  jsh is a job-control shell written in C (\<^verbatim>\<open>src/*.c\<close>). Its main loop prints a prompt, reads a
  line, parses it into commands, runs each command in the shell itself or in a group of new
  processes, and keeps the jobs that do not end at once in a table. This development is a
  shallow embedding of that code: every C function is an Isabelle function of the same name
  on the state of the shell.

  \<^bold>\<open>The state and the outside world.\<close> The record \<open>shell\<close> (theory \<open>Shell_State\<close>) holds the
  globals: the job table with its pointer and its counter (\<^verbatim>\<open>jobs.c\<close>), the last exit code and
  the flag of \<^verbatim>\<open>exit\<close> (\<^verbatim>\<open>internals.c\<close>), the two pointers to calls that the parser keeps
  (\<^verbatim>\<open>command.c\<close>), the last directory (\<^verbatim>\<open>cd.c\<close>). The structs \<^verbatim>\<open>command_call\<close> are shared by
  pointer and freed by hand, so they live in a store of calls with addresses, where a freed
  address stays empty; all other structs are values. The kernel and \<^verbatim>\<open>readline\<close> are not
  under \<^verbatim>\<open>src/\<close>: they are the record \<open>os\<close> of functions that answer every system call from
  the trace of all events so far. It is a parameter of the model, and a theorem about all
  \<open>os\<close> holds for every behaviour of the kernel, including failures of any call at any time.
  Where a property needs more (\<^verbatim>\<open>waitpid\<close> reports what its flags ask for, the kernel gives
  pipes no standard descriptor, \<^verbatim>\<open>getcwd\<close> keeps to its bound) the documented behaviour is a
  hypothesis of the theorem, and its witness gives a concrete kernel with it.

  \<^bold>\<open>Results.\<close> Misbehaviour of C is a value: a function that can dereference a null pointer,
  leave an object, read a pointer never written, use or free freed memory or loop for ever
  returns \<open>Inl u\<close> exactly there (type \<open>'a cres\<close> of \<open>Prelude\<close>). A process that can end or
  become another program has a result of type \<open>'a proc\<close>: it is running, has exited with a
  status, or has been replaced (\<open>Shell_State\<close>). A loop that need not end (the reads of
  \<^verbatim>\<open>get_children\<close>, the walk of \<^verbatim>\<open>print_children\<close>, the loop of \<^verbatim>\<open>prompt\<close>) is a partial function
  whose value is \<^const>\<open>None\<close> when it does not; the command \<^verbatim>\<open>jobs\<close> turns that into
  \<^const>\<open>Diverges\<close>, and a loop that never ends on some argument (the ones over a pattern that
  can be empty) has that result there.

  \<^bold>\<open>The theories, in the order of the code.\<close>
  \<^item> \<open>Prelude\<close>: results, decimal rendering as \<^verbatim>\<open>printf\<close> does it, conversions between the C
    integer types, generic facts on lists.
  \<^item> \<open>String_Utils\<close> (\<^verbatim>\<open>string_utils.c\<close>): string iterators, splitting, joining, trimming,
    truncation, \<^verbatim>\<open>parse_intmax_t\<close>. Splitting is equal to a reference definition; splitting and
    joining, and printing and parsing of numbers, are round trips.
  \<^item> \<open>Shell_State\<close>: the data of \<^verbatim>\<open>command.h\<close> and \<^verbatim>\<open>jobs.h\<close>, the globals, the system calls, and
    the frame relation \<open>same_globals\<close> (nothing but the trace has changed).
  \<^item> \<open>Utils\<close> (\<^verbatim>\<open>utils.c\<close>): bounded sets of descriptors, colours, the current directory.
  \<^item> \<open>Signals\<close> (\<^verbatim>\<open>signals.c\<close>): the six signals that the shell ignores and its children do not.
  \<^item> \<open>Jobs\<close> and \<open>Jobs_Command\<close> (\<^verbatim>\<open>jobs.c\<close>): statuses, the job table, waiting, foreground and
    background, the command \<^verbatim>\<open>jobs\<close>. \<open>jobs_of\<close> is the abstraction of the table to a finite map
    from numbers to jobs, \<open>table_wf\<close> its invariant, and the locale \<open>job_store\<close> the interface
    that the rest of the shell uses, interpreted on the table.
  \<^item> \<open>Command\<close> and \<open>Parser\<close> (\<^verbatim>\<open>command.c\<close>): calls, commands and their builders; redirections,
    pipelines, process substitutions, the symbol \<^verbatim>\<open>&\<close>. The mutual recursion of
    \<^verbatim>\<open>parse_command_call\<close> with itself and \<^verbatim>\<open>parse_command_substitution\<close> is one function with a
    termination proof: the tokens get fewer.
  \<^item> \<open>Proc\<close> (\<^verbatim>\<open>proc.c\<close>), \<open>Cd\<close> (\<^verbatim>\<open>cd.c\<close>), \<open>Builtins\<close> (\<^verbatim>\<open>pwd.c\<close>, \<^verbatim>\<open>exit.c\<close>, \<^verbatim>\<open>fg.c\<close>, \<^verbatim>\<open>bg.c\<close>, \<^verbatim>\<open>kill.c\<close>,
    \<^verbatim>\<open>last_exit_code_command.c\<close>).
  \<^item> \<open>Internals\<close> (\<^verbatim>\<open>internals.c\<close>): the execution of commands, with both sides of \<^verbatim>\<open>fork\<close>.
  \<^item> \<open>Prompt\<close> (\<^verbatim>\<open>prompt.c\<close>, \<^verbatim>\<open>jsh.c\<close>): the prompt, the loop and \<^verbatim>\<open>main\<close>.

  \<^bold>\<open>The theories of theorems.\<close>
  \<^item> \<open>Parse_Tree\<close>: what the parser builds, by an induction over it: every call is allocated and
    listed once, every pipe has one writer and one reader, and the descriptors of the calls are
    the ends of these pipes. Its only undefined behaviour is one use after free (a finding).
  \<^item> \<open>Parse_Faults\<close>: which lines meet it, by two more inductions: those with a process
    substitution that redirects its own output (\<open>redirects_inside\<close>).
  \<^item> \<open>Pipeline\<close>: what follows for the commands of \<^verbatim>\<open>parse_command\<close> and the lines of
    \<^verbatim>\<open>parse_read_line\<close>, whose pieces are parsed in turn (\<open>parsed_in_turn\<close>).
  \<^item> \<open>Call_Trees\<close>: the calls of a command form a tree through its pipes (\<open>feeds\<close>), with the end of the
    pipeline as its root, by an induction over the successful runs of the parser.
  \<^item> \<open>Call_Types\<close>: the calls of a parsed command are well-formed.
  \<^item> \<open>Descriptors\<close>: the descriptors that the parser opens are exactly the ends of the pipes and the
    files of the command it returns (\<open>held\<close>).
  \<^item> \<open>Job_Store\<close>: every sequence of operations on the job table simulates the abstract machine on a
    finite map, with the same answers.
  \<^item> \<open>Job_Control\<close>: job numbers, \<^verbatim>\<open>fg\<close>, \<^verbatim>\<open>kill\<close>, \<^verbatim>\<open>exit\<close> and the wait in the foreground.
  \<^item> \<open>Execution\<close>: the two sides of \<^verbatim>\<open>fork\<close> as scripts of events, the descriptors each of them
    closes, and what becomes of a command that has been started.
  \<^item> \<open>Handshake\<close>: the two scripts interleaved in every order over two pipes, a step relation
    with an invariant. They cannot deadlock, take at most 13 steps, and the parent goes
    on only when the child is in its process group.
  \<^item> \<open>Session\<close>: the invariant of the whole session, what a round can do wrong (\<open>round_faults\<close>), and
    every way in which the process of the shell and its children can end.
  \<^item> \<open>Shutdown\<close>: the states reachable between two prompts (\<open>at_prompt\<close>), their invariant, the memory
    safety of a session, and the end of the shell at the end of its input, or its endless loop
    when a job stays (a finding).
  \<^item> \<open>Observation\<close>: the locale \<open>trace_observer\<close>; whoever looks at the trace but not at output,
    signals and waiting does not see the built-ins. It is interpreted twice:
  \<^item> \<open>Leak_Freedom\<close>: on the open descriptors. Executing a command closes exactly what parsing it
    has opened, when the kernel gives fresh descriptors (\<open>fresh_fds\<close>) and refuses nothing (\<open>grants\<close>).
  \<^item> \<open>Job_Processes\<close>: on the processes that have been created. The processes of a job are those of
    the external calls of its command, and \<^verbatim>\<open>jobs -t\<close> fails on the others (a finding).
  \<^item> \<open>Parse_Failure\<close>: a command that does not parse leaves nothing behind, by another induction over
    the parser: after an error every descriptor is accounted for by the command or the builders.
  \<^item> \<open>No_Leaks\<close>: a line leaves no descriptor and no call behind, and therefore none is left between
    the prompts of a session, as long as no line has three pieces or more between its symbols \<^verbatim>\<open>&\<close>
    (longer ones can leak, a finding).

  \<^bold>\<open>The interfaces.\<close> The locales are \<open>frame_relation\<close> (\<open>Prelude\<close>: what a group of operations
  leaves alone; interpreted on the frames of the trace, of the table and of the session),
  \<open>bounded_set\<close> (\<open>Utils\<close>, on the arrays of descriptors), \<open>object_store\<close> (\<open>Command\<close>, on the store of
  calls), \<open>job_store\<close> (\<open>Jobs\<close>, on the job table) and \<open>trace_observer\<close>.

  \<^bold>\<open>Integers and bounds.\<close> \<^verbatim>\<open>size_t\<close>, \<^verbatim>\<open>int\<close> and \<^verbatim>\<open>intmax_t\<close> are mathematical integers with the
  conversions of \<open>Prelude\<close> written out where the code converts or can wrap; the status of
  \<^verbatim>\<open>waitpid\<close> is a 32-bit word. \<open>PATH_MAX\<close> is 4096, \<open>BUFSIZ\<close> 8192, the prompt 30 characters and
  its buffer 90 bytes, the table grows by its initial 64 slots, as on the platform of the
  program. No function runs on fuel: loops over data are structural or have a measure, the
  others are partial functions as said above.

  \<^bold>\<open>Not modelled.\<close> The branches after a failed \<^verbatim>\<open>malloc\<close> or \<^verbatim>\<open>strdup\<close>: memory does not run
  out. The freeing of strings and arrays of strings, which no other pointer reaches, is left
  out; the freeing of calls, commands and the literal of \<^verbatim>\<open>get_current_wd\<close> is modelled. The
  history of \<^verbatim>\<open>readline\<close>. The unit-test framework \<^verbatim>\<open>cinta/\<close>, the drivers in \<^verbatim>\<open>tests/\<close> and the two
  programs of \<^verbatim>\<open>utils/\<close> that the tests run are not part of the shell.
\<close>

end
